(* ===== verification/Base.thy ===== *)
theory Base
  imports Main "HOL-Library.Word" "HOL-Library.List_Lexorder" "HOL-Library.Product_Lexorder"
    "HOL-Library.Multiset"
begin

text \<open>
  Shared vocabulary of the development: Go's fixed-width integers and byte slices, Go
  errors as values with the text the program inspects, the result type of an operation
  that reads and writes a state, and the generic lemmas the components use.
\<close>

section \<open>Go values\<close>

type_synonym u8 = "8 word"
type_synonym u32 = "32 word"
type_synonym u64 = "64 word"

text \<open>
  A byte slice and a byte array are both lists of bytes; \<open>[32]byte\<close> is a list of length
  32. The order of \<open>HOL-Library.List_Lexorder\<close> on them is the order of
  \<open>bytes.Compare\<close>: \<open>bytes.Compare(a, b) < 0\<close> is \<open>a < b\<close>.
\<close>

type_synonym bytes = "u8 list"

text \<open>\<open>copy(arr[:], src)\<close> into a zeroed array of \<open>n\<close> bytes.\<close>

definition copyTo :: "nat \<Rightarrow> bytes \<Rightarrow> bytes" where
  "copyTo n src = take n src @ replicate (n - length src) 0"

text \<open>Indexing a slice: out of range is a run-time panic, here \<open>None\<close>.\<close>

definition nthOpt :: "'a list \<Rightarrow> nat \<Rightarrow> 'a option" where
  "nthOpt xs i = (if i < length xs then Some (xs ! i) else None)"

text \<open>Decimal and hexadecimal formatting (\<open>%d\<close> of an unsigned value, \<open>%x\<close> of bytes).\<close>

definition digitChar :: "nat \<Rightarrow> char" where
  "digitChar d = char_of (if d < 10 then 48 + d else 87 + d)"

fun dec :: "nat \<Rightarrow> string" where
  "dec n = (if n < 10 then [digitChar n] else dec (n div 10) @ [digitChar (n mod 10)])"

declare dec.simps [simp del]

definition hexByte :: "u8 \<Rightarrow> string" where
  "hexByte b = [digitChar (unat b div 16), digitChar (unat b mod 16)]"

definition hex :: "bytes \<Rightarrow> string" where
  "hex bs = concat (map hexByte bs)"

text \<open>\<open>hex.DecodeString\<close>: both cases of the letters; an odd length or another character is an
  error.\<close>

definition hexDigit :: "char \<Rightarrow> nat option" where
  "hexDigit c =
     (let n = of_char c :: nat in
      if 48 \<le> n \<and> n \<le> 57 then Some (n - 48)
      else if 97 \<le> n \<and> n \<le> 102 then Some (n - 87)
      else if 65 \<le> n \<and> n \<le> 70 then Some (n - 55) else None)"

fun decodeString :: "string \<Rightarrow> bytes option" where
  "decodeString [] = Some []"
| "decodeString [c] = None"
| "decodeString (a # b # cs) =
     (case (hexDigit a, hexDigit b, decodeString cs) of
        (Some x, Some y, Some bs) \<Rightarrow> Some (of_nat (16 * x + y) # bs)
      | _ \<Rightarrow> None)"

text \<open>\<open>strings.ToLower\<close> on ASCII text and \<open>strings.Contains\<close>.\<close>

definition toLowerChar :: "char \<Rightarrow> char" where
  "toLowerChar c =
     (let n = of_char c :: nat in if 65 \<le> n \<and> n \<le> 90 then char_of (n + 32) else c)"

definition toLower :: "string \<Rightarrow> string" where
  "toLower s = map toLowerChar s"

definition hasPrefix :: "string \<Rightarrow> string \<Rightarrow> bool" where
  "hasPrefix s p \<longleftrightarrow> take (length p) s = p"

fun contains :: "string \<Rightarrow> string \<Rightarrow> bool" where
  "contains [] p \<longleftrightarrow> p = []"
| "contains (c # cs) p \<longleftrightarrow> hasPrefix (c # cs) p \<or> contains cs p"

section \<open>Errors\<close>

text \<open>
  A Go \<open>error\<close> value. \<open>ErrNew\<close> is a sentinel or a formatted message of the
  program, known by its text; \<open>LibErr\<close> is an error of a library, with its text; \<open>Wrap\<close> is \<open>fmt.Errorf(\"<prefix>: %w\", err)\<close>;
  \<open>Wrap2\<close> is \<open>fmt.Errorf(\"%w: %w\", a, b)\<close>; \<open>RevertError\<close> is the struct of
  \<^verbatim>\<open>txmanager/manager.go\<close>; \<open>ApiError\<close> is the beacon library's HTTP error with its
  status code; \<open>CtxErr\<close> is the error of a cancelled context.
\<close>

datatype goerror =
    ErrNew string
  | Wrap string goerror
  | Wrap2 goerror goerror
  | RevertError string bool string
  | ApiError nat string
  | LibErr string
  | CtxErr

text \<open>\<open>err.Error()\<close>.\<close>

fun errText :: "goerror \<Rightarrow> string" where
  "errText (ErrNew s) = s"
| "errText (Wrap p e) = p @ '': '' @ errText e"
| "errText (Wrap2 a b) = errText a @ '': '' @ errText b"
| "errText (RevertError reason simulated txHash) =
     (if simulated then ''call reverted: '' @ reason
      else if txHash \<noteq> '''' then ''tx '' @ take 10 txHash @ '' reverted: '' @ reason
      else ''reverted: '' @ reason)"
| "errText (ApiError code s) = s"
| "errText (LibErr s) = s"
| "errText CtxErr = ''context canceled''"

text \<open>\<open>errors.Is(e, target)\<close>: the target is somewhere in the chain of wrapped errors.\<close>

fun errIs :: "goerror \<Rightarrow> goerror \<Rightarrow> bool" where
  "errIs (Wrap p e) t \<longleftrightarrow> Wrap p e = t \<or> errIs e t"
| "errIs (Wrap2 a b) t \<longleftrightarrow> Wrap2 a b = t \<or> errIs a t \<or> errIs b t"
| "errIs e t \<longleftrightarrow> e = t"

section \<open>Operations on a state\<close>

text \<open>
  An operation reads and writes a state and either fails with an error or returns a
  value. \<open>bindS\<close> is the early return on \<open>err != nil\<close>, \<open>wrapS\<close> the
  early return with a wrapped error.
\<close>

type_synonym ('s, 'a) op = "'s \<Rightarrow> (goerror + 'a) \<times> 's"

definition retS :: "'a \<Rightarrow> ('s, 'a) op" where
  "retS x s = (Inr x, s)"

definition failS :: "goerror \<Rightarrow> ('s, 'a) op" where
  "failS e s = (Inl e, s)"

definition bindS :: "('s, 'a) op \<Rightarrow> ('a \<Rightarrow> ('s, 'b) op) \<Rightarrow> ('s, 'b) op" where
  "bindS m f s = (case m s of (Inl e, s') \<Rightarrow> (Inl e, s') | (Inr x, s') \<Rightarrow> f x s')"

definition wrapS :: "string \<Rightarrow> ('s, 'a) op \<Rightarrow> ('s, 'a) op" where
  "wrapS p m s = (case m s of (Inl e, s') \<Rightarrow> (Inl (Wrap p e), s') | (Inr x, s') \<Rightarrow> (Inr x, s'))"

text \<open>A postcondition of an operation on both outcomes; \<open>invS\<close> is a kept invariant.\<close>

definition invS :: "('s \<Rightarrow> bool) \<Rightarrow> ('s, 'a) op \<Rightarrow> bool" where
  "invS P m \<longleftrightarrow> (\<forall>s. P s \<longrightarrow> P (snd (m s)))"

named_theorems inv_rules "an operation keeps an invariant"

lemma invS_I: "(\<And>s. P s \<Longrightarrow> P (snd (m s))) \<Longrightarrow> invS P m"
  by (simp add: invS_def)

lemma invS_D: "invS P m \<Longrightarrow> P s \<Longrightarrow> P (snd (m s))"
  by (simp add: invS_def)

lemma invS_E: "invS P m \<Longrightarrow> P s \<Longrightarrow> m s = (r, s') \<Longrightarrow> P s'"
  by (metis invS_D snd_conv)

lemma invS_ret [inv_rules]: "invS P (retS x)"
  by (simp add: invS_def retS_def)

lemma invS_fail [inv_rules]: "invS P (failS e)"
  by (simp add: invS_def failS_def)

lemma invS_bind [inv_rules]: "invS P m \<Longrightarrow> (\<And>x. invS P (f x)) \<Longrightarrow> invS P (bindS m f)"
  unfolding invS_def bindS_def by (fastforce split: prod.splits sum.splits)

lemma invS_wrap [inv_rules]: "invS P m \<Longrightarrow> invS P (wrapS p m)"
  unfolding invS_def wrapS_def by (fastforce split: prod.splits sum.splits)

lemma bindS_Inr: "m s = (Inr x, s') \<Longrightarrow> bindS m f s = f x s'"
  by (simp add: bindS_def)

lemma bindS_Inl: "m s = (Inl e, s') \<Longrightarrow> bindS m f s = (Inl e, s')"
  by (simp add: bindS_def)

lemma bindS_eq_InrE:
  assumes "bindS m f s = (Inr y, t)"
  obtains x s' where "m s = (Inr x, s')" "f x s' = (Inr y, t)"
  using assms by (auto simp: bindS_def split: prod.splits sum.splits)

lemma wrapS_eq_Inr_iff [simp]: "wrapS p m s = (Inr y, t) \<longleftrightarrow> m s = (Inr y, t)"
  by (auto simp: wrapS_def split: prod.splits sum.splits)

lemmas opS_simps = retS_def failS_def bindS_def wrapS_def

section \<open>Lists, options and words\<close>

lemma nthOpt_Some [simp]: "i < length xs \<Longrightarrow> nthOpt xs i = Some (xs ! i)"
  by (simp add: nthOpt_def)

lemma nthOpt_None [simp]: "length xs \<le> i \<Longrightarrow> nthOpt xs i = None"
  by (simp add: nthOpt_def)

lemma length_copyTo [simp]: "length (copyTo n src) = n"
  by (simp add: copyTo_def)

lemma copyTo_id [simp]: "length src = n \<Longrightarrow> copyTo n src = src"
  by (simp add: copyTo_def)

lemma unat_add_exact:
  "unat a + unat b < 2 ^ LENGTH('n) \<Longrightarrow> unat (a + b) = unat a + unat (b :: 'n::len word)"
  by (simp add: unat_add_lem)

lemma unat_mult_exact:
  "unat a * unat b < 2 ^ LENGTH('n) \<Longrightarrow> unat (a * b) = unat a * unat (b :: 'n::len word)"
  by (simp add: unat_mult_lem)

lemma unat_Suc_exact: "unat a + 1 < 2 ^ LENGTH('n) \<Longrightarrow> unat (a + 1) = unat (a :: 'n::len word) + 1"
  by (subst unat_add_exact) auto

lemma unat_sub_exact: "b \<le> a \<Longrightarrow> unat (a - b) = unat a - unat (b :: 'n::len word)"
  by (simp add: unat_sub)

lemmas word_to_nat = word_less_nat_alt word_le_nat_alt unat_div unat_mod unat_sub_exact

lemma sorted_mset_unique:
  "sorted xs \<Longrightarrow> sorted ys \<Longrightarrow> mset xs = mset ys \<Longrightarrow> xs = ys"
  by (metis properties_for_sort)

lemma append_eq_len:
  "length a = length c \<Longrightarrow> a @ b = c @ d \<longleftrightarrow> a = c \<and> b = d"
  by simp

lemma find_key_Some:
  "distinct (map f xs) \<Longrightarrow> find (\<lambda>x. f x = k) xs = Some c \<longleftrightarrow> c \<in> set xs \<and> f c = k"
  by (induction xs) (auto simp: image_iff)

lemma find_key_None: "find (\<lambda>x. f x = k) xs = None \<longleftrightarrow> k \<notin> f ` set xs"
  by (induction xs) auto

lemma those_map_Some:
  "(\<And>x. x \<in> set xs \<Longrightarrow> f x = Some (g x)) \<Longrightarrow> those (map f xs) = Some (map g xs)"
  by (induction xs) auto

end
