(* ===== verification/Merkle.thy ===== *)
theory Merkle
  imports Base
begin

text \<open>
  The Merkle tree of \<^verbatim>\<open>merkle/encoding.go\<close> and \<^verbatim>\<open>merkle/tree.go\<close>. The
  go-ethereum functions \<open>crypto.Keccak256\<close> (\<open>kc\<close>) and \<open>leafABI.Pack\<close> (\<open>pk\<close>) are
  arguments. A Go map is the association list of its entries in the (unspecified) order in
  which \<open>range\<close> visits them, with distinct keys.
\<close>

section \<open>Leaves\<close>

record leaf =
  Leaf_ClusterID :: bytes
  Leaf_EffectiveBalance :: u32
  Leaf_Hash :: bytes

record tree =
  Tree_Root :: bytes
  Tree_leaves :: "leaf list"
  Tree_layers :: "bytes list list"

type_synonym keccak = "bytes \<Rightarrow> bytes"
type_synonym packer = "bytes \<Rightarrow> u32 \<Rightarrow> goerror + bytes"
type_synonym clusterMap = "(bytes \<times> u32) list"

text \<open>\<open>HashLeaf\<close>: a failure of \<open>Pack\<close> panics (\<open>None\<close>).\<close>

definition HashLeaf :: "keccak \<Rightarrow> packer \<Rightarrow> bytes \<Rightarrow> u32 \<Rightarrow> bytes option" where
  "HashLeaf kc pk clusterID effectiveBalance =
     (case pk clusterID effectiveBalance of
        Inl err \<Rightarrow> None
      | Inr data \<Rightarrow> Some (kc (kc data)))"

definition makeLeaf :: "keccak \<Rightarrow> packer \<Rightarrow> bytes \<times> u32 \<Rightarrow> leaf option" where
  "makeLeaf kc pk e =
     (case HashLeaf kc pk (fst e) (snd e) of
        None \<Rightarrow> None
      | Some h \<Rightarrow> Some \<lparr>Leaf_ClusterID = fst e, Leaf_EffectiveBalance = snd e, Leaf_Hash = h\<rparr>)"

definition makeLeaves :: "keccak \<Rightarrow> packer \<Rightarrow> clusterMap \<Rightarrow> leaf list option" where
  "makeLeaves kc pk clusters = those (map (makeLeaf kc pk) clusters)"

section \<open>Layers\<close>

definition hashPair :: "keccak \<Rightarrow> bytes \<Rightarrow> bytes \<Rightarrow> bytes" where
  "hashPair kc a b = (let (x, y) = (if b < a then (b, a) else (a, b)) in kc (x @ y))"

text \<open>\<open>hashLevel\<close>: neighbours are paired; an unpaired last hash is paired with itself.\<close>

fun hashLevel :: "keccak \<Rightarrow> bytes list \<Rightarrow> bytes list" where
  "hashLevel kc [] = []"
| "hashLevel kc [h] = [hashPair kc h h]"
| "hashLevel kc (l # r # hs) = hashPair kc l r # hashLevel kc hs"

lemma length_hashLevel [simp]: "length (hashLevel kc hs) = (length hs + 1) div 2"
  by (induction kc hs rule: hashLevel.induct) auto

text \<open>The loop of \<open>buildLayers\<close>, from one level of hashes upwards.\<close>

function layersFrom :: "keccak \<Rightarrow> bytes list \<Rightarrow> bytes list list" where
  "layersFrom kc hashes =
     hashes # (if 1 < length hashes then layersFrom kc (hashLevel kc hashes) else [])"
  by pat_completeness auto
termination
  by (relation "measure (\<lambda>(kc, hs). length hs)") auto

declare layersFrom.simps [simp del]

definition buildLayers :: "keccak \<Rightarrow> leaf list \<Rightarrow> bytes list list" where
  "buildLayers kc leaves = layersFrom kc (map Leaf_Hash leaves)"

section \<open>Trees and proofs\<close>

text \<open>
  \<open>NewTree\<close>. \<open>sort.Slice\<close> is \<open>sort_key\<close>; it is not stable in Go, and the theorems
  below show that nothing depends on the order of leaves with equal hashes but the order
  of the leaf list itself. \<open>None\<close> is a panic.
\<close>

definition NewTree :: "keccak \<Rightarrow> packer \<Rightarrow> clusterMap \<Rightarrow> tree option" where
  "NewTree kc pk clusters =
     (if clusters = [] then Some \<lparr>Tree_Root = kc [], Tree_leaves = [], Tree_layers = []\<rparr>
      else case makeLeaves kc pk clusters of
        None \<Rightarrow> None
      | Some ls \<Rightarrow>
          (let leaves = sort_key Leaf_Hash ls in
           if length leaves = 1
           then Some \<lparr>Tree_Root = Leaf_Hash (leaves ! 0), Tree_leaves = leaves, Tree_layers = []\<rparr>
           else let layers = buildLayers kc leaves in
             (case nthOpt (last layers) 0 of
                None \<Rightarrow> None
              | Some root \<Rightarrow>
                  Some \<lparr>Tree_Root = root, Tree_leaves = leaves, Tree_layers = layers\<rparr>)))"

definition Leaves :: "tree \<Rightarrow> leaf list" where
  "Leaves t = Tree_leaves t"

definition InnerLayers :: "tree \<Rightarrow> bytes list list" where
  "InnerLayers t = (if length (Tree_layers t) \<le> 1 then [] else tl (Tree_layers t))"

fun findLeafFrom :: "nat \<Rightarrow> leaf list \<Rightarrow> bytes \<Rightarrow> nat option" where
  "findLeafFrom i [] clusterID = None"
| "findLeafFrom i (l # ls) clusterID =
     (if Leaf_ClusterID l = clusterID then Some i else findLeafFrom (Suc i) ls clusterID)"

text \<open>\<open>findLeaf\<close>: \<open>None\<close> is the source's -1.\<close>

definition findLeaf :: "tree \<Rightarrow> bytes \<Rightarrow> nat option" where
  "findLeaf t clusterID = findLeafFrom 0 (Tree_leaves t) clusterID"

definition sibling :: "bytes list \<Rightarrow> nat \<Rightarrow> bytes option" where
  "sibling hashes idx =
     (if idx mod 2 = 0
      then if idx + 1 < length hashes then nthOpt hashes (idx + 1) else nthOpt hashes idx
      else nthOpt hashes (idx - 1))"

text \<open>The loop of \<open>GetProof\<close> over all layers but the last.\<close>

fun proofLoop :: "bytes list list \<Rightarrow> nat \<Rightarrow> bytes list option" where
  "proofLoop (l # m # ls) idx =
     (case sibling l idx of
        None \<Rightarrow> None
      | Some s \<Rightarrow> (case proofLoop (m # ls) (idx div 2) of None \<Rightarrow> None | Some p \<Rightarrow> Some (s # p)))"
| "proofLoop _ idx = Some []"

text \<open>\<open>GetProof\<close>: \<open>None\<close> is an index panic, \<open>Inl\<close> the error.\<close>

definition GetProof :: "tree \<Rightarrow> bytes \<Rightarrow> (goerror + bytes list) option" where
  "GetProof t clusterID =
     (case findLeaf t clusterID of
        None \<Rightarrow> Some (Inl (ErrNew (''cluster '' @ hex clusterID @ '' not found'')))
      | Some idx \<Rightarrow>
          if Tree_layers t = [] then Some (Inr [])
          else map_option Inr (proofLoop (Tree_layers t) idx))"

text \<open>
  How a proof is checked: the test helper \<open>verifyProof\<close> of \<^verbatim>\<open>merkle/tree_test.go\<close>,
  which folds \<open>hashPair\<close> from the leaf hash to the root.
\<close>

definition verifyProof :: "keccak \<Rightarrow> bytes \<Rightarrow> bytes list \<Rightarrow> bytes" where
  "verifyProof kc leafHash proof = foldl (hashPair kc) leafHash proof"

section \<open>Completeness of proofs\<close>

lemma hashPair_commute: "hashPair kc a b = hashPair kc b a"
  by (auto simp: hashPair_def)

lemma layersFrom_single: "length hs \<le> 1 \<Longrightarrow> layersFrom kc hs = [hs]"
  by (simp add: layersFrom.simps)

lemma layersFrom_step:
  "1 < length hs \<Longrightarrow> layersFrom kc hs = hs # layersFrom kc (hashLevel kc hs)"
  by (subst layersFrom.simps) simp

lemma layersFrom_not_Nil [simp]: "layersFrom kc hs \<noteq> []"
  by (subst layersFrom.simps) simp

lemma layersFrom_Cons_ex: "\<exists>ls. layersFrom kc hs = hs # ls"
  by (subst layersFrom.simps) simp

lemma hashLevel_nth:
  "i < length hs \<Longrightarrow>
   \<exists>s. sibling hs i = Some s \<and> hashPair kc (hs ! i) s = hashLevel kc hs ! (i div 2)"
proof (induction kc hs arbitrary: i rule: hashLevel.induct)
  case (3 kc l r hs)
  show ?case
  proof (cases "i < 2")
    case True
    then have "i = 0 \<or> i = 1" by auto
    then show ?thesis by (auto simp: sibling_def hashPair_commute)
  next
    case False
    then obtain j where j: "i = Suc (Suc j)" by (metis add_2_eq_Suc le_Suc_ex not_less)
    with "3.prems" have "j < length hs" by simp
    from "3.IH" [OF this] obtain s where
      "sibling hs j = Some s" "hashPair kc (hs ! j) s = hashLevel kc hs ! (j div 2)" by blast
    with j show ?thesis
      by (auto simp: sibling_def nthOpt_def split: if_splits)
  qed
qed (auto simp: sibling_def)

lemma proofLoop_verifies:
  "i < length hs \<Longrightarrow>
   \<exists>p. proofLoop (layersFrom kc hs) i = Some p \<and>
       verifyProof kc (hs ! i) p = last (layersFrom kc hs) ! 0"
proof (induction kc hs arbitrary: i rule: layersFrom.induct)
  case (1 kc hs)
  show ?case
  proof (cases "1 < length hs")
    case True
    obtain s where s: "sibling hs i = Some s"
      "hashPair kc (hs ! i) s = hashLevel kc hs ! (i div 2)"
      using hashLevel_nth "1.prems" by blast
    have "i div 2 < length (hashLevel kc hs)" using "1.prems" by simp
    from "1.IH" [OF True this] obtain p where
      "proofLoop (layersFrom kc (hashLevel kc hs)) (i div 2) = Some p"
      "verifyProof kc (hashLevel kc hs ! (i div 2)) p =
         last (layersFrom kc (hashLevel kc hs)) ! 0" by blast
    with s show ?thesis
      using layersFrom_Cons_ex [of kc "hashLevel kc hs"]
      by (auto simp: layersFrom_step [OF True] verifyProof_def)
  next
    case False
    with "1.prems" have "i = 0" by linarith
    with False show ?thesis by (simp add: layersFrom_single verifyProof_def)
  qed
qed

lemma last_layersFrom_length: "hs \<noteq> [] \<Longrightarrow> length (last (layersFrom kc hs)) = 1"
proof (induction kc hs rule: layersFrom.induct)
  case (1 kc hs)
  show ?case
  proof (cases "1 < length hs")
    case True
    then have "hashLevel kc hs \<noteq> []" by (auto simp flip: length_greater_0_conv)
    with "1.IH" True show ?thesis by (simp add: layersFrom_step)
  next
    case False
    with "1.prems" show ?thesis
      by (cases hs) (auto simp: layersFrom_single)
  qed
qed

lemma findLeafFrom_Some:
  "findLeafFrom k ls cid = Some i \<Longrightarrow>
   k \<le> i \<and> i - k < length ls \<and> Leaf_ClusterID (ls ! (i - k)) = cid"
proof (induction k ls cid rule: findLeafFrom.induct)
  case (2 k l ls cid)
  then show ?case
    by (cases "Leaf_ClusterID l = cid") (auto simp: nth_Cons' Suc_diff_le split: if_splits)
qed simp

lemma findLeafFrom_None: "findLeafFrom k ls cid = None \<longleftrightarrow> cid \<notin> Leaf_ClusterID ` set ls"
  by (induction k ls cid rule: findLeafFrom.induct) auto

section \<open>What the libraries promise\<close>

text \<open>
  Documented behaviour of go-ethereum: Keccak-256 digests have 32 bytes; ABI encoding of
  \<open>(bytes32, uint32)\<close> never fails on values of these types, takes two 32-byte words and
  is injective.
\<close>

definition keccak_ok :: "keccak \<Rightarrow> bool" where
  "keccak_ok kc \<longleftrightarrow> (\<forall>x. length (kc x) = 32)"

definition pack_ok :: "packer \<Rightarrow> bool" where
  "pack_ok pk \<longleftrightarrow>
     (\<forall>cid b. length cid = 32 \<longrightarrow> (\<exists>d. pk cid b = Inr d \<and> length d = 64)) \<and>
     (\<forall>cid b cid' b'. length cid = 32 \<longrightarrow> length cid' = 32 \<longrightarrow>
        pk cid b = pk cid' b' \<longrightarrow> cid = cid' \<and> b = b')"

text \<open>The entries of a \<open>map[[32]byte]uint32\<close>.\<close>

definition wfClusters :: "clusterMap \<Rightarrow> bool" where
  "wfClusters cs \<longleftrightarrow> distinct (map fst cs) \<and> (\<forall>e \<in> set cs. length (fst e) = 32)"

definition packed :: "packer \<Rightarrow> bytes \<times> u32 \<Rightarrow> bytes" where
  "packed pk e = (case pk (fst e) (snd e) of Inr d \<Rightarrow> d | Inl _ \<Rightarrow> [])"

definition leafOf :: "keccak \<Rightarrow> packer \<Rightarrow> bytes \<times> u32 \<Rightarrow> leaf" where
  "leafOf kc pk e =
     \<lparr>Leaf_ClusterID = fst e, Leaf_EffectiveBalance = snd e, Leaf_Hash = kc (kc (packed pk e))\<rparr>"

definition sortedLeaves :: "keccak \<Rightarrow> packer \<Rightarrow> clusterMap \<Rightarrow> leaf list" where
  "sortedLeaves kc pk cs = sort_key Leaf_Hash (map (leafOf kc pk) cs)"

abbreviation leafHashes :: "keccak \<Rightarrow> packer \<Rightarrow> clusterMap \<Rightarrow> bytes list" where
  "leafHashes kc pk cs \<equiv> map Leaf_Hash (sortedLeaves kc pk cs)"

lemma leafOf_simps [simp]:
  "Leaf_ClusterID (leafOf kc pk e) = fst e"
  "Leaf_EffectiveBalance (leafOf kc pk e) = snd e"
  "Leaf_Hash (leafOf kc pk e) = kc (kc (packed pk e))"
  by (simp_all add: leafOf_def)

lemma pack_ok_packed:
  "pack_ok pk \<Longrightarrow> length (fst e) = 32 \<Longrightarrow> pk (fst e) (snd e) = Inr (packed pk e)"
  unfolding pack_ok_def packed_def by (metis sum.simps(6))

lemma pack_ok_length: "pack_ok pk \<Longrightarrow> length (fst e) = 32 \<Longrightarrow> length (packed pk e) = 64"
  unfolding pack_ok_def packed_def by (metis sum.simps(6))

lemma pack_ok_inj:
  assumes "pack_ok pk" "length (fst e) = 32" "length (fst e') = 32" "packed pk e = packed pk e'"
  shows "e = e'"
proof -
  have "pk (fst e) (snd e) = pk (fst e') (snd e')"
    using assms pack_ok_packed by metis
  with assms show ?thesis unfolding pack_ok_def by (metis prod.collapse)
qed

lemma HashLeaf_ok:
  "pack_ok pk \<Longrightarrow> length cid = 32 \<Longrightarrow> HashLeaf kc pk cid b = Some (kc (kc (packed pk (cid, b))))"
  using pack_ok_packed [of pk "(cid, b)"] by (simp add: HashLeaf_def)

lemma makeLeaves_ok:
  "pack_ok pk \<Longrightarrow> wfClusters cs \<Longrightarrow> makeLeaves kc pk cs = Some (map (leafOf kc pk) cs)"
  unfolding makeLeaves_def
  by (rule those_map_Some) (auto simp: makeLeaf_def HashLeaf_ok leafOf_def wfClusters_def)

lemma set_sortedLeaves [simp]: "set (sortedLeaves kc pk cs) = leafOf kc pk ` set cs"
  by (simp add: sortedLeaves_def)

lemma length_sortedLeaves [simp]: "length (sortedLeaves kc pk cs) = length cs"
  by (simp add: sortedLeaves_def)

text \<open>The shape of every tree that \<open>NewTree\<close> returns.\<close>

lemma NewTree_shape:
  assumes "pack_ok pk" "wfClusters cs" "cs \<noteq> []"
  shows "\<exists>t. NewTree kc pk cs = Some t \<and> Tree_leaves t = sortedLeaves kc pk cs \<and>
     Tree_Root t = last (layersFrom kc (leafHashes kc pk cs)) ! 0 \<and>
     Tree_layers t = (if length cs = 1 then [] else layersFrom kc (leafHashes kc pk cs))"
proof (cases "length cs = 1")
  case True
  then have "length (sortedLeaves kc pk cs) = 1" by simp
  then obtain l where l: "sortedLeaves kc pk cs = [l]"
    by (cases "sortedLeaves kc pk cs") (auto simp del: length_sortedLeaves)
  with True assms show ?thesis
    by (auto simp: NewTree_def makeLeaves_ok layersFrom_single simp flip: sortedLeaves_def)
next
  case False
  have "leafHashes kc pk cs \<noteq> []" using assms(3) by (simp flip: length_greater_0_conv)
  then have "length (last (layersFrom kc (leafHashes kc pk cs))) = 1"
    by (rule last_layersFrom_length)
  with False assms show ?thesis
    by (simp add: NewTree_def makeLeaves_ok buildLayers_def Let_def flip: sortedLeaves_def)
qed

lemma NewTree_Nil: "NewTree kc pk [] = Some \<lparr>Tree_Root = kc [], Tree_leaves = [], Tree_layers = []\<rparr>"
  by (simp add: NewTree_def)

lemma NewTree_total:
  "pack_ok pk \<Longrightarrow> wfClusters cs \<Longrightarrow> \<exists>t. NewTree kc pk cs = Some t"
  using NewTree_shape NewTree_Nil by (cases "cs = []") blast+

lemma NewTree_leaves:
  "pack_ok pk \<Longrightarrow> wfClusters cs \<Longrightarrow> NewTree kc pk cs = Some t \<Longrightarrow>
   Tree_leaves t = sortedLeaves kc pk cs"
  using NewTree_shape [of pk cs kc] by (cases "cs = []") (auto simp: NewTree_Nil sortedLeaves_def)

text \<open>The index loop of \<open>GetProof\<close> on such a tree, the single-leaf case included.\<close>

lemma GetProof_found:
  assumes "pack_ok pk" "wfClusters cs" "NewTree kc pk cs = Some t"
    "findLeaf t cid = Some i"
  shows "i < length cs"
    and "GetProof t cid = map_option Inr (proofLoop (layersFrom kc (leafHashes kc pk cs)) i)"
proof -
  have lv: "Tree_leaves t = sortedLeaves kc pk cs" using assms by (simp add: NewTree_leaves)
  with assms(4) findLeafFrom_Some show i: "i < length cs"
    by (fastforce simp: findLeaf_def)
  then have ne: "cs \<noteq> []" by auto
  from NewTree_shape [OF assms(1,2) ne, of kc] assms(3)
  have lay: "Tree_layers t = (if length cs = 1 then [] else layersFrom kc (leafHashes kc pk cs))"
    by simp
  show "GetProof t cid = map_option Inr (proofLoop (layersFrom kc (leafHashes kc pk cs)) i)"
    using lay assms(4) by (auto simp: GetProof_def layersFrom_single)
qed

lemma findLeaf_iff:
  assumes "pack_ok pk" "wfClusters cs" "NewTree kc pk cs = Some t"
  shows "findLeaf t cid = None \<longleftrightarrow> cid \<notin> fst ` set cs"
  using NewTree_leaves [OF assms]
  by (simp add: findLeaf_def findLeafFrom_None image_image)

lemma findLeaf_leaf:
  assumes "pack_ok pk" "wfClusters cs" "NewTree kc pk cs = Some t"
    "findLeaf t cid = Some i" "map_of cs cid = Some b"
  shows "leafHashes kc pk cs ! i = kc (kc (packed pk (cid, b)))"
proof -
  have lv: "Tree_leaves t = sortedLeaves kc pk cs" using assms by (simp add: NewTree_leaves)
  with assms(4) have i: "i < length cs" "Leaf_ClusterID (sortedLeaves kc pk cs ! i) = cid"
    using findLeafFrom_Some [of 0] by (fastforce simp: findLeaf_def)+
  have "sortedLeaves kc pk cs ! i \<in> leafOf kc pk ` set cs"
    using i(1) by (metis length_sortedLeaves nth_mem set_sortedLeaves)
  then obtain e where e: "e \<in> set cs" "sortedLeaves kc pk cs ! i = leafOf kc pk e" by auto
  with i(2) have "fst e = cid" by simp
  moreover have "map_of cs (fst e) = Some (snd e)"
    using e(1) assms(2) by (simp add: wfClusters_def)
  ultimately have "e = (cid, b)" using assms(5) by (cases e) auto
  with e(2) i(1) show ?thesis by simp
qed

lemma GetProof_complete:
  assumes "pack_ok pk" "wfClusters cs" "NewTree kc pk cs = Some t" "map_of cs cid = Some b"
  shows "\<exists>p h. GetProof t cid = Some (Inr p) \<and> HashLeaf kc pk cid b = Some h \<and>
               verifyProof kc h p = Tree_Root t"
proof -
  have mem: "(cid, b) \<in> set cs" using assms(4) by (rule map_of_SomeD)
  then have ne: "cs \<noteq> []" and len: "length cid = 32"
    using assms(2) by (auto simp: wfClusters_def)
  have "findLeaf t cid \<noteq> None"
    using mem findLeaf_iff [OF assms(1-3)] by force
  then obtain i where i: "findLeaf t cid = Some i" by auto
  note g = GetProof_found [OF assms(1-3) i]
  have h: "leafHashes kc pk cs ! i = kc (kc (packed pk (cid, b)))"
    using assms i by (simp add: findLeaf_leaf)
  obtain p where p: "proofLoop (layersFrom kc (leafHashes kc pk cs)) i = Some p"
    "verifyProof kc (leafHashes kc pk cs ! i) p = last (layersFrom kc (leafHashes kc pk cs)) ! 0"
    using proofLoop_verifies [of i "leafHashes kc pk cs" kc] g(1) by auto
  have "Tree_Root t = last (layersFrom kc (leafHashes kc pk cs)) ! 0"
    using NewTree_shape [OF assms(1,2) ne, of kc] assms(3) by simp
  with p g(2) h show ?thesis by (simp add: HashLeaf_ok assms(1) len)
qed

section \<open>Independence of iteration and sorting order\<close>

lemma leafHashes_sort: "leafHashes kc pk cs = sort (map (\<lambda>e. kc (kc (packed pk e))) cs)"
  by (rule sorted_mset_unique)
     (simp_all add: sortedLeaves_def image_mset.compositionality comp_def)

lemma leafHashes_perm: "mset cs = mset cs' \<Longrightarrow> leafHashes kc pk cs = leafHashes kc pk cs'"
  unfolding leafHashes_sort by (intro properties_for_sort) simp_all

lemma wfClusters_perm: "mset cs = mset cs' \<Longrightarrow> wfClusters cs \<Longrightarrow> wfClusters cs'"
  unfolding wfClusters_def by (metis mset_eq_imp_distinct_iff mset_map set_mset_mset)

lemma NewTree_perm:
  assumes "pack_ok pk" "wfClusters cs" "mset cs = mset cs'"
    "NewTree kc pk cs = Some t" "NewTree kc pk cs' = Some t'"
  shows "Tree_Root t = Tree_Root t'" "Tree_layers t = Tree_layers t'"
proof -
  have wf: "wfClusters cs'" using assms wfClusters_perm by blast
  have len: "length cs = length cs'" using assms(3) mset_eq_length by blast
  note eq = leafHashes_perm [OF assms(3), of kc pk]
  have "Tree_Root t = Tree_Root t' \<and> Tree_layers t = Tree_layers t'"
  proof (cases "cs = []")
    case True
    with len assms(4,5) show ?thesis by (simp add: NewTree_Nil)
  next
    case False
    with len have "cs' \<noteq> []" by auto
    from NewTree_shape [OF assms(1,2) False, of kc] NewTree_shape [OF assms(1) wf this, of kc]
    show ?thesis using assms(4,5) eq len by auto
  qed
  then show "Tree_Root t = Tree_Root t'" "Tree_layers t = Tree_layers t'" by auto
qed

text \<open>Whatever permutation of the leaves sorted by hash a sorting routine returns, the
  layers are the same.\<close>

lemma buildLayers_any_sort:
  assumes "mset ls = mset (map (leafOf kc pk) cs)" "sorted (map Leaf_Hash ls)"
  shows "buildLayers kc ls = layersFrom kc (leafHashes kc pk cs)"
proof -
  have "mset (map Leaf_Hash ls) = mset (leafHashes kc pk cs)"
    using assms(1) by (simp add: sortedLeaves_def)
  moreover have "sorted (leafHashes kc pk cs)" by (simp add: sortedLeaves_def)
  ultimately show ?thesis
    using assms(2) sorted_mset_unique unfolding buildLayers_def by metis
qed

section \<open>Depth\<close>

lemma pow2_step:
  assumes "(n + 1) div 2 \<le> 2 ^ d" "2 ^ d < 2 * ((n + 1) div 2)" "1 < (n::nat)"
  shows "n \<le> 2 ^ Suc d \<and> 2 ^ Suc d < 2 * n"
proof -
  have "2 ^ d \<noteq> n" if "odd n" using that assms(3) by (cases d) auto
  with assms show ?thesis by (cases "even n") (auto elim!: evenE oddE)
qed

lemma layersFrom_depth:
  "hs \<noteq> [] \<Longrightarrow>
   length hs \<le> 2 ^ (length (layersFrom kc hs) - 1) \<and>
   2 ^ (length (layersFrom kc hs) - 1) < 2 * length hs"
proof (induction kc hs rule: layersFrom.induct)
  case (1 kc hs)
  show ?case
  proof (cases "1 < length hs")
    case True
    then have "hashLevel kc hs \<noteq> []" by (auto simp flip: length_greater_0_conv)
    with "1.IH" True
    have "(length hs + 1) div 2 \<le> 2 ^ (length (layersFrom kc (hashLevel kc hs)) - 1) \<and>
      2 ^ (length (layersFrom kc (hashLevel kc hs)) - 1) < 2 * ((length hs + 1) div 2)"
      by simp
    with pow2_step True
    have "length hs \<le> 2 ^ Suc (length (layersFrom kc (hashLevel kc hs)) - 1) \<and>
      2 ^ Suc (length (layersFrom kc (hashLevel kc hs)) - 1) < 2 * length hs" by blast
    moreover have "Suc (length (layersFrom kc (hashLevel kc hs)) - 1) =
       length (layersFrom kc hs) - 1"
      using True by (simp add: layersFrom_step)
    ultimately show ?thesis by simp
  next
    case False
    with "1.prems" show ?thesis by (cases hs) (auto simp: layersFrom_single)
  qed
qed

lemma proofLoop_length: "proofLoop ls i = Some p \<Longrightarrow> length p = length ls - 1"
  by (induction ls i arbitrary: p rule: proofLoop.induct) (auto split: option.splits)

section \<open>Soundness of proofs\<close>

text \<open>
  The byte strings that are hashed while a tree is built and while a proof is checked.
  Soundness is stated for a hash function without a collision among these strings, which,
  unlike injectivity on all strings, a function with 32-byte results can satisfy.
\<close>

definition pairInput :: "bytes \<Rightarrow> bytes \<Rightarrow> bytes" where
  "pairInput a b = (if b < a then b @ a else a @ b)"

fun levelInputs :: "bytes list \<Rightarrow> bytes list" where
  "levelInputs [] = []"
| "levelInputs [h] = [pairInput h h]"
| "levelInputs (l # r # hs) = pairInput l r # levelInputs hs"

function layerInputs :: "keccak \<Rightarrow> bytes list \<Rightarrow> bytes list" where
  "layerInputs kc hs =
     (if 1 < length hs then levelInputs hs @ layerInputs kc (hashLevel kc hs) else [])"
  by pat_completeness auto
termination
  by (relation "measure (\<lambda>(kc, hs). length hs)") auto

declare layerInputs.simps [simp del]

fun proofInputs :: "keccak \<Rightarrow> bytes \<Rightarrow> bytes list \<Rightarrow> bytes list" where
  "proofInputs kc h [] = []"
| "proofInputs kc h (s # p) = pairInput h s # proofInputs kc (hashPair kc h s) p"

definition leafInputs :: "keccak \<Rightarrow> packer \<Rightarrow> bytes \<times> u32 \<Rightarrow> bytes list" where
  "leafInputs kc pk e = [packed pk e, kc (packed pk e)]"

definition treeInputs :: "keccak \<Rightarrow> packer \<Rightarrow> clusterMap \<Rightarrow> bytes list" where
  "treeInputs kc pk cs =
     (if cs = [] then [[]]
      else concat (map (leafInputs kc pk) cs) @ layerInputs kc (leafHashes kc pk cs))"

lemma hashPair_pairInput: "hashPair kc a b = kc (pairInput a b)"
  by (simp add: hashPair_def pairInput_def)

lemma length_pairInput [simp]: "length (pairInput a b) = length a + length b"
  by (simp add: pairInput_def)

lemma pairInput_eqD:
  "pairInput a b = pairInput c d \<Longrightarrow> length a = n \<Longrightarrow> length b = n \<Longrightarrow> length c = n \<Longrightarrow>
   length d = n \<Longrightarrow> a = c \<or> a = d"
  by (auto simp: pairInput_def append_eq_len split: if_splits)

lemma hashLevel_inputs: "hashLevel kc hs = map kc (levelInputs hs)"
  by (induction kc hs rule: hashLevel.induct) (auto simp: hashPair_pairInput)

lemma levelInputs_mem:
  "x \<in> set (levelInputs hs) \<Longrightarrow> \<exists>a \<in> set hs. \<exists>b \<in> set hs. x = pairInput a b"
  by (induction hs rule: levelInputs.induct) auto

lemma layerInputs_length:
  "keccak_ok kc \<Longrightarrow> \<forall>h \<in> set hs. length h = 32 \<Longrightarrow> \<forall>x \<in> set (layerInputs kc hs). length x = 64"
proof (induction kc hs rule: layerInputs.induct)
  case (1 kc hs)
  have "\<forall>x \<in> set (levelInputs hs). length x = 64"
    using "1.prems"(2) levelInputs_mem by fastforce
  moreover have "\<forall>h \<in> set (hashLevel kc hs). length h = 32"
    using "1.prems"(1) by (simp add: hashLevel_inputs keccak_ok_def)
  ultimately show ?case
    using "1.IH" "1.prems"(1) by (subst layerInputs.simps) auto
qed

lemma verifyProof_snoc: "verifyProof kc h (p @ [s]) = kc (pairInput (verifyProof kc h p) s)"
  by (simp add: verifyProof_def hashPair_pairInput)

lemma verifyProof_length:
  "keccak_ok kc \<Longrightarrow> length h = 32 \<Longrightarrow> length (verifyProof kc h p) = 32"
  by (cases p rule: rev_cases) (simp_all add: verifyProof_snoc keccak_ok_def, simp add: verifyProof_def)

lemma proofInputs_mem:
  "pairInput (verifyProof kc h p) s \<in> set (proofInputs kc h (p @ s # q))"
  by (induction kc h p rule: proofInputs.induct) (simp_all add: verifyProof_def)

text \<open>
  Going down from the root, a checked path either passes through the given level or starts
  at a hash of an inner node.
\<close>

lemma path_through_level:
  assumes "keccak_ok kc" "length h = 32" "\<forall>s \<in> set p. length s = 32"
  shows "\<lbrakk>\<forall>x \<in> set hs. length x = 32; hs \<noteq> [];
    inj_on kc (set (layerInputs kc hs) \<union> set (proofInputs kc h p));
    verifyProof kc h p = last (layersFrom kc hs) ! 0\<rbrakk> \<Longrightarrow>
    (\<exists>p1 p2. p = p1 @ p2 \<and> verifyProof kc h p1 \<in> set hs) \<or> h \<in> kc ` set (layerInputs kc hs)"
proof (induction hs rule: length_induct)
  case (1 hs)
  show ?case
  proof (cases "1 < length hs")
    case False
    with "1.prems" have "verifyProof kc h p \<in> set hs" by (simp add: layersFrom_single)
    then show ?thesis by (metis append_Nil2)
  next
    case True
    let ?up = "hashLevel kc hs"
    have lay: "set (layerInputs kc hs) = set (levelInputs hs) \<union> set (layerInputs kc ?up)"
      using True by (subst layerInputs.simps) simp
    have "?up \<noteq> []" using True by (auto simp flip: length_greater_0_conv)
    moreover have "\<forall>x \<in> set ?up. length x = 32"
      using assms(1) by (simp add: hashLevel_inputs keccak_ok_def)
    moreover have "length ?up < length hs" using True by simp
    moreover have "inj_on kc (set (layerInputs kc ?up) \<union> set (proofInputs kc h p))"
      using "1.prems"(3) by (rule inj_on_subset) (auto simp: lay)
    ultimately have "(\<exists>p1 p2. p = p1 @ p2 \<and> verifyProof kc h p1 \<in> set ?up) \<or>
        h \<in> kc ` set (layerInputs kc ?up)"
      using "1.IH" "1.prems"(4) True by (simp add: layersFrom_step)
    then show ?thesis
    proof (elim disjE exE conjE)
      fix p1 p2 assume p: "p = p1 @ p2" and v: "verifyProof kc h p1 \<in> set ?up"
      then obtain x where x: "x \<in> set (levelInputs hs)" "verifyProof kc h p1 = kc x"
        by (auto simp: hashLevel_inputs)
      show ?thesis
      proof (cases p1 rule: rev_cases)
        case Nil
        with x show ?thesis by (auto simp: verifyProof_def lay)
      next
        case (snoc q s)
        have "pairInput (verifyProof kc h q) s = x"
          using "1.prems"(3) x snoc p proofInputs_mem [of kc h q s p2] lay
          by (auto simp: verifyProof_snoc dest: inj_onD)
        moreover obtain a b where ab: "a \<in> set hs" "b \<in> set hs" "x = pairInput a b"
          using levelInputs_mem x(1) by blast
        ultimately have "verifyProof kc h q = a \<or> verifyProof kc h q = b"
          using "1.prems"(1) assms p snoc
          by (intro pairInput_eqD [of _ s]) (auto simp: verifyProof_length)
        with ab snoc p show ?thesis by (metis append.assoc)
      qed
    qed (auto simp: lay)
  qed
qed

text \<open>A checked path that starts at a digest and ends in one either is empty or ends in
  the digest of a 64-byte pair.\<close>

lemma verifyProof_preimage:
  assumes "keccak_ok kc" "\<forall>s \<in> set (p @ q). length s = 32" "verifyProof kc (kc x) p = kc y"
    "inj_on kc A" "x \<in> A" "y \<in> A" "set (proofInputs kc (kc x) (p @ q)) \<subseteq> A"
  shows "p = [] \<and> x = y \<or> length y = 64"
proof (cases p rule: rev_cases)
  case Nil
  with assms show ?thesis by (auto simp: verifyProof_def dest: inj_onD)
next
  case (snoc p' s)
  then have "pairInput (verifyProof kc (kc x) p') s \<in> A"
    using assms(7) proofInputs_mem [of kc "kc x" p' s q] by auto
  moreover have "kc (pairInput (verifyProof kc (kc x) p') s) = kc y"
    using assms(3) snoc by (simp add: verifyProof_snoc)
  ultimately have "y = pairInput (verifyProof kc (kc x) p') s"
    using assms(4,6) by (auto dest: inj_onD)
  with assms(1,2) snoc show ?thesis by (simp add: verifyProof_length keccak_ok_def)
qed

text \<open>The strings hashed when the proof of one leaf is checked against a tree.\<close>

definition checkInputs :: "keccak \<Rightarrow> packer \<Rightarrow> clusterMap \<Rightarrow> bytes \<times> u32 \<Rightarrow> bytes list \<Rightarrow> bytes set" where
  "checkInputs kc pk cs e p =
     set (treeInputs kc pk cs) \<union> set (leafInputs kc pk e) \<union>
     set (proofInputs kc (kc (kc (packed pk e))) p)"

lemma proof_sound_Nil:
  assumes "keccak_ok kc" "\<forall>s \<in> set p. length s = 32" "inj_on kc (checkInputs kc pk [] e p)"
  shows "verifyProof kc (kc (kc (packed pk e))) p \<noteq> kc []"
proof
  assume "verifyProof kc (kc (kc (packed pk e))) p = kc []"
  with assms have "p = [] \<and> kc (packed pk e) = [] \<or> length ([] :: bytes) = 64"
    by (intro verifyProof_preimage [where q = "[]" and A = "checkInputs kc pk [] e p"])
       (auto simp: checkInputs_def treeInputs_def leafInputs_def)
  then have "length (kc (packed pk e)) = 0" by auto
  with assms(1) show False by (simp add: keccak_ok_def)
qed

lemma proof_sound_Cons:
  assumes kc: "keccak_ok kc" and pk: "pack_ok pk" and wf: "wfClusters cs" and ne: "cs \<noteq> []"
    and e32: "length (fst e) = 32" and p32: "\<forall>s \<in> set p. length s = 32"
    and v: "verifyProof kc (kc (kc (packed pk e))) p = last (layersFrom kc (leafHashes kc pk cs)) ! 0"
    and inj: "inj_on kc (checkInputs kc pk cs e p)"
  shows "e \<in> set cs"
proof -
  let ?hs = "leafHashes kc pk cs" and ?h = "kc (kc (packed pk e))"
  have h32: "\<forall>x \<in> set ?hs. length x = 32" and hlen: "length ?h = 32"
    using kc by (auto simp: keccak_ok_def)
  have ti: "set (layerInputs kc ?hs) \<subseteq> checkInputs kc pk cs e p"
    using ne by (auto simp: treeInputs_def checkInputs_def)
  have li: "packed pk e' \<in> checkInputs kc pk cs e p" "kc (packed pk e') \<in> checkInputs kc pk cs e p"
    if "e' \<in> insert e (set cs)" for e'
    using that ne by (auto simp: treeInputs_def leafInputs_def checkInputs_def)
  have "inj_on kc (set (layerInputs kc ?hs) \<union> set (proofInputs kc ?h p))"
    using inj by (rule inj_on_subset) (use ti in \<open>auto simp: checkInputs_def\<close>)
  moreover have "?hs \<noteq> []" using ne by (simp flip: length_greater_0_conv)
  ultimately consider (leaf) p1 p2 where "p = p1 @ p2" "verifyProof kc ?h p1 \<in> set ?hs"
    | (inner) x where "x \<in> set (layerInputs kc ?hs)" "?h = kc x"
    using path_through_level [OF kc hlen p32 h32 _ _ v] by blast
  then show ?thesis
  proof cases
    case inner
    then have "kc (packed pk e) = x" using inj_onD [OF inj inner(2)] li(2) [of e] ti by blast
    with inner(1) layerInputs_length [OF kc h32] kc show ?thesis by (auto simp: keccak_ok_def)
  next
    case leaf
    then obtain e' where e': "e' \<in> set cs" "verifyProof kc ?h p1 = kc (kc (packed pk e'))" by auto
    have "p1 = [] \<and> kc (packed pk e) = kc (packed pk e') \<or> length (kc (packed pk e')) = 64"
      by (rule verifyProof_preimage [OF kc _ e'(2) inj, where q = p2])
         (use leaf li e' p32 in \<open>auto simp: checkInputs_def\<close>)
    then have "kc (packed pk e) = kc (packed pk e')" using kc by (auto simp: keccak_ok_def)
    then have "packed pk e = packed pk e'" using inj_onD [OF inj] li(1) e'(1) by blast
    moreover have "length (fst e') = 32" using wf e' by (auto simp: wfClusters_def)
    ultimately have "e = e'" using pk e32 by (auto intro: pack_ok_inj)
    with e' show ?thesis by simp
  qed
qed

section \<open>The interface of a committed tree\<close>

text \<open>
  What the oracle, the updater and the API rely on when they build a tree from the stored
  balances and hand out proofs: the tree exists, every entry has a proof that checks
  against the root, nothing else has one, and the root depends on the entries alone.
\<close>

locale committed_tree =
  fixes build :: "clusterMap \<Rightarrow> 't option"
    and root :: "'t \<Rightarrow> bytes"
    and prove :: "'t \<Rightarrow> bytes \<Rightarrow> (goerror + bytes list) option"
    and hashOf :: "bytes \<Rightarrow> u32 \<Rightarrow> bytes option"
    and check :: "bytes \<Rightarrow> bytes list \<Rightarrow> bytes"
    and good :: "clusterMap \<Rightarrow> bool"
  assumes build_total: "good cs \<Longrightarrow> \<exists>t. build cs = Some t"
    and prove_entry: "good cs \<Longrightarrow> build cs = Some t \<Longrightarrow> map_of cs cid = Some b \<Longrightarrow>
          \<exists>p h. prove t cid = Some (Inr p) \<and> hashOf cid b = Some h \<and> check h p = root t"
    and prove_missing: "good cs \<Longrightarrow> build cs = Some t \<Longrightarrow> map_of cs cid = None \<Longrightarrow>
          \<exists>e. prove t cid = Some (Inl e)"
    and root_perm: "good cs \<Longrightarrow> mset cs = mset cs' \<Longrightarrow> build cs = Some t \<Longrightarrow>
          build cs' = Some t' \<Longrightarrow> root t = root t'"
    and good_perm: "good cs \<Longrightarrow> mset cs = mset cs' \<Longrightarrow> good cs'"
    and good_distinct: "good cs \<Longrightarrow> distinct (map fst cs)"
begin

text \<open>A proof taken from a rebuilt tree checks against the root that was committed.\<close>

lemma rebuilt_proof_checks:
  assumes "good cs" "mset cs = mset cs'" "build cs = Some t" "build cs' = Some t'"
    "prove t' cid = Some (Inr p)"
  shows "\<exists>b h. map_of cs cid = Some b \<and> hashOf cid b = Some h \<and> check h p = root t"
proof -
  have g': "good cs'" using assms good_perm by blast
  have m: "map_of cs = map_of cs'"
    using assms(1,2) g' good_distinct by (metis map_of_inject_set set_mset_mset)
  obtain b where b: "map_of cs' cid = Some b"
    using assms(5) prove_missing [OF g' assms(4), of cid] by (cases "map_of cs' cid") auto
  with prove_entry [OF g' assms(4) b] assms m root_perm show ?thesis by force
qed

end

lemma GetProof_missing:
  assumes "pack_ok pk" "wfClusters cs" "NewTree kc pk cs = Some t" "map_of cs cid = None"
  shows "GetProof t cid = Some (Inl (ErrNew (''cluster '' @ hex cid @ '' not found'')))"
proof -
  have "findLeaf t cid = None"
    using findLeaf_iff [OF assms(1-3)] assms(4) by (simp add: map_of_eq_None_iff)
  then show ?thesis by (simp add: GetProof_def)
qed

interpretation mt: committed_tree "NewTree kc pk" Tree_Root GetProof "HashLeaf kc pk"
  "verifyProof kc" "\<lambda>cs. pack_ok pk \<and> wfClusters cs" for kc pk
proof (unfold_locales, goal_cases)
  case (1 cs) then show ?case using NewTree_total by blast
next
  case (2 cs t cid b) then show ?case using GetProof_complete by blast
next
  case (3 cs t cid) then show ?case using GetProof_missing by blast
next
  case (4 cs cs' t t') then show ?case using NewTree_perm by blast
next
  case (5 cs cs') then show ?case using wfClusters_perm by blast
next
  case (6 cs) then show ?case by (simp add: wfClusters_def)
qed

section \<open>Properties\<close>

text \<open>
  A concrete digest and a concrete packing with the documented laws, used to evaluate the
  theorems below: the digest is the length of the input followed by its first 31 bytes, the
  packing spells the 32 bits of the balance as bytes.
\<close>

definition sampleKeccak :: keccak where
  "sampleKeccak x = copyTo 32 (of_nat (length x) # x)"

definition samplePack :: packer where
  "samplePack cid b = Inr (cid @ map (\<lambda>i. if bit b i then 1 else 0) [0..<32])"

definition sampleID :: "u8 \<Rightarrow> bytes" where
  "sampleID n = n # replicate 31 0"

definition sampleClusters :: clusterMap where
  "sampleClusters = [(sampleID 1, 32), (sampleID 2, 64), (sampleID 3, 96)]"

lemma sampleKeccak_ok: "keccak_ok sampleKeccak"
  by (simp add: keccak_ok_def sampleKeccak_def)

lemma samplePack_ok: "pack_ok samplePack"
proof -
  have "b = b'" if "map (\<lambda>i. if bit b i then 1 else 0 :: u8) [0..<32] =
      map (\<lambda>i. if bit b' i then 1 else 0) [0..<32]" for b b' :: u32
    by (rule bit_word_eqI) (use that in \<open>auto split: if_splits\<close>)
  then show ?thesis
    unfolding pack_ok_def samplePack_def by (auto simp only: append_eq_len sum.inject) simp
qed

lemma sampleClusters_wf: "wfClusters sampleClusters"
  by (simp add: wfClusters_def sampleClusters_def sampleID_def)

text \<open>C3: for every entry of a cluster map, \<open>NewTree\<close> builds a tree without panicking,
  \<open>GetProof\<close> returns a proof for the entry, folding the proof over the entry's leaf hash
  gives the root, and the proof has the least length that can address all leaves (the
  rounded-up binary logarithm of their number).\<close>

theorem merkle_proof_complete:
  assumes "pack_ok pk" "wfClusters cs" "map_of cs cid = Some b"
  shows "\<exists>t p h. NewTree kc pk cs = Some t \<and> GetProof t cid = Some (Inr p) \<and>
     HashLeaf kc pk cid b = Some h \<and> verifyProof kc h p = Tree_Root t \<and>
     length cs \<le> 2 ^ length p \<and> 2 ^ length p < 2 * length cs"
proof -
  obtain t where t: "NewTree kc pk cs = Some t" using mt.build_total assms by blast
  obtain p h where ph: "GetProof t cid = Some (Inr p)" "HashLeaf kc pk cid b = Some h"
    "verifyProof kc h p = Tree_Root t" using mt.prove_entry t assms by blast
  obtain i where i: "findLeaf t cid = Some i" using ph(1) by (auto simp: GetProof_def split: option.splits)
  have "leafHashes kc pk cs \<noteq> []" using assms(3) by (auto simp flip: length_greater_0_conv)
  then have "length cs \<le> 2 ^ length p \<and> 2 ^ length p < 2 * length cs"
    using ph(1) GetProof_found(2) [OF assms(1,2) t i] layersFrom_depth [of "leafHashes kc pk cs" kc]
    by (auto dest: proofLoop_length)
  with t ph show ?thesis by blast
qed

theorem merkle_proof_complete_witness:
  "\<exists>t p h. NewTree sampleKeccak samplePack sampleClusters = Some t \<and>
     GetProof t (sampleID 3) = Some (Inr p) \<and>
     HashLeaf sampleKeccak samplePack (sampleID 3) 96 = Some h \<and>
     verifyProof sampleKeccak h p = Tree_Root t \<and>
     length sampleClusters \<le> 2 ^ length p \<and> 2 ^ length p < 2 * length sampleClusters"
  by (rule merkle_proof_complete [OF samplePack_ok sampleClusters_wf])
     (simp add: sampleClusters_def sampleID_def)

text \<open>C6: a proof of any length that checks against the root of a tree proves an entry of
  that tree: no other cluster and no other balance of a cluster can be proved, provided the
  hash function has no collision among the strings hashed in building the tree and in
  checking the proof.\<close>

theorem merkle_proof_sound:
  assumes "keccak_ok kc" "pack_ok pk" "wfClusters cs" "NewTree kc pk cs = Some t"
    "length cid = 32" "\<forall>s \<in> set p. length s = 32"
    "HashLeaf kc pk cid b = Some h" "verifyProof kc h p = Tree_Root t"
    "inj_on kc (checkInputs kc pk cs (cid, b) p)"
  shows "map_of cs cid = Some b"
proof -
  have h: "h = kc (kc (packed pk (cid, b)))" using assms by (simp add: HashLeaf_ok)
  show ?thesis
  proof (cases "cs = []")
    case True
    with assms h proof_sound_Nil show ?thesis by (auto simp: NewTree_Nil)
  next
    case False
    have "Tree_Root t = last (layersFrom kc (leafHashes kc pk cs)) ! 0"
      using NewTree_shape [OF assms(2,3) False, of kc] assms(4) by simp
    with assms h have "(cid, b) \<in> set cs" using False by (intro proof_sound_Cons) auto
    with assms(3) show ?thesis by (simp add: wfClusters_def)
  qed
qed

theorem merkle_proof_sound_witness:
  "map_of (take 2 sampleClusters) (sampleID 1) = Some 32"
proof -
  let ?cs = "take 2 sampleClusters" and ?p = "[sampleKeccak (sampleKeccak (packed samplePack (sampleID 2, 64)))]"
  have wf: "wfClusters ?cs" by (simp add: wfClusters_def sampleClusters_def sampleID_def)
  obtain t where t: "NewTree sampleKeccak samplePack ?cs = Some t"
    using NewTree_total [OF samplePack_ok wf] by blast
  have h: "HashLeaf sampleKeccak samplePack (sampleID 1) 32 =
      Some (sampleKeccak (sampleKeccak (packed samplePack (sampleID 1, 32))))"
    by (rule HashLeaf_ok [OF samplePack_ok]) (simp add: sampleID_def)
  have "map_option Tree_Root (NewTree sampleKeccak samplePack ?cs) =
      Some (verifyProof sampleKeccak (sampleKeccak (sampleKeccak (packed samplePack (sampleID 1, 32)))) ?p)"
    by code_simp
  with t have v: "verifyProof sampleKeccak (sampleKeccak (sampleKeccak (packed samplePack (sampleID 1, 32)))) ?p =
      Tree_Root t" by simp
  have "distinct (map sampleKeccak (remdups (treeInputs sampleKeccak samplePack ?cs @
      leafInputs sampleKeccak samplePack (sampleID 1, 32) @
      proofInputs sampleKeccak (sampleKeccak (sampleKeccak (packed samplePack (sampleID 1, 32)))) ?p)))"
    by code_simp
  then have inj: "inj_on sampleKeccak (checkInputs sampleKeccak samplePack ?cs (sampleID 1, 32) ?p)"
    by (simp add: distinct_map checkInputs_def Un_assoc)
  show ?thesis
    by (rule merkle_proof_sound [OF sampleKeccak_ok samplePack_ok wf t _ _ h v inj])
       (simp_all add: sampleID_def sampleKeccak_def)
qed

text \<open>The root and all layers depend only on the set of entries: not on the order in
  which \<open>range\<close> visits the map, nor on which sorted permutation of the leaves
  \<open>sort.Slice\<close> returns when leaf hashes coincide.\<close>

theorem merkle_root_deterministic:
  assumes "pack_ok pk" "wfClusters cs" "mset cs = mset cs'"
    "NewTree kc pk cs = Some t" "NewTree kc pk cs' = Some t'"
  shows "Tree_Root t = Tree_Root t' \<and> Tree_layers t = Tree_layers t' \<and>
    (\<forall>ls. mset ls = mset (Tree_leaves t) \<and> sorted (map Leaf_Hash ls) \<longrightarrow>
       map Leaf_Hash ls = map Leaf_Hash (Tree_leaves t') \<and>
       (1 < length cs \<longrightarrow> buildLayers kc ls = Tree_layers t'))"
proof -
  have lv: "Tree_leaves t = sortedLeaves kc pk cs" "Tree_leaves t' = sortedLeaves kc pk cs'"
    using assms NewTree_leaves wfClusters_perm by blast+
  have "map Leaf_Hash ls = leafHashes kc pk cs' \<and> (1 < length cs \<longrightarrow> buildLayers kc ls = Tree_layers t)"
    if ls: "mset ls = mset (Tree_leaves t)" "sorted (map Leaf_Hash ls)" for ls
  proof -
    have "mset (map Leaf_Hash ls) = mset (leafHashes kc pk cs)" using ls lv by simp
    moreover have "sorted (leafHashes kc pk cs)" by (simp add: sortedLeaves_def)
    ultimately have eq: "map Leaf_Hash ls = leafHashes kc pk cs"
      using ls(2) sorted_mset_unique by blast
    have "Tree_layers t = layersFrom kc (leafHashes kc pk cs)" if "1 < length cs"
      using NewTree_shape [OF assms(1,2), of kc] assms(4) that by (cases cs) auto
    with eq show ?thesis by (simp add: buildLayers_def leafHashes_perm [OF assms(3)])
  qed
  with NewTree_perm [OF assms] lv show ?thesis by simp
qed

theorem merkle_root_deterministic_witness:
  "\<exists>t t'. NewTree sampleKeccak samplePack sampleClusters = Some t \<and>
     NewTree sampleKeccak samplePack (rev sampleClusters) = Some t' \<and>
     Tree_Root t = Tree_Root t' \<and> Tree_layers t = Tree_layers t'"
proof -
  have m: "mset sampleClusters = mset (rev sampleClusters)" by simp
  obtain t t' where t: "NewTree sampleKeccak samplePack sampleClusters = Some t"
    "NewTree sampleKeccak samplePack (rev sampleClusters) = Some t'"
    using NewTree_total [OF samplePack_ok] sampleClusters_wf wfClusters_perm [OF m] by blast
  with merkle_root_deterministic [OF samplePack_ok sampleClusters_wf m t] show ?thesis by blast
qed

text \<open>\<open>GetProof\<close> never panics on a tree of \<open>NewTree\<close>; it returns a proof for
  the clusters of the map and the \<open>not found\<close> error for every other cluster.\<close>

theorem get_proof_decides:
  assumes "pack_ok pk" "wfClusters cs" "NewTree kc pk cs = Some t"
  shows "if cid \<in> fst ` set cs then \<exists>p. GetProof t cid = Some (Inr p)
    else GetProof t cid = Some (Inl (ErrNew (''cluster '' @ hex cid @ '' not found'')))"
proof -
  have "GetProof t cid = Some (Inl (ErrNew (''cluster '' @ hex cid @ '' not found'')))"
    if "cid \<notin> fst ` set cs"
    using GetProof_missing [OF assms] that by (simp add: map_of_eq_None_iff)
  moreover have "\<exists>p. GetProof t cid = Some (Inr p)" if "cid \<in> fst ` set cs"
  proof -
    obtain b where "map_of cs cid = Some b" using \<open>cid \<in> fst ` set cs\<close>
      by (metis map_of_eq_None_iff not_None_eq)
    with mt.prove_entry assms show ?thesis by blast
  qed
  ultimately show ?thesis by simp
qed

theorem get_proof_decides_witness:
  "\<exists>t. NewTree sampleKeccak samplePack sampleClusters = Some t \<and>
     (\<exists>p. GetProof t (sampleID 2) = Some (Inr p)) \<and>
     GetProof t (sampleID 9) = Some (Inl (ErrNew (''cluster '' @ hex (sampleID 9) @ '' not found'')))"
proof -
  obtain t where t: "NewTree sampleKeccak samplePack sampleClusters = Some t"
    using NewTree_total [OF samplePack_ok sampleClusters_wf] by blast
  have "sampleID 2 \<in> fst ` set sampleClusters" "sampleID 9 \<notin> fst ` set sampleClusters"
    by (auto simp: sampleClusters_def sampleID_def)
  with get_proof_decides [OF samplePack_ok sampleClusters_wf t, of "sampleID 2"]
    get_proof_decides [OF samplePack_ok sampleClusters_wf t, of "sampleID 9"] t
  show ?thesis by simp
qed

text \<open>
  An odd level is completed by pairing its last hash with itself. For three leaves the root
  is therefore \<open>H(H(h0, h1), H(h2, h2))\<close>, where OpenZeppelin's \<open>StandardMerkleTree\<close>,
  which the comments name as the format, has \<open>H(h2, H(h0, h1))\<close>. Proofs still check with
  OpenZeppelin's verifier.
\<close>

lemma three_leaves_root:
  "last (layersFrom kc [h0, h1, h2]) ! 0 =
     hashPair kc (hashPair kc h0 h1) (hashPair kc h2 h2)"
  by (simp add: layersFrom_step layersFrom_single)

end
