(* ===== verification/Schedule.thy ===== *)
theory Schedule
  imports Base
begin

text \<open>
  The commit schedule of \<^verbatim>\<open>oracle/phase.go\<close>. Epochs are \<open>uint64\<close>: sums and
  products wrap around, and integer division by zero panics (\<open>None\<close>).
\<close>

record CommitPhase =
  StartEpoch :: u64
  Interval :: u64

type_synonym CommitSchedule = "CommitPhase list"

definition TargetAt :: "CommitPhase \<Rightarrow> u64 \<Rightarrow> u64" where
  "TargetAt p round = StartEpoch p + round * Interval p"

datatype scheduleError = NoPhase | ZeroInterval | NotAscending | NotAligned

text \<open>The loop of \<open>Validate\<close>; \<open>prev\<close> is \<open>s[i-1]\<close>, \<open>None\<close> for the first phase.\<close>

fun validateFrom :: "CommitPhase option \<Rightarrow> CommitSchedule \<Rightarrow> scheduleError option" where
  "validateFrom prev [] = None"
| "validateFrom prev (p # ps) =
     (if Interval p = 0 then Some ZeroInterval
      else case prev of
        None \<Rightarrow> validateFrom (Some p) ps
      | Some q \<Rightarrow>
          if StartEpoch p \<le> StartEpoch q then Some NotAscending
          else if (StartEpoch p - StartEpoch q) mod Interval q \<noteq> 0 then Some NotAligned
          else validateFrom (Some p) ps)"

definition Validate :: "CommitSchedule \<Rightarrow> scheduleError option" where
  "Validate s = (if s = [] then Some NoPhase else validateFrom None s)"

text \<open>\<open>PhaseAt\<close> scans from the last phase; \<open>s[0]\<close> of an empty schedule panics.\<close>

fun phaseAtRev :: "CommitSchedule \<Rightarrow> u64 \<Rightarrow> CommitPhase option" where
  "phaseAtRev [] epoch = None"
| "phaseAtRev (p # ps) epoch = (if StartEpoch p \<le> epoch then Some p else phaseAtRev ps epoch)"

definition PhaseAt :: "CommitSchedule \<Rightarrow> u64 \<Rightarrow> CommitPhase option" where
  "PhaseAt s epoch =
     (case phaseAtRev (rev s) epoch of Some p \<Rightarrow> Some p | None \<Rightarrow> nthOpt s 0)"

definition NextTarget :: "CommitSchedule \<Rightarrow> u64 \<Rightarrow> u64 option" where
  "NextTarget s epoch =
     (case PhaseAt s epoch of
        None \<Rightarrow> None
      | Some phase \<Rightarrow>
          if epoch < StartEpoch phase then Some (StartEpoch phase)
          else if Interval phase = 0 then None
          else let round = (epoch - StartEpoch phase) div Interval phase
               in Some (TargetAt phase (round + 1)))"

section \<open>The targets of a schedule\<close>

text \<open>
  The specification, which does not use \<open>PhaseAt\<close>: phase \<open>i\<close> is in force at an epoch when it is the last one
  whose start the epoch has reached, and an epoch is a target when it lies a whole number of intervals after the
  start of the phase in force. \<open>roomAt\<close> says that one more interval after an epoch still fits into 64
  bits.
\<close>

definition inForce :: "CommitSchedule \<Rightarrow> u64 \<Rightarrow> nat \<Rightarrow> bool" where
  "inForce s e i \<longleftrightarrow> i < length s \<and> StartEpoch (s ! i) \<le> e \<and> (\<forall>j < length s. i < j \<longrightarrow> e < StartEpoch (s ! j))"

definition isTarget :: "CommitSchedule \<Rightarrow> u64 \<Rightarrow> bool" where
  "isTarget s e \<longleftrightarrow>
     (\<exists>i < length s. inForce s e i \<and> unat (Interval (s ! i)) dvd unat e - unat (StartEpoch (s ! i)))"

definition roomAt :: "CommitSchedule \<Rightarrow> u64 \<Rightarrow> bool" where
  "roomAt s e \<longleftrightarrow> (\<forall>p \<in> set s. unat e + unat (Interval p) < 2 ^ 64)"

text \<open>What \<open>Validate\<close> establishes, in terms of neighbours.\<close>

definition validPair :: "CommitPhase \<Rightarrow> CommitPhase \<Rightarrow> bool" where
  "validPair q p \<longleftrightarrow> unat (StartEpoch q) < unat (StartEpoch p) \<and>
     (unat (StartEpoch p) - unat (StartEpoch q)) mod unat (Interval q) = 0"

fun chained :: "CommitSchedule \<Rightarrow> bool" where
  "chained (q # p # ps) \<longleftrightarrow> validPair q p \<and> chained (p # ps)"
| "chained _ \<longleftrightarrow> True"

lemma validateFrom_Some_None:
  "validateFrom (Some q) ps = None \<longleftrightarrow> chained (q # ps) \<and> (\<forall>p \<in> set ps. Interval p \<noteq> 0)"
proof (induction ps arbitrary: q)
  case (Cons p ps)
  have "validPair q p \<longleftrightarrow> \<not> StartEpoch p \<le> StartEpoch q \<and>
      (StartEpoch p - StartEpoch q) mod Interval q = 0"
    by (auto simp: validPair_def word_less_nat_alt word_le_nat_alt unat_sub_exact unat_mod
        simp flip: unat_eq_0)
  with Cons show ?case by auto
qed simp

lemma Validate_None:
  "Validate s = None \<longleftrightarrow> s \<noteq> [] \<and> chained s \<and> (\<forall>p \<in> set s. Interval p \<noteq> 0)"
  by (cases s) (auto simp: Validate_def validateFrom_Some_None)

section \<open>The active phase\<close>

lemma phaseAtRev_snoc:
  "phaseAtRev (rev (ps @ [p])) e = (if StartEpoch p \<le> e then Some p else phaseAtRev (rev ps) e)"
  by simp

lemma phaseAtRev_Some:
  "phaseAtRev (rev s) e = Some p \<Longrightarrow>
   \<exists>pre post. s = pre @ p # post \<and> StartEpoch p \<le> e \<and> (\<forall>r \<in> set post. e < StartEpoch r)"
proof (induction s rule: rev_induct)
  case (snoc q s)
  show ?case
  proof (cases "StartEpoch q \<le> e")
    case True
    with snoc.prems have "q = p" by simp
    with True show ?thesis by (intro exI [of _ s] exI [of _ "[]"]) simp
  next
    case False
    with snoc.prems have "phaseAtRev (rev s) e = Some p" by simp
    from snoc.IH [OF this] obtain pre post where
      "s = pre @ p # post" "StartEpoch p \<le> e" "\<forall>r \<in> set post. e < StartEpoch r" by blast
    with False show ?thesis
      by (intro exI [of _ pre] exI [of _ "post @ [q]"]) auto
  qed
qed simp

lemma phaseAtRev_split:
  "StartEpoch p \<le> e \<Longrightarrow> \<forall>r \<in> set post. e < StartEpoch r \<Longrightarrow>
   phaseAtRev (rev (pre @ p # post)) e = Some p"
proof (induction post rule: rev_induct)
  case (snoc q post)
  then have "\<not> StartEpoch q \<le> e" by (simp add: not_le)
  with snoc show ?case by simp
qed simp

lemma phaseAtRev_None: "phaseAtRev (rev s) e = None \<longleftrightarrow> (\<forall>p \<in> set s. e < StartEpoch p)"
  by (induction s rule: rev_induct) (auto simp: not_le)

lemma PhaseAt_split:
  "StartEpoch p \<le> e \<Longrightarrow> \<forall>r \<in> set post. e < StartEpoch r \<Longrightarrow> PhaseAt (pre @ p # post) e = Some p"
  by (simp only: PhaseAt_def phaseAtRev_split option.case)

lemma PhaseAt_mem: "PhaseAt s e = Some p \<Longrightarrow> p \<in> set s"
  using phaseAtRev_Some [of s e p]
  by (auto simp: PhaseAt_def nthOpt_def split: option.splits if_splits)

lemma NextTarget_total: "Validate s = None \<Longrightarrow> \<exists>t. NextTarget s e = Some t"
proof -
  assume v: "Validate s = None"
  then have "s \<noteq> []" by (simp add: Validate_None)
  then have "PhaseAt s e \<noteq> None" by (auto simp: PhaseAt_def split: option.splits)
  then obtain p where "PhaseAt s e = Some p" by blast
  with v show ?thesis by (auto simp: NextTarget_def Validate_None Let_def dest: PhaseAt_mem)
qed

lemma chained_append: "chained (xs @ ys) \<Longrightarrow> chained ys"
proof (induction xs)
  case (Cons x xs)
  then show ?case by (cases "xs @ ys") auto
qed simp

lemma chained_less: "chained (p # ps) \<Longrightarrow> r \<in> set ps \<Longrightarrow> StartEpoch p < StartEpoch r"
proof (induction ps arbitrary: p)
  case (Cons q ps)
  then have "StartEpoch p < StartEpoch q" by (simp add: validPair_def word_less_nat_alt)
  moreover have "r = q \<or> StartEpoch q < StartEpoch r" using Cons by auto
  ultimately show ?case by auto
qed simp

section \<open>The next point of a grid\<close>

definition gridNext :: "nat \<Rightarrow> nat \<Rightarrow> nat \<Rightarrow> nat" where
  "gridNext st iv e = st + ((e - st) div iv + 1) * iv"

lemma gridNext_bounds:
  assumes "0 < iv" "st \<le> e"
  shows "e < gridNext st iv e" "gridNext st iv e \<le> e + iv" "(gridNext st iv e - st) mod iv = 0"
proof -
  have "(e - st) div iv * iv + (e - st) mod iv = e - st" by (rule div_mult_mod_eq)
  moreover have "(e - st) mod iv < iv" using assms by simp
  ultimately show "e < gridNext st iv e" "gridNext st iv e \<le> e + iv"
    using assms(2) unfolding gridNext_def add_mult_distrib by linarith+
  show "(gridNext st iv e - st) mod iv = 0" by (simp add: gridNext_def)
qed

lemma gridNext_least:
  assumes "0 < iv" "st \<le> e" "e < t" "(t - st) mod iv = 0"
  shows "gridNext st iv e \<le> t"
proof -
  obtain m where m: "t - st = iv * m" using assms(4) by (auto elim: dvdE simp: mod_eq_0_iff_dvd)
  have "(e - st) div iv < m"
  proof (rule ccontr)
    assume "\<not> (e - st) div iv < m"
    then have "iv * m \<le> iv * ((e - st) div iv)" by simp
    also have "\<dots> \<le> e - st" by simp
    finally show False using m assms(2,3) by linarith
  qed
  then have "((e - st) div iv + 1) * iv \<le> m * iv" by (intro mult_right_mono) auto
  with m assms(2,3) show ?thesis unfolding gridNext_def by (simp add: mult.commute)
qed

lemma unat_TargetAt:
  assumes "StartEpoch p \<le> e" "Interval p \<noteq> 0" "unat e + unat (Interval p) < 2 ^ 64"
  shows "unat (TargetAt p ((e - StartEpoch p) div Interval p + 1)) =
         gridNext (unat (StartEpoch p)) (unat (Interval p)) (unat e)"
proof -
  let ?k = "(e - StartEpoch p) div Interval p"
  have st: "unat (StartEpoch p) \<le> unat e" using assms(1) by (simp add: word_le_nat_alt)
  have iv: "0 < unat (Interval p)" using assms(2) by (simp add: unat_gt_0)
  have k: "unat ?k = (unat e - unat (StartEpoch p)) div unat (Interval p)"
    using assms(1) by (simp add: unat_div unat_sub_exact)
  have g: "unat (StartEpoch p) + (unat ?k + 1) * unat (Interval p) < 2 ^ 64"
    using gridNext_bounds(2) [OF iv st] assms(3) by (simp add: gridNext_def k)
  then have m: "(unat ?k + 1) * unat (Interval p) < 2 ^ 64" by linarith
  have len64: "LENGTH(64) = 64" by simp
  have "(unat ?k + 1) * 1 \<le> (unat ?k + 1) * unat (Interval p)"
    using iv by (intro mult_le_mono2) simp
  then have "unat ?k + 1 < 2 ^ 64" unfolding mult_1_right using m by (rule le_less_trans)
  then have k1: "unat (?k + 1) = unat ?k + 1" by (intro unat_Suc_exact) simp
  have "unat ((?k + 1) * Interval p) = (unat ?k + 1) * unat (Interval p)"
    using m by (simp only: unat_mult_exact k1 len64)
  then show ?thesis
    unfolding TargetAt_def gridNext_def k [symmetric] using g by (subst unat_add_exact) simp_all
qed

section \<open>NextTarget is the least target after an epoch\<close>

text \<open>Epochs before the start of the phase after \<open>p\<close> belong to \<open>p\<close>.\<close>

lemma inForce_split:
  assumes "StartEpoch p \<le> e" "\<forall>r \<in> set post. e < StartEpoch r"
  shows "inForce (pre @ p # post) e i \<longleftrightarrow> i = length pre"
proof
  assume i: "inForce (pre @ p # post) e i"
  have "\<not> i < length pre"
  proof
    assume "i < length pre"
    moreover have "length pre < length (pre @ p # post)" by simp
    ultimately have "e < StartEpoch ((pre @ p # post) ! length pre)" using i unfolding inForce_def by blast
    with assms(1) show False by simp
  qed
  moreover have "\<not> length pre < i"
  proof
    assume "length pre < i"
    then have "(pre @ p # post) ! i \<in> set post" using i by (auto simp: inForce_def nth_append nth_Cons' intro!: nth_mem)
    with assms(2) i show False by (auto simp: inForce_def)
  qed
  ultimately show "i = length pre" by simp
next
  assume "i = length pre"
  with assms show "inForce (pre @ p # post) e i" by (auto simp: inForce_def nth_append nth_Cons' intro!: nth_mem)
qed

lemma isTarget_in_phase:
  assumes "s = pre @ p # post" "StartEpoch p \<le> t" "\<forall>r \<in> set post. t < StartEpoch r"
  shows "isTarget s t \<longleftrightarrow> (unat t - unat (StartEpoch p)) mod unat (Interval p) = 0"
  using inForce_split [OF assms(2,3), of pre] assms(1) by (simp add: isTarget_def mod_eq_0_iff_dvd)

lemma phase_end:
  assumes "chained (p # post)" "post \<noteq> []" "StartEpoch p \<le> e" "Interval p \<noteq> 0"
    "\<forall>r \<in> set post. e < StartEpoch r"
  shows "gridNext (unat (StartEpoch p)) (unat (Interval p)) (unat e) \<le> unat (StartEpoch (hd post))"
proof -
  obtain r rs where r: "post = r # rs" using assms(2) by (cases post) auto
  with assms have "validPair p r" "unat e < unat (StartEpoch r)"
    by (auto simp: word_less_nat_alt)
  with r assms show ?thesis
    by (auto simp: validPair_def word_le_nat_alt unat_gt_0 intro!: gridNext_least)
qed

lemma next_in_phase:
  assumes s: "s = pre @ p # post" and ch: "chained (p # post)" and iv: "Interval p \<noteq> 0"
    and st: "StartEpoch p \<le> e" and post: "\<forall>r \<in> set post. e < StartEpoch r"
    and t: "unat t = gridNext (unat (StartEpoch p)) (unat (Interval p)) (unat e)"
  shows "isTarget s t"
proof (cases "\<forall>r \<in> set post. t < StartEpoch r")
  case True
  have "StartEpoch p \<le> t"
    using t st by (simp add: word_le_nat_alt gridNext_def)
  moreover have "(unat t - unat (StartEpoch p)) mod unat (Interval p) = 0"
    unfolding t using gridNext_bounds(3) iv st by (simp add: word_le_nat_alt unat_gt_0)
  ultimately show ?thesis using isTarget_in_phase [OF s _ True] by simp
next
  case False
  then obtain q qs where q: "post = q # qs" by (cases post) auto
  have "unat t \<le> unat (StartEpoch q)"
    using phase_end [OF ch _ st iv post] q t by simp
  moreover obtain r where "r \<in> set post" "StartEpoch r \<le> t" using False by (auto simp: not_less)
  ultimately have "StartEpoch r \<le> StartEpoch q" "r \<in> set (q # qs)"
    using q by (auto simp: word_le_nat_alt)
  moreover have ch': "chained (q # qs)" using chained_append [of "[p]"] ch q by simp
  ultimately have "r = q" using chained_less [OF ch', of r] by (auto simp: not_le [symmetric])
  with \<open>unat t \<le> unat (StartEpoch q)\<close> \<open>StartEpoch r \<le> t\<close> have "t = StartEpoch q"
    by (simp add: word_le_nat_alt word_unat_eq_iff)
  moreover have "\<forall>r \<in> set qs. StartEpoch q < StartEpoch r" using chained_less [OF ch'] by blast
  ultimately show ?thesis
    using isTarget_in_phase [of s "pre @ [p]" q qs t] s q by simp
qed

lemma least_in_phase:
  assumes s: "s = pre @ p # post" and ch: "chained (p # post)" and iv: "Interval p \<noteq> 0"
    and st: "StartEpoch p \<le> e" and post: "\<forall>r \<in> set post. e < StartEpoch r"
    and t': "isTarget s t'" "e < t'"
  shows "gridNext (unat (StartEpoch p)) (unat (Interval p)) (unat e) \<le> unat t'"
proof (cases "\<forall>r \<in> set post. t' < StartEpoch r")
  case True
  have "StartEpoch p \<le> t'" using st t'(2) by simp
  then have "(unat t' - unat (StartEpoch p)) mod unat (Interval p) = 0"
    using isTarget_in_phase [OF s _ True] t'(1) by simp
  then show ?thesis
    using iv st t'(2) by (intro gridNext_least) (auto simp: unat_gt_0 word_le_nat_alt word_less_nat_alt)
next
  case False
  then obtain r where r: "r \<in> set post" "StartEpoch r \<le> t'" by (auto simp: not_less)
  then have ne: "post \<noteq> []" by auto
  then obtain q qs where q: "post = q # qs" by (cases post) auto
  have "chained (q # qs)" using chained_append [of "[p]"] ch q by simp
  then have "StartEpoch q \<le> StartEpoch r" using r(1) q chained_less by fastforce
  then have "StartEpoch q \<le> t'" using r(2) by simp
  then show ?thesis
    using phase_end [OF ch ne st iv post] q by (simp add: word_le_nat_alt)
qed

lemma NextTarget_before:
  assumes "Validate s = None" "\<forall>p \<in> set s. e < StartEpoch p"
  shows "\<exists>t. NextTarget s e = Some t \<and> e < t \<and> isTarget s t \<and> (\<forall>t'. isTarget s t' \<longrightarrow> t \<le> t')"
proof -
  obtain p ps where s: "s = p # ps" using assms(1) by (cases s) (auto simp: Validate_None)
  have "phaseAtRev (rev s) e = None" using assms(2) by (simp add: phaseAtRev_None)
  then have "PhaseAt s e = Some p" using s by (simp add: PhaseAt_def)
  then have n: "NextTarget s e = Some (StartEpoch p)" using assms(2) s by (simp add: NextTarget_def)
  have ps: "\<forall>r \<in> set ps. StartEpoch p < StartEpoch r"
    using chained_less assms(1) s by (auto simp: Validate_None)
  have "isTarget s (StartEpoch p)" using isTarget_in_phase [of s "[]" p ps "StartEpoch p"] s ps by simp
  moreover have "StartEpoch p \<le> t'" if "isTarget s t'" for t'
  proof -
    from that obtain i where i: "i < length s" "StartEpoch (s ! i) \<le> t'" by (auto simp: isTarget_def inForce_def)
    then have "s ! i \<in> set s" by simp
    with ps i(2) s show ?thesis by (cases "s ! i = p") auto
  qed
  ultimately show ?thesis using n assms(2) s by auto
qed

lemma NextTarget_after:
  assumes "Validate s = None" "roomAt s e" "\<exists>p \<in> set s. StartEpoch p \<le> e"
  shows "\<exists>t. NextTarget s e = Some t \<and> e < t \<and> isTarget s t \<and>
     (\<forall>t'. isTarget s t' \<and> e < t' \<longrightarrow> t \<le> t')"
proof -
  have "phaseAtRev (rev s) e \<noteq> None" using assms(3) by (auto simp: phaseAtRev_None not_less)
  then obtain p where ph: "phaseAtRev (rev s) e = Some p" by auto
  then obtain pre post where sp: "s = pre @ p # post" "StartEpoch p \<le> e"
    "\<forall>r \<in> set post. e < StartEpoch r" using phaseAtRev_Some by blast
  have ch: "chained (p # post)" and iv: "Interval p \<noteq> 0" and room: "unat e + unat (Interval p) < 2 ^ 64"
    using assms(1,2) sp(1) chained_append by (auto simp: Validate_None roomAt_def)
  let ?t = "TargetAt p ((e - StartEpoch p) div Interval p + 1)"
  have n: "NextTarget s e = Some ?t"
    using ph sp(2) iv by (simp add: NextTarget_def PhaseAt_def not_less [symmetric])
  note t = unat_TargetAt [OF sp(2) iv room]
  have "e < ?t" using t gridNext_bounds(1) iv sp(2)
    by (simp add: word_less_nat_alt word_le_nat_alt unat_gt_0)
  moreover have "isTarget s ?t" by (rule next_in_phase [OF sp(1) ch iv sp(2,3) t])
  moreover have "?t \<le> t'" if "isTarget s t'" "e < t'" for t'
    using least_in_phase [OF sp(1) ch iv sp(2,3) that] t by (simp add: word_le_nat_alt)
  ultimately show ?thesis using n by blast
qed

section \<open>The interface of a schedule\<close>

text \<open>
  What the main loop of the oracle relies on: from any epoch with room ahead the schedule
  names a next target, which is later than the epoch and is a target with none in between.
\<close>

locale target_clock =
  fixes nextOf :: "'s \<Rightarrow> u64 \<Rightarrow> u64 option"
    and target :: "'s \<Rightarrow> u64 \<Rightarrow> bool"
    and valid :: "'s \<Rightarrow> bool"
    and room :: "'s \<Rightarrow> u64 \<Rightarrow> bool"
  assumes next_total: "valid s \<Longrightarrow> room s e \<Longrightarrow> \<exists>t. nextOf s e = Some t"
    and next_later: "valid s \<Longrightarrow> room s e \<Longrightarrow> nextOf s e = Some t \<Longrightarrow> e < t"
    and next_target: "valid s \<Longrightarrow> room s e \<Longrightarrow> nextOf s e = Some t \<Longrightarrow> target s t"
    and next_least: "valid s \<Longrightarrow> room s e \<Longrightarrow> nextOf s e = Some t \<Longrightarrow>
          target s t' \<Longrightarrow> e < t' \<Longrightarrow> t \<le> t'"
begin

text \<open>The next target is the same for every epoch of the gap before it, and the targets
  met on the way through increasing epochs never go back.\<close>

lemma next_const_in_gap:
  assumes "valid s" "room s e" "room s e'" "nextOf s e = Some t" "e \<le> e'" "e' < t"
  shows "nextOf s e' = Some t"
proof -
  obtain t' where t': "nextOf s e' = Some t'" using assms next_total by blast
  have "t' \<le> t" using next_least [OF assms(1,3) t' next_target [OF assms(1,2,4)] assms(6)] .
  moreover have "e < t'" using next_later [OF assms(1,3) t'] assms(5) by simp
  then have "t \<le> t'" using next_least [OF assms(1,2,4)] next_target [OF assms(1,3) t'] by blast
  ultimately show ?thesis using t' by simp
qed

lemma next_mono:
  assumes "valid s" "room s e" "room s e'" "nextOf s e = Some t" "nextOf s e' = Some t'" "e \<le> e'"
  shows "t \<le> t'"
  using next_least [OF assms(1,2,4)] next_target [OF assms(1,3,5)] next_later [OF assms(1,3,5)]
    assms(6) by force

end

lemma NextTarget_least:
  assumes "Validate s = None" "roomAt s e"
  shows "\<exists>t. NextTarget s e = Some t \<and> e < t \<and> isTarget s t \<and>
     (\<forall>t'. isTarget s t' \<and> e < t' \<longrightarrow> t \<le> t')"
proof (cases "\<exists>p \<in> set s. StartEpoch p \<le> e")
  case True
  with NextTarget_after assms show ?thesis by blast
next
  case False
  with NextTarget_before assms show ?thesis by (metis not_le)
qed

interpretation clock: target_clock NextTarget isTarget "\<lambda>s. Validate s = None" roomAt
  by unfold_locales (metis NextTarget_least option.inject)+

section \<open>Properties\<close>

definition sampleSchedule :: CommitSchedule where
  "sampleSchedule = [\<lparr>StartEpoch = 100, Interval = 10\<rparr>, \<lparr>StartEpoch = 150, Interval = 4\<rparr>]"

text \<open>C17: for a schedule that \<open>Validate\<close> accepts and an epoch with room for one more
  interval below \<open>2^64\<close>, \<open>NextTarget\<close> does not panic and returns the least target of the
  schedule after the epoch, across phase boundaries and before the first phase. A target lies on the grid of the
  last phase that has started, so the selection of the phase is part of what is shown.\<close>

theorem next_target_least:
  assumes "Validate s = None" "roomAt s e"
  shows "\<exists>t. NextTarget s e = Some t \<and> e < t \<and> isTarget s t \<and>
     (\<forall>t'. isTarget s t' \<and> e < t' \<longrightarrow> t \<le> t')"
proof -
  obtain t where t: "NextTarget s e = Some t" using clock.next_total [OF assms] by blast
  show ?thesis
    using clock.next_later [OF assms t] clock.next_target [OF assms t] clock.next_least [OF assms t] t
    by blast
qed

theorem next_target_least_witness:
  "NextTarget sampleSchedule 147 = Some 150 \<and> isTarget sampleSchedule 150 \<and>
   \<not> isTarget sampleSchedule 148 \<and> \<not> isTarget sampleSchedule 149 \<and>
   NextTarget sampleSchedule 150 = Some 154 \<and> isTarget sampleSchedule 154"
proof -
  have v: "Validate sampleSchedule = None" by code_simp
  have r: "roomAt sampleSchedule 147" by (simp add: roomAt_def sampleSchedule_def)
  have n: "NextTarget sampleSchedule 147 = Some 150" by code_simp
  have least: "150 \<le> t'" if "isTarget sampleSchedule t'" "147 < t'" for t'
    using next_target_least [OF v r] n that by auto
  have "\<not> isTarget sampleSchedule 148" "\<not> isTarget sampleSchedule 149"
    using least [of 148] least [of 149] by auto
  moreover have "roomAt sampleSchedule 150" by (simp add: roomAt_def sampleSchedule_def)
  moreover have "NextTarget sampleSchedule 150 = Some 154" by code_simp
  ultimately show ?thesis using next_target_least [OF v r] next_target_least [OF v, of 150] n by auto
qed

text \<open>C38: \<open>Validate\<close> accepts exactly the non-empty schedules with positive intervals and
  strictly ascending starts in which each phase starts at a target of the phase before
  it.\<close>

theorem validate_exact:
  "Validate s = None \<longleftrightarrow>
     s \<noteq> [] \<and> (\<forall>p \<in> set s. Interval p \<noteq> 0) \<and>
     (\<forall>i. Suc i < length s \<longrightarrow>
        StartEpoch (s ! i) < StartEpoch (s ! Suc i) \<and>
        unat (Interval (s ! i)) dvd unat (StartEpoch (s ! Suc i)) - unat (StartEpoch (s ! i)))"
proof -
  have "chained s \<longleftrightarrow> (\<forall>i. Suc i < length s \<longrightarrow> validPair (s ! i) (s ! Suc i))"
  proof (induction s rule: chained.induct)
    case (1 q p ps)
    then show ?case by (auto simp: nth_Cons' less_Suc_eq_0_disj)
  qed auto
  then show ?thesis
    by (auto simp: Validate_None validPair_def word_less_nat_alt mod_eq_0_iff_dvd)
qed

theorem validate_exact_witness:
  "(Validate sampleSchedule = None) \<and>
   Validate [\<lparr>StartEpoch = 0, Interval = 10\<rparr>, \<lparr>StartEpoch = 15, Interval = 1\<rparr>] = Some NotAligned \<and>
   StartEpoch (sampleSchedule ! 0) < StartEpoch (sampleSchedule ! Suc 0)"
proof -
  have v: "Validate sampleSchedule = None" by code_simp
  have "StartEpoch (sampleSchedule ! 0) < StartEpoch (sampleSchedule ! Suc 0)"
    using validate_exact [of sampleSchedule] v by (simp add: sampleSchedule_def)
  moreover have "Validate [\<lparr>StartEpoch = 0, Interval = 10\<rparr>, \<lparr>StartEpoch = 15, Interval = 1\<rparr>] = Some NotAligned"
    by code_simp
  ultimately show ?thesis using v by simp
qed

end
