(* ===== verification/Storage.thy ===== *)
theory Storage
  imports Base
begin

text \<open>
  The SQLite storage of \<^verbatim>\<open>storage/storage.go\<close> over the schema of
  \<^verbatim>\<open>storage/schema.sql\<close>: the tables as lists of rows, each statement as an operation
  on them, with the constraints of the schema as errors. Any statement may also fail for a
  reason of the driver (a lock, a full disk, an integer the driver refuses): the store
  carries a tape of such outcomes, one entry per statement, over which every theorem is
  general. The text codecs of a column (decimal balance, JSON lists) are not part of the
  model: such a column holds the value itself.
\<close>

section \<open>Rows\<close>

record ContractEvent =
  Event_EventType :: string
  Event_BlockNumber :: u64
  Event_BlockHash :: bytes
  Event_BlockTime :: int
  Event_TransactionHash :: bytes
  Event_TransactionIndex :: u32
  Event_LogIndex :: u32
  Event_ClusterID :: "bytes option"
  Event_Error :: "string option"

record ClusterRow =
  Row_ClusterID :: bytes
  Row_OwnerAddress :: bytes
  Row_OperatorIDs :: "u64 list"
  Row_ValidatorCount :: u32
  Row_NetworkFeeIndex :: u64
  Row_Index :: u64
  Row_IsActive :: bool
  Row_Balance :: int

record ActiveValidator =
  AV_ClusterID :: bytes
  AV_ValidatorPubkey :: bytes

record ClusterBalance =
  CB_ClusterID :: bytes
  CB_EffectiveBalance :: u32

record ClusterInfo =
  Info_OwnerAddress :: bytes
  Info_OperatorIDs :: "u64 list"

datatype CommitStatus = CommitStatusPending | CommitStatusConfirmed | CommitStatusFailed

record OracleCommit =
  Commit_TargetEpoch :: u64
  Commit_MerkleRoot :: bytes
  Commit_ReferenceBlock :: u64
  Commit_ClusterBalances :: "ClusterBalance list"
  Commit_Status :: CommitStatus
  Commit_TxHash :: "bytes option"

text \<open>The rows of the tables \<open>clusters\<close> and \<open>oracle_commits\<close> with their columns.\<close>

record clusterRec =
  cluster_id :: bytes
  owner_address :: bytes
  operator_ids :: "u64 list"
  validator_count :: u32
  network_fee_index :: u64
  idx :: u64
  is_active :: nat
  balance :: int

record commitRec =
  target_epoch :: u64
  merkle_root :: bytes
  reference_block :: u64
  cluster_balances :: "ClusterBalance list option"
  status :: CommitStatus
  tx_hash :: "bytes option"

record tables =
  chain_id :: "u64 option"
  last_synced_block :: u64
  contract_events :: "ContractEvent list"
  clusters :: "clusterRec list"
  validators :: "(bytes \<times> bytes) list"
  oracle_commits :: "commitRec list"

record store =
  tbl :: tables
  faults :: "goerror option list"

text \<open>The tables after \<open>New\<close> has applied the schema to an empty file.\<close>

definition emptyTables :: tables where
  "emptyTables = \<lparr>chain_id = None, last_synced_block = 0, contract_events = [], clusters = [],
     validators = [], oracle_commits = []\<rparr>"

section \<open>Statements and transactions\<close>

text \<open>One statement: the next entry of the tape decides whether the driver runs it.\<close>

definition stmt :: "(tables \<Rightarrow> (goerror + 'a) \<times> tables) \<Rightarrow> (store, 'a) op" where
  "stmt body s =
     (case faults s of
        Some e # fs \<Rightarrow> (Inl e, s\<lparr>faults := fs\<rparr>)
      | fs \<Rightarrow> (let (r, t) = body (tbl s) in (r, s\<lparr>tbl := t, faults := tl fs\<rparr>)))"

definition query :: "(tables \<Rightarrow> 'a) \<Rightarrow> (store, 'a) op" where
  "query f = stmt (\<lambda>t. (Inr (f t), t))"

definition update :: "(tables \<Rightarrow> tables) \<Rightarrow> (store, unit) op" where
  "update f = stmt (\<lambda>t. (Inr (), f t))"

text \<open>
  \<open>BeginTx\<close>, a body, \<open>Commit\<close>, and the deferred \<open>Rollback\<close> when the body or the
  commit fails. The connection pool has one connection (\<open>SetMaxOpenConns(1)\<close>), so nothing
  runs in between.
\<close>

definition withTx :: "string \<Rightarrow> string \<Rightarrow> (store, 'a) op \<Rightarrow> (store, 'a) op" where
  "withTx beginMsg commitMsg body s =
     (case wrapS beginMsg (query (\<lambda>_. ())) s of
        (Inl e, s1) \<Rightarrow> (Inl e, s1)
      | (Inr _, s1) \<Rightarrow>
          (case body s1 of
             (Inl e, s2) \<Rightarrow> (Inl e, s2\<lparr>tbl := tbl s1\<rparr>)
           | (Inr x, s2) \<Rightarrow>
               (case wrapS commitMsg (query (\<lambda>_. ())) s2 of
                  (Inl e, s3) \<Rightarrow> (Inl e, s3\<lparr>tbl := tbl s1\<rparr>)
                | (Inr _, s3) \<Rightarrow> (Inr x, s3))))"

section \<open>Sync progress and events\<close>

definition GetChainID :: "(store, u64 option) op" where
  "GetChainID = wrapS ''get chain ID'' (query chain_id)"

definition SetChainID :: "u64 \<Rightarrow> (store, unit) op" where
  "SetChainID c = wrapS ''set chain ID'' (update (\<lambda>t. t\<lparr>chain_id := Some c\<rparr>))"

definition GetLastSyncedBlock :: "(store, u64) op" where
  "GetLastSyncedBlock = wrapS ''get last synced block'' (query last_synced_block)"

definition UpdateLastSyncedBlock :: "u64 \<Rightarrow> (store, unit) op" where
  "UpdateLastSyncedBlock blockNum =
     wrapS ''update last synced block'' (update (\<lambda>t. t\<lparr>last_synced_block := blockNum\<rparr>))"

definition eventKey :: "ContractEvent \<Rightarrow> u64 \<times> u32" where
  "eventKey e = (Event_BlockNumber e, Event_LogIndex e)"

text \<open>\<open>ON CONFLICT (block_number, log_index) DO NOTHING\<close>.\<close>

definition insertEvent :: "ContractEvent \<Rightarrow> (store, unit) op" where
  "insertEvent event = wrapS ''insert event'' (update (\<lambda>t.
     if eventKey event \<in> eventKey ` set (contract_events t) then t
     else t\<lparr>contract_events := contract_events t @ [event]\<rparr>))"

section \<open>Clusters and validators\<close>

definition boolToInt :: "bool \<Rightarrow> nat" where
  "boolToInt b = (if b then 1 else 0)"

definition intToBool :: "nat \<Rightarrow> bool" where
  "intToBool i = (i \<noteq> 0)"

definition rowToRec :: "ClusterRow \<Rightarrow> clusterRec" where
  "rowToRec c = \<lparr>cluster_id = Row_ClusterID c, owner_address = Row_OwnerAddress c,
     operator_ids = Row_OperatorIDs c, validator_count = Row_ValidatorCount c,
     network_fee_index = Row_NetworkFeeIndex c, idx = Row_Index c,
     is_active = boolToInt (Row_IsActive c), balance = Row_Balance c\<rparr>"

definition scanClusterRow :: "clusterRec \<Rightarrow> ClusterRow" where
  "scanClusterRow r = \<lparr>Row_ClusterID = cluster_id r, Row_OwnerAddress = owner_address r,
     Row_OperatorIDs = operator_ids r, Row_ValidatorCount = validator_count r,
     Row_NetworkFeeIndex = network_fee_index r, Row_Index = idx r,
     Row_IsActive = intToBool (is_active r), Row_Balance = balance r\<rparr>"

text \<open>\<open>ON CONFLICT (cluster_id) DO UPDATE\<close> of every other column, in place.\<close>

fun upsertRec :: "clusterRec \<Rightarrow> clusterRec list \<Rightarrow> clusterRec list" where
  "upsertRec r [] = [r]"
| "upsertRec r (c # cs) = (if cluster_id c = cluster_id r then r # cs else c # upsertRec r cs)"

definition upsertCluster :: "ClusterRow \<Rightarrow> (store, unit) op" where
  "upsertCluster cluster = wrapS ''upsert cluster'' (update (\<lambda>t.
     t\<lparr>clusters := upsertRec (rowToRec cluster) (clusters t)\<rparr>))"

text \<open>\<open>DELETE FROM clusters\<close> cascades to \<open>validators\<close>.\<close>

definition deleteCluster :: "bytes \<Rightarrow> (store, unit) op" where
  "deleteCluster cid = wrapS ''delete cluster'' (update (\<lambda>t.
     t\<lparr>clusters := filter (\<lambda>c. cluster_id c \<noteq> cid) (clusters t),
       validators := filter (\<lambda>v. fst v \<noteq> cid) (validators t)\<rparr>))"

definition findRow :: "tables \<Rightarrow> bytes \<Rightarrow> ClusterRow option" where
  "findRow t cid =
     map_option scanClusterRow (find (\<lambda>c. cluster_id c = cid) (clusters t))"

text \<open>\<open>getClusterRow\<close>: \<open>None\<close> is the \<open>sql.ErrNoRows\<close> branch.\<close>

definition GetCluster :: "bytes \<Rightarrow> (store, ClusterRow option) op" where
  "GetCluster cid = wrapS ''get cluster'' (query (\<lambda>t. findRow t cid))"

definition queryClusterRowsBatch :: "bytes list \<Rightarrow> (store, ClusterRow list) op" where
  "queryClusterRowsBatch ids = wrapS ''query clusters'' (query (\<lambda>t.
     map scanClusterRow (filter (\<lambda>c. cluster_id c \<in> set ids) (clusters t))))"

definition clusterBatchSize :: nat where
  "clusterBatchSize = 1000"

text \<open>The loop of \<open>getClusterRowsByIDs\<close> over chunks of \<open>clusterBatchSize\<close> ids.\<close>

function clusterRowsFrom :: "bytes list \<Rightarrow> (store, ClusterRow list) op" where
  "clusterRowsFrom ids =
     (if ids = [] then retS []
      else bindS (queryClusterRowsBatch (take clusterBatchSize ids)) (\<lambda>batch.
           bindS (clusterRowsFrom (drop clusterBatchSize ids)) (\<lambda>rest. retS (batch @ rest))))"
  by pat_completeness auto
termination
  by (relation "measure length") (auto simp: clusterBatchSize_def)

declare clusterRowsFrom.simps [simp del]

definition getClusterRowsByIDs :: "bytes list \<Rightarrow> (store, ClusterRow list) op" where
  "getClusterRowsByIDs ids = (if ids = [] then retS [] else clusterRowsFrom ids)"

text \<open>\<open>GetFinalizedClusters\<close>: rows and sync position in one read-only transaction.\<close>

definition GetFinalizedClusters :: "bytes list \<Rightarrow> (store, ClusterRow list \<times> u64) op" where
  "GetFinalizedClusters ids =
     bindS (wrapS ''begin read tx'' (query (\<lambda>_. ()))) (\<lambda>_.
     bindS (getClusterRowsByIDs ids) (\<lambda>rows.
     bindS (wrapS ''get last synced block'' (query last_synced_block)) (\<lambda>lastSynced.
     retS (rows, lastSynced))))"

definition PublicKeyLength :: nat where
  "PublicKeyLength = 48"

text \<open>\<open>ON CONFLICT DO NOTHING\<close>; a missing cluster violates the foreign key.\<close>

definition insertValidatorTbl :: "bytes \<Rightarrow> bytes \<Rightarrow> tables \<Rightarrow> (goerror + unit) \<times> tables" where
  "insertValidatorTbl cid pubkey t =
     (if (cid, pubkey) \<in> set (validators t) then (Inr (), t)
      else if cid \<notin> cluster_id ` set (clusters t)
      then (Inl (ErrNew ''FOREIGN KEY constraint failed''), t)
      else (Inr (), t\<lparr>validators := validators t @ [(cid, pubkey)]\<rparr>))"

definition insertValidator :: "bytes \<Rightarrow> bytes \<Rightarrow> (store, unit) op" where
  "insertValidator cid pubkey =
     (if length pubkey \<noteq> PublicKeyLength
      then failS (ErrNew (''invalid validator pubkey length: got '' @ dec (length pubkey) @
             '', expected '' @ dec PublicKeyLength))
      else wrapS ''insert validator'' (stmt (insertValidatorTbl cid pubkey)))"

definition deleteValidator :: "bytes \<Rightarrow> bytes \<Rightarrow> (store, unit) op" where
  "deleteValidator cid pubkey = wrapS ''delete validator'' (update (\<lambda>t.
     t\<lparr>validators := filter (\<lambda>v. v \<noteq> (cid, pubkey)) (validators t)\<rparr>))"

definition activeIDs :: "tables \<Rightarrow> bytes set" where
  "activeIDs t = cluster_id ` set (filter (\<lambda>c. is_active c = 1) (clusters t))"

text \<open>The join of \<open>GetActiveValidators\<close>, ordered by cluster and key.\<close>

definition activeRows :: "tables \<Rightarrow> (bytes \<times> bytes) list" where
  "activeRows t = sort (filter (\<lambda>v. fst v \<in> activeIDs t) (validators t))"

definition GetActiveValidators :: "(store, ActiveValidator list) op" where
  "GetActiveValidators = wrapS ''query active validators'' (query (\<lambda>t.
     map (\<lambda>v. \<lparr>AV_ClusterID = fst v, AV_ValidatorPubkey = snd v\<rparr>) (activeRows t)))"

section \<open>Commits\<close>

text \<open>
  \<open>INSERT ... ON CONFLICT (target_epoch) DO NOTHING\<close>: a known epoch is ignored; a known
  reference block of another epoch violates its \<open>UNIQUE\<close> constraint.
\<close>

definition insertCommitTbl ::
    "u64 \<Rightarrow> bytes \<Rightarrow> u64 \<Rightarrow> ClusterBalance list \<Rightarrow> tables \<Rightarrow> (goerror + unit) \<times> tables" where
  "insertCommitTbl epoch root refBlock bals t =
     (if epoch \<in> target_epoch ` set (oracle_commits t) then (Inr (), t)
      else if refBlock \<in> reference_block ` set (oracle_commits t)
      then (Inl (ErrNew ''UNIQUE constraint failed: oracle_commits.reference_block''), t)
      else (Inr (), t\<lparr>oracle_commits := oracle_commits t @
             [\<lparr>target_epoch = epoch, merkle_root = root, reference_block = refBlock,
               cluster_balances = Some bals, status = CommitStatusPending, tx_hash = None\<rparr>]\<rparr>))"

definition InsertPendingCommit ::
    "u64 \<Rightarrow> bytes \<Rightarrow> u64 \<Rightarrow> ClusterBalance list \<Rightarrow> (store, unit) op" where
  "InsertPendingCommit targetEpoch merkleRoot referenceBlock clusterBalances =
     wrapS ''insert oracle commit''
       (stmt (insertCommitTbl targetEpoch merkleRoot referenceBlock clusterBalances))"

text \<open>\<open>UPDATE ... SET status = ?, tx_hash = COALESCE(?, tx_hash) WHERE target_epoch = ?
  AND status = 'pending'\<close>.\<close>

definition setStatus :: "u64 \<Rightarrow> CommitStatus \<Rightarrow> bytes option \<Rightarrow> commitRec \<Rightarrow> commitRec" where
  "setStatus epoch st txHash c =
     (if target_epoch c = epoch \<and> status c = CommitStatusPending
      then c\<lparr>status := st, tx_hash := (case txHash of None \<Rightarrow> tx_hash c | Some h \<Rightarrow> Some h)\<rparr>
      else c)"

definition UpdateCommitStatus :: "u64 \<Rightarrow> CommitStatus \<Rightarrow> bytes option \<Rightarrow> (store, unit) op" where
  "UpdateCommitStatus targetEpoch st txHash = wrapS ''update commit status'' (update (\<lambda>t.
     t\<lparr>oracle_commits := map (setStatus targetEpoch st txHash) (oracle_commits t)\<rparr>))"

definition scanCommit :: "commitRec \<Rightarrow> OracleCommit" where
  "scanCommit c = \<lparr>Commit_TargetEpoch = target_epoch c, Commit_MerkleRoot = merkle_root c,
     Commit_ReferenceBlock = reference_block c,
     Commit_ClusterBalances = (case cluster_balances c of None \<Rightarrow> [] | Some bs \<Rightarrow> bs),
     Commit_Status = status c, Commit_TxHash = tx_hash c\<rparr>"

definition GetCommitByBlock :: "u64 \<Rightarrow> (store, OracleCommit option) op" where
  "GetCommitByBlock blockNum = wrapS ''get commit'' (query (\<lambda>t.
     map_option scanCommit (find (\<lambda>c. reference_block c = blockNum) (oracle_commits t))))"

text \<open>\<open>ORDER BY target_epoch DESC LIMIT 1\<close>.\<close>

definition latestOf :: "commitRec list \<Rightarrow> commitRec option" where
  "latestOf cs = (if cs = [] then None else Some (last (sort_key target_epoch cs)))"

definition GetLatestCommit :: "(store, OracleCommit option) op" where
  "GetLatestCommit = wrapS ''get latest commit'' (query (\<lambda>t.
     map_option scanCommit (latestOf (filter
       (\<lambda>c. status c = CommitStatusConfirmed \<and> cluster_balances c \<noteq> None) (oracle_commits t)))))"

definition maxOpt :: "u64 list \<Rightarrow> u64 option" where
  "maxOpt xs = (if xs = [] then None else Some (foldr max xs 0))"

definition minOpt :: "u64 list \<Rightarrow> u64 option" where
  "minOpt xs = (if xs = [] then None else Some (foldr min xs (- 1)))"

definition prevEpoch :: "tables \<Rightarrow> u64 \<Rightarrow> u64 option" where
  "prevEpoch t e = maxOpt (filter (\<lambda>x. x < e) (map target_epoch (oracle_commits t)))"

definition nextEpoch :: "tables \<Rightarrow> u64 \<Rightarrow> u64 option" where
  "nextEpoch t e = minOpt (filter (\<lambda>x. e < x) (map target_epoch (oracle_commits t)))"

definition GetCommitByEpoch ::
    "u64 \<Rightarrow> (store, (OracleCommit option \<times> u64 option \<times> u64 option)) op" where
  "GetCommitByEpoch epoch = wrapS ''get commit by epoch'' (query (\<lambda>t.
     case find (\<lambda>c. target_epoch c = epoch) (oracle_commits t) of
       None \<Rightarrow> (None, None, None)
     | Some c \<Rightarrow> (Some (scanCommit c), prevEpoch t epoch, nextEpoch t epoch)))"

text \<open>\<open>GetAllClusterInfo\<close>: the result map by the hexadecimal id of the cluster.\<close>

definition GetAllClusterInfo :: "(store, string \<rightharpoonup> ClusterInfo) op" where
  "GetAllClusterInfo = wrapS ''query cluster info'' (query (\<lambda>t.
     map_of (rev (map (\<lambda>c. (hex (cluster_id c),
       \<lparr>Info_OwnerAddress = owner_address c, Info_OperatorIDs = operator_ids c\<rparr>)) (clusters t)))))"

text \<open>\<open>ClearAllState\<close>: five statements in one transaction.\<close>

definition ClearAllState :: "(store, unit) op" where
  "ClearAllState = withTx ''begin transaction'' ''commit''
     (bindS (wrapS ''clear oracle_commits'' (update (\<lambda>t. t\<lparr>oracle_commits := []\<rparr>))) (\<lambda>_.
      bindS (wrapS ''clear validators'' (update (\<lambda>t. t\<lparr>validators := []\<rparr>))) (\<lambda>_.
      bindS (wrapS ''clear clusters'' (update (\<lambda>t. t\<lparr>clusters := [], validators := []\<rparr>))) (\<lambda>_.
      bindS (wrapS ''clear contract_events'' (update (\<lambda>t. t\<lparr>contract_events := []\<rparr>))) (\<lambda>_.
      wrapS ''reset sync progress''
        (update (\<lambda>t. t\<lparr>chain_id := None, last_synced_block := 0\<rparr>)))))))"

section \<open>Reasoning about statements\<close>

abbreviation tblInv :: "(tables \<Rightarrow> bool) \<Rightarrow> (store, 'a) op \<Rightarrow> bool" where
  "tblInv P m \<equiv> invS (\<lambda>s. P (tbl s)) m"

lemma stmt_inv [inv_rules]: "(\<And>t. P t \<Longrightarrow> P (snd (body t))) \<Longrightarrow> tblInv P (stmt body)"
  by (auto simp: invS_def stmt_def split: list.splits option.splits prod.splits)
     (metis snd_conv)+

lemma query_inv [inv_rules]: "tblInv P (query f)"
  unfolding query_def by (rule stmt_inv) simp

lemma update_inv [inv_rules]: "(\<And>t. P t \<Longrightarrow> P (f t)) \<Longrightarrow> tblInv P (update f)"
  unfolding update_def by (rule stmt_inv) simp

lemma query_tbl [simp]: "tbl (snd (query f s)) = tbl s"
  by (auto simp: query_def stmt_def split: list.splits option.splits)

lemma query_Inr: "query f s = (Inr x, s') \<Longrightarrow> x = f (tbl s) \<and> tbl s' = tbl s"
  by (auto simp: query_def stmt_def split: list.splits option.splits)

lemma query_Inl: "query f s = (Inl e, s') \<Longrightarrow> tbl s' = tbl s"
  by (metis query_tbl snd_conv)

lemma update_Inr: "update f s = (Inr x, s') \<Longrightarrow> tbl s' = f (tbl s)"
  by (auto simp: update_def stmt_def split: list.splits option.splits)

lemma update_Inl: "update f s = (Inl e, s') \<Longrightarrow> tbl s' = tbl s"
  by (auto simp: update_def stmt_def split: list.splits option.splits)

lemma stmt_Inr: "stmt b s = (Inr x, s') \<Longrightarrow> b (tbl s) = (Inr x, tbl s')"
  by (auto simp: stmt_def split: list.splits option.splits prod.splits)

lemma wrapS_snd [simp]: "snd (wrapS p m s) = snd (m s)"
  by (auto simp: wrapS_def split: prod.splits sum.splits)

lemma no_faults_query [simp]: "faults s = [] \<Longrightarrow> query f s = (Inr (f (tbl s)), s)"
  by (simp add: query_def stmt_def)

lemma no_faults_update [simp]: "faults s = [] \<Longrightarrow> update f s = (Inr (), s\<lparr>tbl := f (tbl s)\<rparr>)"
  by (simp add: update_def stmt_def)

text \<open>A transaction keeps what its body keeps, and a failed one leaves the tables as they
  were.\<close>

lemma withTx_inv [inv_rules]: "tblInv P body \<Longrightarrow> tblInv P (withTx a b body)"
proof (rule invS_I)
  fix s :: store
  assume body: "tblInv P body" and P: "P (tbl s)"
  obtain r1 s1 where 1: "wrapS a (query (\<lambda>_. ())) s = (r1, s1)" by fastforce
  then have t1: "tbl s1 = tbl s" by (metis query_tbl snd_conv wrapS_snd)
  obtain r2 s2 where 2: "body s1 = (r2, s2)" by fastforce
  obtain r3 s3 where 3: "wrapS b (query (\<lambda>_. ())) s2 = (r3, s3)" by fastforce
  then have t3: "tbl s3 = tbl s2" by (metis query_tbl snd_conv wrapS_snd)
  have "P (tbl s2)" using invS_D [OF body, of s1] P 2 t1 by simp
  with P t1 t3 show "P (tbl (snd (withTx a b body s)))"
    by (auto simp: withTx_def 1 2 3 split: sum.splits)
qed

lemma withTx_atomic: "withTx a b body s = (Inl e, s') \<Longrightarrow> tbl s' = tbl s"
proof -
  assume w: "withTx a b body s = (Inl e, s')"
  obtain r1 s1 where 1: "wrapS a (query (\<lambda>_. ())) s = (r1, s1)" by fastforce
  then have "tbl s1 = tbl s" by (metis query_tbl snd_conv wrapS_snd)
  with w 1 show ?thesis by (auto simp: withTx_def split: sum.splits prod.splits)
qed

lemma withTx_Inr:
  assumes "withTx a b body s = (Inr x, s')"
  shows "\<exists>s1 s2. tbl s1 = tbl s \<and> body s1 = (Inr x, s2) \<and> tbl s' = tbl s2"
proof -
  obtain r1 s1 where 1: "wrapS a (query (\<lambda>_. ())) s = (r1, s1)" by fastforce
  then have t1: "tbl s1 = tbl s" by (metis query_tbl snd_conv wrapS_snd)
  obtain s2 where 2: "body s1 = (Inr x, s2)"
    and 3: "wrapS b (query (\<lambda>_. ())) s2 = (Inr (), s')"
    using assms 1 by (auto simp: withTx_def split: sum.splits prod.splits)
  from 3 have "tbl s' = tbl s2" by (metis query_tbl snd_conv wrapS_snd)
  with t1 2 show ?thesis by blast
qed

section \<open>The invariant of the schema\<close>

text \<open>Primary keys and unique columns are distinct, every validator has its cluster and a
  48-byte key, and \<open>is_active\<close> is 0 or 1.\<close>

definition db_wf :: "tables \<Rightarrow> bool" where
  "db_wf t \<longleftrightarrow>
     distinct (map eventKey (contract_events t)) \<and>
     distinct (map cluster_id (clusters t)) \<and>
     distinct (validators t) \<and>
     (\<forall>v \<in> set (validators t). fst v \<in> cluster_id ` set (clusters t) \<and> length (snd v) = 48) \<and>
     (\<forall>c \<in> set (clusters t). is_active c \<in> {0, 1}) \<and>
     distinct (map target_epoch (oracle_commits t)) \<and>
     distinct (map reference_block (oracle_commits t))"

lemma cluster_id_upsertRec:
  "cluster_id ` set (upsertRec r cs) = insert (cluster_id r) (cluster_id ` set cs)"
  by (induction r cs rule: upsertRec.induct) auto

lemma distinct_upsertRec:
  "distinct (map cluster_id cs) \<Longrightarrow> distinct (map cluster_id (upsertRec r cs))"
proof (induction r cs rule: upsertRec.induct)
  case (2 r c cs)
  then show ?case by (auto simp: cluster_id_upsertRec simp flip: set_map)
     (metis cluster_id_upsertRec image_eqI insertE set_map)+
qed simp

lemma set_upsertRec: "set (upsertRec r cs) \<subseteq> insert r (set cs)"
  by (induction r cs rule: upsertRec.induct) auto

lemma find_upsertRec:
  "find (\<lambda>c. cluster_id c = k) (upsertRec r cs) =
   (if k = cluster_id r then Some r else find (\<lambda>c. cluster_id c = k) cs)"
  by (induction r cs rule: upsertRec.induct) auto

lemma setStatus_keys [simp]:
  "target_epoch (setStatus e st h c) = target_epoch c"
  "reference_block (setStatus e st h c) = reference_block c"
  "merkle_root (setStatus e st h c) = merkle_root c"
  "cluster_balances (setStatus e st h c) = cluster_balances c"
  by (simp_all add: setStatus_def)

lemmas dbop_defs = GetChainID_def SetChainID_def GetLastSyncedBlock_def UpdateLastSyncedBlock_def
  insertEvent_def upsertCluster_def deleteCluster_def GetCluster_def queryClusterRowsBatch_def
  insertValidator_def deleteValidator_def GetActiveValidators_def InsertPendingCommit_def
  UpdateCommitStatus_def GetCommitByBlock_def GetLatestCommit_def GetCommitByEpoch_def
  GetAllClusterInfo_def ClearAllState_def GetFinalizedClusters_def

lemma emptyTables_wf: "db_wf emptyTables"
  by (simp add: db_wf_def emptyTables_def)

lemma SetChainID_wf [inv_rules]: "tblInv db_wf (SetChainID c)"
  unfolding SetChainID_def by (intro inv_rules) (simp add: db_wf_def)

lemma UpdateLastSyncedBlock_wf [inv_rules]: "tblInv db_wf (UpdateLastSyncedBlock b)"
  unfolding UpdateLastSyncedBlock_def by (intro inv_rules) (simp add: db_wf_def)

lemma insertEvent_wf [inv_rules]: "tblInv db_wf (insertEvent e)"
  unfolding insertEvent_def by (intro inv_rules) (auto simp: db_wf_def)

lemma upsertCluster_wf [inv_rules]: "tblInv db_wf (upsertCluster c)"
proof -
  have "db_wf (t\<lparr>clusters := upsertRec (rowToRec c) (clusters t)\<rparr>)" if "db_wf t" for t
    using that set_upsertRec [of "rowToRec c" "clusters t"]
    by (auto simp: db_wf_def distinct_upsertRec cluster_id_upsertRec rowToRec_def boolToInt_def)
  then show ?thesis unfolding upsertCluster_def by (intro inv_rules)
qed

lemma deleteCluster_wf [inv_rules]: "tblInv db_wf (deleteCluster cid)"
  unfolding deleteCluster_def
  by (intro inv_rules) (auto simp: db_wf_def distinct_map_filter)

lemma insertValidatorTbl_wf:
  "length pk = 48 \<Longrightarrow> db_wf t \<Longrightarrow> db_wf (snd (insertValidatorTbl cid pk t))"
  by (simp add: insertValidatorTbl_def) (auto simp: db_wf_def)

lemma insertValidator_wf [inv_rules]: "tblInv db_wf (insertValidator cid pk)"
  unfolding insertValidator_def
  by (auto intro!: inv_rules insertValidatorTbl_wf simp: PublicKeyLength_def)

lemma deleteValidator_wf [inv_rules]: "tblInv db_wf (deleteValidator cid pk)"
  unfolding deleteValidator_def by (intro inv_rules) (auto simp: db_wf_def)

lemma InsertPendingCommit_wf [inv_rules]: "tblInv db_wf (InsertPendingCommit e r b bals)"
  unfolding InsertPendingCommit_def
  by (intro inv_rules) (auto simp: db_wf_def insertCommitTbl_def)

lemma UpdateCommitStatus_wf [inv_rules]: "tblInv db_wf (UpdateCommitStatus e st h)"
  unfolding UpdateCommitStatus_def
  by (intro inv_rules) (simp add: db_wf_def comp_def)

lemma ClearAllState_wf [inv_rules]: "tblInv db_wf ClearAllState"
  unfolding ClearAllState_def by (intro inv_rules) (auto simp: db_wf_def)

section \<open>Any sequence of operations\<close>

text \<open>
  The write operations of the storage as data (the methods of \<open>Storage\<close> and of the
  interface \<open>Tx\<close>), so that a property can speak of every sequence of calls. A
  transaction runs its calls until one fails.
\<close>

datatype storeOp =
    OpSetChainID u64
  | OpUpdateLastSynced u64
  | OpInsertEvent ContractEvent
  | OpUpsertCluster ClusterRow
  | OpDeleteCluster bytes
  | OpInsertValidator bytes bytes
  | OpDeleteValidator bytes bytes
  | OpInsertPendingCommit u64 bytes u64 "ClusterBalance list"
  | OpUpdateCommitStatus u64 CommitStatus "bytes option"
  | OpClearAllState

definition runOp :: "storeOp \<Rightarrow> (store, unit) op" where
  "runOp c =
     (case c of
        OpSetChainID i \<Rightarrow> SetChainID i
      | OpUpdateLastSynced b \<Rightarrow> UpdateLastSyncedBlock b
      | OpInsertEvent e \<Rightarrow> insertEvent e
      | OpUpsertCluster r \<Rightarrow> upsertCluster r
      | OpDeleteCluster cid \<Rightarrow> deleteCluster cid
      | OpInsertValidator cid pk \<Rightarrow> insertValidator cid pk
      | OpDeleteValidator cid pk \<Rightarrow> deleteValidator cid pk
      | OpInsertPendingCommit e root b bals \<Rightarrow> InsertPendingCommit e root b bals
      | OpUpdateCommitStatus e st h \<Rightarrow> UpdateCommitStatus e st h
      | OpClearAllState \<Rightarrow> ClearAllState)"

fun runSeq :: "storeOp list \<Rightarrow> (store, unit) op" where
  "runSeq [] = retS ()"
| "runSeq (c # cs) = bindS (runOp c) (\<lambda>_. runSeq cs)"

datatype storeCall = Call storeOp | InTx "storeOp list"

fun runCall :: "storeCall \<Rightarrow> (store, unit) op" where
  "runCall (Call c) = runOp c"
| "runCall (InTx cs) = withTx ''begin transaction'' ''commit'' (runSeq cs)"

fun runCalls :: "storeCall list \<Rightarrow> store \<Rightarrow> store" where
  "runCalls [] s = s"
| "runCalls (c # cs) s = runCalls cs (snd (runCall c s))"

lemma runSeq_inv: "(\<And>c. c \<in> set cs \<Longrightarrow> tblInv P (runOp c)) \<Longrightarrow> tblInv P (runSeq cs)"
  by (induction cs) (auto intro: inv_rules)

fun opsOf :: "storeCall \<Rightarrow> storeOp set" where
  "opsOf (Call c) = {c}"
| "opsOf (InTx cs) = set cs"

lemma runCall_inv: "(\<And>c. c \<in> opsOf k \<Longrightarrow> tblInv P (runOp c)) \<Longrightarrow> tblInv P (runCall k)"
  by (cases k) (auto intro!: withTx_inv runSeq_inv)

lemma runCalls_inv:
  "(\<And>k c. k \<in> set ks \<Longrightarrow> c \<in> opsOf k \<Longrightarrow> tblInv P (runOp c)) \<Longrightarrow> P (tbl s) \<Longrightarrow>
   P (tbl (runCalls ks s))"
proof (induction ks arbitrary: s)
  case (Cons k ks)
  have "P (tbl (snd (runCall k s)))"
  proof (rule invS_D)
    show "tblInv P (runCall k)" by (rule runCall_inv) (rule Cons.prems(1), simp_all)
  qed (rule Cons.prems(2))
  moreover have "tblInv P (runOp c)" if "j \<in> set ks" "c \<in> opsOf j" for j c
    using Cons.prems(1) [of j c] that by simp
  ultimately show ?case using Cons.IH [of "snd (runCall k s)"] by simp
qed simp

lemma runOp_wf: "tblInv db_wf (runOp c)"
  by (cases c) (simp_all add: runOp_def inv_rules)

section \<open>The life of a commit\<close>

text \<open>
  \<open>commitsKept t t'\<close>: every row of \<open>oracle_commits\<close> is still there with its epoch,
  root, block and balances, and a row that was confirmed or failed is unchanged.
\<close>

definition keptAs :: "commitRec \<Rightarrow> commitRec \<Rightarrow> bool" where
  "keptAs c c' \<longleftrightarrow> target_epoch c' = target_epoch c \<and> merkle_root c' = merkle_root c \<and>
     reference_block c' = reference_block c \<and> cluster_balances c' = cluster_balances c \<and>
     (status c \<noteq> CommitStatusPending \<longrightarrow> c' = c)"

definition commitsKept :: "tables \<Rightarrow> tables \<Rightarrow> bool" where
  "commitsKept t t' \<longleftrightarrow> (\<forall>c \<in> set (oracle_commits t). \<exists>c' \<in> set (oracle_commits t'). keptAs c c')"

lemma keptAs_refl: "keptAs c c"
  by (simp add: keptAs_def)

lemma commitsKept_refl: "commitsKept t t"
  unfolding commitsKept_def using keptAs_refl by blast

lemma commitsKept_same:
  "commitsKept t0 t \<Longrightarrow> set (oracle_commits t) \<subseteq> set (oracle_commits t') \<Longrightarrow> commitsKept t0 t'"
  by (auto simp: commitsKept_def)

lemma keptAs_setStatus: "keptAs c c' \<Longrightarrow> keptAs c (setStatus e st h c')"
  by (auto simp: keptAs_def setStatus_def)

lemma commitsKept_setStatus:
  "commitsKept t0 t \<Longrightarrow>
   commitsKept t0 (t\<lparr>oracle_commits := map (setStatus e st h) (oracle_commits t)\<rparr>)"
  by (fastforce simp: commitsKept_def intro: keptAs_setStatus)

lemma insertValidatorTbl_commits [simp]:
  "oracle_commits (snd (insertValidatorTbl cid pk t)) = oracle_commits t"
  by (simp add: insertValidatorTbl_def)

lemma runOp_commitsKept: "c \<noteq> OpClearAllState \<Longrightarrow> tblInv (commitsKept t0) (runOp c)"
  by (cases c)
     (auto simp: runOp_def dbop_defs insertCommitTbl_def
       intro!: inv_rules commitsKept_setStatus intro: commitsKept_same)

section \<open>Reading back what was written\<close>

lemma findRow_upsert:
  "findRow (t\<lparr>clusters := upsertRec (rowToRec c) (clusters t)\<rparr>) k =
   (if k = Row_ClusterID c then Some c else findRow t k)"
  by (simp add: findRow_def find_upsertRec)
     (simp add: rowToRec_def scanClusterRow_def boolToInt_def intToBool_def)

text \<open>The rows of a query with \<open>IN\<close> are those that the single-row query finds.\<close>

lemma findRow_Some_iff:
  assumes "distinct (map cluster_id (clusters t))"
  shows "findRow t k = Some r \<longleftrightarrow> (\<exists>c \<in> set (clusters t). cluster_id c = k \<and> scanClusterRow c = r)"
  using find_key_Some [OF assms, of k] by (auto simp: findRow_def)

lemma clusterRowsFrom_Inr:
  "clusterRowsFrom ids s = (Inr rows, s') \<Longrightarrow>
   tbl s' = tbl s \<and>
   set rows = scanClusterRow ` {c \<in> set (clusters (tbl s)). cluster_id c \<in> set ids}"
proof (induction ids arbitrary: s rows s' rule: clusterRowsFrom.induct)
  case (1 ids)
  show ?case
  proof (cases "ids = []")
    case True
    with "1.prems" show ?thesis by (auto simp: clusterRowsFrom.simps retS_def)
  next
    case False
    with "1.prems" obtain batch s1 rest s2 where
      a: "queryClusterRowsBatch (take clusterBatchSize ids) s = (Inr batch, s1)"
      and b: "clusterRowsFrom (drop clusterBatchSize ids) s1 = (Inr rest, s2)"
      and c: "rows = batch @ rest" "s' = s2"
      by (subst (asm) clusterRowsFrom.simps) (auto simp: retS_def elim!: bindS_eq_InrE)
    have s1: "tbl s1 = tbl s" "set batch =
        scanClusterRow ` {c \<in> set (clusters (tbl s)). cluster_id c \<in> set (take clusterBatchSize ids)}"
      using a by (auto simp: queryClusterRowsBatch_def dest!: query_Inr)
    have "set ids = set (take clusterBatchSize ids) \<union> set (drop clusterBatchSize ids)"
      by (metis append_take_drop_id set_append)
    with "1.IH" [OF False, of s1 rest s2] b c s1 show ?thesis by auto
  qed
qed

lemma GetFinalizedClusters_Inr:
  assumes "GetFinalizedClusters ids s = (Inr (rows, lastS), s')"
  shows "tbl s' = tbl s \<and> lastS = last_synced_block (tbl s) \<and>
    set rows = scanClusterRow ` {c \<in> set (clusters (tbl s)). cluster_id c \<in> set ids}"
  using assms
  by (auto simp: GetFinalizedClusters_def getClusterRowsByIDs_def retS_def
      elim!: bindS_eq_InrE dest!: query_Inr clusterRowsFrom_Inr split: if_splits)

lemma GetActiveValidators_Inr:
  assumes "GetActiveValidators s = (Inr vs, s')"
  shows "tbl s' = tbl s \<and>
    vs = map (\<lambda>v. \<lparr>AV_ClusterID = fst v, AV_ValidatorPubkey = snd v\<rparr>) (activeRows (tbl s))"
  using assms by (auto simp: GetActiveValidators_def dest!: query_Inr)

lemma activeRows_props:
  assumes "db_wf t"
  shows "distinct (activeRows t)" "sorted (activeRows t)"
    "set (activeRows t) = {v \<in> set (validators t).
       \<exists>c \<in> set (clusters t). cluster_id c = fst v \<and> is_active c = 1}"
  using assms by (auto simp: activeRows_def activeIDs_def db_wf_def)

lemma latestOf_Some:
  assumes "latestOf cs = Some c"
  shows "c \<in> set cs" "\<forall>d \<in> set cs. target_epoch d \<le> target_epoch c"
proof -
  have ne: "sort_key target_epoch cs \<noteq> []" and c: "c = last (sort_key target_epoch cs)"
    using assms by (auto simp: latestOf_def split: if_splits) (metis length_0_conv length_sort)
  show "c \<in> set cs" using ne c by (metis last_in_set set_sort)
  have "d \<in> set (butlast (sort_key target_epoch cs)) \<or> d = c" if "d \<in> set cs" for d
    using that ne c by (metis append_butlast_last_id in_set_conv_decomp rotate1.simps(2) set_ConsD
      set_rotate1 set_sort)
  moreover have "sorted (map target_epoch (butlast (sort_key target_epoch cs) @ [c]))"
    using ne c by (metis append_butlast_last_id sorted_sort_key)
  ultimately show "\<forall>d \<in> set cs. target_epoch d \<le> target_epoch c"
    by (auto simp: sorted_append)
qed

lemma maxOpt_Some: "maxOpt xs = Some m \<longleftrightarrow> m \<in> set xs \<and> (\<forall>x \<in> set xs. x \<le> m)"
proof -
  have ge: "\<forall>x \<in> set xs. x \<le> foldr max xs 0" by (induction xs) (auto simp: max.coboundedI2)
  have "xs \<noteq> [] \<longrightarrow> foldr max xs 0 \<in> set xs"
  proof (induction xs)
    case (Cons a xs) then show ?case by (cases xs) (auto simp: max_def)
  qed simp
  with ge show ?thesis by (auto simp: maxOpt_def intro: antisym)
qed

lemma minOpt_Some: "minOpt xs = Some m \<longleftrightarrow> m \<in> set xs \<and> (\<forall>x \<in> set xs. m \<le> x)"
proof -
  have le: "\<forall>x \<in> set xs. foldr min xs (- 1) \<le> x" by (induction xs) (auto simp: min.coboundedI2)
  have "xs \<noteq> [] \<longrightarrow> foldr min xs (- 1) \<in> set xs"
  proof (induction xs)
    case (Cons a xs) then show ?case by (cases xs) (auto simp: min_def word_order.extremum)
  qed simp
  with le show ?thesis by (auto simp: minOpt_def intro: antisym)
qed

section \<open>The interfaces of the storage\<close>

text \<open>
  The part of the Go interface \<open>oracleStorage\<close> that records commits: what the row of an
  epoch is after each call, on success and on failure.
\<close>

definition commitOf :: "store \<Rightarrow> u64 \<Rightarrow> commitRec option" where
  "commitOf s e = find (\<lambda>c. target_epoch c = e) (oracle_commits (tbl s))"

definition pendingRow :: "u64 \<Rightarrow> bytes \<Rightarrow> u64 \<Rightarrow> ClusterBalance list \<Rightarrow> commitRec" where
  "pendingRow e root b bals = \<lparr>target_epoch = e, merkle_root = root, reference_block = b,
     cluster_balances = Some bals, status = CommitStatusPending, tx_hash = None\<rparr>"

locale commit_log =
  fixes insertPending :: "u64 \<Rightarrow> bytes \<Rightarrow> u64 \<Rightarrow> ClusterBalance list \<Rightarrow> ('s, unit) op"
    and updateStatus :: "u64 \<Rightarrow> CommitStatus \<Rightarrow> bytes option \<Rightarrow> ('s, unit) op"
    and rowOf :: "'s \<Rightarrow> u64 \<Rightarrow> commitRec option"
  assumes insert_ok: "insertPending e root b bals s = (Inr (), s') \<Longrightarrow>
      rowOf s' e = (case rowOf s e of None \<Rightarrow> Some (pendingRow e root b bals) | Some c \<Rightarrow> Some c)"
    and insert_frame: "e' \<noteq> e \<Longrightarrow> rowOf (snd (insertPending e root b bals s)) e' = rowOf s e'"
    and insert_err: "insertPending e root b bals s = (Inl err, s') \<Longrightarrow> rowOf s' = rowOf s"
    and status_ok: "updateStatus e st h s = (Inr (), s') \<Longrightarrow>
      rowOf s' e = map_option (setStatus e st h) (rowOf s e)"
    and status_frame: "e' \<noteq> e \<Longrightarrow> rowOf (snd (updateStatus e st h s)) e' = rowOf s e'"
    and status_err: "updateStatus e st h s = (Inl err, s') \<Longrightarrow> rowOf s' = rowOf s"
begin

text \<open>A fresh commit that is recorded and then resolved holds its root and the outcome; a
  row that was resolved before keeps its outcome whatever is recorded for it later.\<close>

lemma record_fresh:
  assumes "rowOf s e = None" "insertPending e root b bals s = (Inr (), s1)"
    "updateStatus e st h s1 = (Inr (), s2)"
  shows "rowOf s2 e = Some ((pendingRow e root b bals)\<lparr>status := st, tx_hash := h\<rparr>)"
  using insert_ok [OF assms(2)] status_ok [OF assms(3)] assms(1)
  by (simp add: setStatus_def pendingRow_def split: option.splits)

lemma resolved_stays:
  assumes "rowOf s e = Some c" "status c \<noteq> CommitStatusPending"
  shows "rowOf (snd (insertPending e root b bals s)) e = Some c"
    "rowOf (snd (updateStatus e st h s)) e = Some c"
proof -
  obtain r1 s1 where 1: "insertPending e root b bals s = (r1, s1)" by fastforce
  obtain r2 s2 where 2: "updateStatus e st h s = (r2, s2)" by fastforce
  show "rowOf (snd (insertPending e root b bals s)) e = Some c"
    using 1 insert_ok [of e root b bals s s1] insert_err [of e root b bals s _ s1] assms by (cases r1) auto
  show "rowOf (snd (updateStatus e st h s)) e = Some c"
    using 2 status_ok [of e st h s s2] status_err [of e st h s _ s2] assms
    by (cases r2) (auto simp: setStatus_def)
qed

end

lemma find_setStatus:
  "find (\<lambda>c. target_epoch c = e') (map (setStatus e st h) cs) =
   map_option (setStatus e st h) (find (\<lambda>c. target_epoch c = e') cs)"
  by (induction cs) auto

lemma find_append: "find P (xs @ ys) = (case find P xs of None \<Rightarrow> find P ys | Some x \<Rightarrow> Some x)"
  by (induction xs) auto

lemma setStatus_other: "find (\<lambda>c. target_epoch c = e') cs = r \<Longrightarrow> e' \<noteq> e \<Longrightarrow>
  map_option (setStatus e st h) r = r"
  by (auto simp: find_Some_iff setStatus_def split: option.splits intro!: option.map_ident_strong)

lemma insertCommitTbl_row:
  "find (\<lambda>c. target_epoch c = e') (oracle_commits (snd (insertCommitTbl e root b bals t))) =
   (case find (\<lambda>c. target_epoch c = e') (oracle_commits t) of
      Some c \<Rightarrow> Some c
    | None \<Rightarrow> if e' = e \<and> fst (insertCommitTbl e root b bals t) = Inr ()
              then Some (pendingRow e root b bals) else None)"
proof (cases "find (\<lambda>c. target_epoch c = e') (oracle_commits t)")
  case None
  then have "e' \<notin> target_epoch ` set (oracle_commits t)" by (simp add: find_key_None)
  with None show ?thesis
    by (cases "e' = e") (simp_all add: insertCommitTbl_def find_append pendingRow_def)
next
  case (Some c)
  then show ?thesis by (simp add: insertCommitTbl_def find_append)
qed

lemma stmt_cases:
  "(\<exists>e. fst (stmt b s) = Inl e \<and> tbl (snd (stmt b s)) = tbl s) \<or>
   (fst (stmt b s) = fst (b (tbl s)) \<and> tbl (snd (stmt b s)) = snd (b (tbl s)))"
  by (auto simp: stmt_def split: list.splits option.splits prod.splits)

lemma wrapS_fst: "fst (wrapS p m s) = (case fst (m s) of Inl e \<Rightarrow> Inl (Wrap p e) | Inr x \<Rightarrow> Inr x)"
  by (auto simp: wrapS_def split: prod.splits sum.splits)

lemma InsertPendingCommit_row:
  "commitOf (snd (InsertPendingCommit e root b bals s)) e' =
   (case commitOf s e' of
      Some c \<Rightarrow> Some c
    | None \<Rightarrow> if e' = e \<and> fst (InsertPendingCommit e root b bals s) = Inr ()
              then Some (pendingRow e root b bals) else None)"
  using stmt_cases [of "insertCommitTbl e root b bals" s]
  by (auto simp: InsertPendingCommit_def commitOf_def wrapS_fst insertCommitTbl_row
      split: option.splits sum.splits)

lemma UpdateCommitStatus_row:
  "commitOf (snd (UpdateCommitStatus e st h s)) e' =
   (if e' = e \<and> fst (UpdateCommitStatus e st h s) = Inr ()
    then map_option (setStatus e st h) (commitOf s e') else commitOf s e')"
  using stmt_cases [of "\<lambda>t. (Inr (), t\<lparr>oracle_commits := map (setStatus e st h) (oracle_commits t)\<rparr>)" s]
    setStatus_other [of e' "oracle_commits (tbl s)" _ e st h]
  by (auto simp: UpdateCommitStatus_def update_def commitOf_def wrapS_fst find_setStatus)

interpretation log: commit_log InsertPendingCommit UpdateCommitStatus commitOf
proof (unfold_locales, goal_cases)
  case (1 e root b bals s s')
  with InsertPendingCommit_row [of e root b bals s e] show ?case by (auto split: option.splits)
next
  case (2 e' e root b bals s)
  with InsertPendingCommit_row [of e root b bals s e'] show ?case by (auto split: option.splits)
next
  case (3 e root b bals s err s')
  with InsertPendingCommit_row [of e root b bals s] show ?case by (intro ext) (auto split: option.splits)
next
  case (4 e st h s s')
  with UpdateCommitStatus_row [of e st h s e] show ?case by auto
next
  case (5 e' e st h s)
  with UpdateCommitStatus_row [of e st h s e'] show ?case by auto
next
  case (6 e st h s err s')
  with UpdateCommitStatus_row [of e st h s] show ?case by (intro ext) auto
qed

text \<open>
  The cluster table as the syncer writes it and the updater reads it: a map from cluster
  ids to rows that a successful upsert changes at one point.
\<close>

locale cluster_table =
  fixes upsert :: "ClusterRow \<Rightarrow> ('s, unit) op"
    and get :: "bytes \<Rightarrow> ('s, ClusterRow option) op"
    and rowAt :: "'s \<Rightarrow> bytes \<Rightarrow> ClusterRow option"
  assumes upsert_ok: "upsert c s = (Inr (), s') \<Longrightarrow> rowAt s' = (rowAt s)(Row_ClusterID c := Some c)"
    and upsert_err: "upsert c s = (Inl e, s') \<Longrightarrow> rowAt s' = rowAt s"
    and get_ok: "get cid s = (Inr r, s') \<Longrightarrow> r = rowAt s cid"
    and get_frame: "rowAt (snd (get cid s)) = rowAt s"
begin

lemma get_after_upsert:
  "upsert c s = (Inr (), s1) \<Longrightarrow> get (Row_ClusterID c) s1 = (Inr r, s2) \<Longrightarrow> r = Some c"
  using upsert_ok get_ok by fastforce

lemma get_other_after_upsert:
  "upsert c s = (Inr (), s1) \<Longrightarrow> k \<noteq> Row_ClusterID c \<Longrightarrow> get k s1 = (Inr r, s2) \<Longrightarrow> r = rowAt s k"
  using upsert_ok get_ok by fastforce

end

interpretation ct: cluster_table upsertCluster GetCluster "\<lambda>s. findRow (tbl s)"
  by unfold_locales
     (auto simp: upsertCluster_def GetCluster_def findRow_upsert wrapS_def
       dest!: update_Inr update_Inl query_Inr query_Inl split: prod.splits sum.splits)

section \<open>Properties\<close>

definition sampleRow :: "bytes \<Rightarrow> bool \<Rightarrow> ClusterRow" where
  "sampleRow cid act = \<lparr>Row_ClusterID = cid, Row_OwnerAddress = replicate 20 7, Row_OperatorIDs = [1, 2, 3, 4],
     Row_ValidatorCount = 1, Row_NetworkFeeIndex = 5, Row_Index = 6, Row_IsActive = act, Row_Balance = 1000\<rparr>"

text \<open>C15: from the empty database, any sequence of storage calls and transactions, with any
  failures of the driver, keeps the schema's constraints: distinct primary keys, unique
  reference blocks, no validator without its cluster, 48-byte keys, a 0/1 activity
  flag.\<close>

theorem storage_invariant: "db_wf (tbl (runCalls calls \<lparr>tbl = emptyTables, faults = fs\<rparr>))"
  by (rule runCalls_inv) (simp_all add: runOp_wf emptyTables_wf)

text \<open>A commit is never rewritten. Whatever calls follow (short of \<open>ClearAllState\<close>),
  the row of a target epoch keeps its root, reference block and balances, and once it is
  confirmed or failed it does not change at all: its status and transaction hash are
  final.\<close>

theorem commit_rows_final:
  assumes "c \<in> set (oracle_commits (tbl s))"
    "\<forall>k \<in> set calls. OpClearAllState \<notin> opsOf k"
  shows "\<exists>c' \<in> set (oracle_commits (tbl (runCalls calls s))).
     target_epoch c' = target_epoch c \<and> merkle_root c' = merkle_root c \<and>
     reference_block c' = reference_block c \<and> cluster_balances c' = cluster_balances c \<and>
     (status c \<noteq> CommitStatusPending \<longrightarrow> c' = c)"
proof -
  have "commitsKept (tbl s) (tbl (runCalls calls s))"
    by (rule runCalls_inv) (use assms(2) commitsKept_refl in \<open>auto intro!: runOp_commitsKept\<close>)
  with assms(1) show ?thesis by (auto simp: commitsKept_def keptAs_def)
qed

definition sampleCommitted :: store where
  "sampleCommitted = runCalls
     [Call (OpInsertPendingCommit 10 [1] 500 []), Call (OpUpdateCommitStatus 10 CommitStatusConfirmed (Some [9]))]
     \<lparr>tbl = emptyTables, faults = []\<rparr>"

theorem commit_rows_final_witness:
  "\<exists>c' \<in> set (oracle_commits (tbl (runCalls
       [Call (OpInsertPendingCommit 10 [2] 501 []), InTx [OpUpdateCommitStatus 10 CommitStatusFailed None]]
       sampleCommitted))). merkle_root c' = [1] \<and> status c' = CommitStatusConfirmed"
proof -
  let ?c = "\<lparr>target_epoch = 10, merkle_root = [1], reference_block = 500, cluster_balances = Some [],
     status = CommitStatusConfirmed, tx_hash = Some [9]\<rparr>"
  let ?calls = "[Call (OpInsertPendingCommit 10 [2] 501 []), InTx [OpUpdateCommitStatus 10 CommitStatusFailed None]]"
  have c: "?c \<in> set (oracle_commits (tbl sampleCommitted))"
    by (simp add: sampleCommitted_def runOp_def InsertPendingCommit_def UpdateCommitStatus_def
        stmt_def insertCommitTbl_def setStatus_def emptyTables_def)
  have n: "\<forall>k \<in> set ?calls. OpClearAllState \<notin> opsOf k" by simp
  from commit_rows_final [OF c n] show ?thesis
    by (elim bexE conjE) (rule bexI, simp_all del: runCalls.simps)
qed

text \<open>What is recorded for a fresh target is read back: after a pending commit is
  inserted and resolved, the latest confirmed commit, or the commit found by its block, is
  that commit with its root, balances and transaction hash.\<close>

theorem commit_read_back:
  assumes "db_wf (tbl s)" "commitOf s e = None"
    "InsertPendingCommit e root b bals s = (Inr (), s1)"
    "UpdateCommitStatus e CommitStatusConfirmed h s1 = (Inr (), s2)"
    "GetCommitByBlock b s2 = (Inr r, s3)"
  shows "r = Some \<lparr>Commit_TargetEpoch = e, Commit_MerkleRoot = root, Commit_ReferenceBlock = b,
     Commit_ClusterBalances = bals, Commit_Status = CommitStatusConfirmed, Commit_TxHash = h\<rparr>"
proof -
  have row: "commitOf s2 e = Some ((pendingRow e root b bals)\<lparr>status := CommitStatusConfirmed, tx_hash := h\<rparr>)"
    by (rule log.record_fresh [OF assms(2-4)])
  have "tblInv db_wf (InsertPendingCommit e root b bals)"
    "tblInv db_wf (UpdateCommitStatus e CommitStatusConfirmed h)" by (intro inv_rules)+
  then have "db_wf (tbl s2)" using assms(1,3,4) invS_D by (metis snd_conv)
  moreover have "(pendingRow e root b bals)\<lparr>status := CommitStatusConfirmed, tx_hash := h\<rparr>
      \<in> set (oracle_commits (tbl s2))"
    using row by (auto simp: commitOf_def find_Some_iff)
  ultimately have "find (\<lambda>c. reference_block c = b) (oracle_commits (tbl s2)) =
      Some ((pendingRow e root b bals)\<lparr>status := CommitStatusConfirmed, tx_hash := h\<rparr>)"
    by (subst find_key_Some) (simp_all add: db_wf_def pendingRow_def)
  with assms(5) show ?thesis
    by (auto simp: GetCommitByBlock_def scanCommit_def pendingRow_def dest!: query_Inr)
qed

theorem commit_read_back_witness:
  "\<exists>s3. GetCommitByBlock 500 sampleCommitted =
     (Inr (Some \<lparr>Commit_TargetEpoch = 10, Commit_MerkleRoot = [1], Commit_ReferenceBlock = 500,
        Commit_ClusterBalances = [], Commit_Status = CommitStatusConfirmed, Commit_TxHash = Some [9]\<rparr>), s3)"
proof -
  let ?s = "\<lparr>tbl = emptyTables, faults = []\<rparr>"
  let ?s1 = "snd (InsertPendingCommit 10 [1] 500 [] ?s)"
  have a: "InsertPendingCommit 10 [1] 500 [] ?s = (Inr (), ?s1)"
    by (simp add: InsertPendingCommit_def stmt_def insertCommitTbl_def emptyTables_def wrapS_def)
  have b: "UpdateCommitStatus 10 CommitStatusConfirmed (Some [9]) ?s1 = (Inr (), sampleCommitted)"
    by (simp add: sampleCommitted_def runOp_def UpdateCommitStatus_def InsertPendingCommit_def wrapS_def
        stmt_def insertCommitTbl_def emptyTables_def update_def)
  have f: "faults sampleCommitted = []"
    by (simp add: sampleCommitted_def runOp_def UpdateCommitStatus_def InsertPendingCommit_def
        stmt_def insertCommitTbl_def emptyTables_def update_def)
  obtain r where c: "GetCommitByBlock 500 sampleCommitted = (Inr r, sampleCommitted)"
    using f by (simp add: GetCommitByBlock_def wrapS_def)
  have n: "commitOf ?s 10 = None" by (simp add: commitOf_def emptyTables_def)
  have w: "db_wf (tbl ?s)" by (simp add: emptyTables_wf)
  from commit_read_back [OF w n a b c] c show ?thesis by simp
qed

text \<open>\<open>GetActiveValidators\<close> returns, once each and ordered by cluster and key, exactly
  the validators whose cluster is active.\<close>

theorem active_validators_exact:
  assumes "db_wf (tbl s)" "GetActiveValidators s = (Inr vs, s')"
  shows "distinct vs \<and> sorted (map (\<lambda>v. (AV_ClusterID v, AV_ValidatorPubkey v)) vs) \<and>
    (\<forall>v. v \<in> set vs \<longleftrightarrow>
       (AV_ClusterID v, AV_ValidatorPubkey v) \<in> set (validators (tbl s)) \<and>
       (\<exists>r. findRow (tbl s) (AV_ClusterID v) = Some r \<and> Row_IsActive r))"
proof -
  have vs: "vs = map (\<lambda>v. \<lparr>AV_ClusterID = fst v, AV_ValidatorPubkey = snd v\<rparr>) (activeRows (tbl s))"
    using GetActiveValidators_Inr [OF assms(2)] by simp
  have inj: "inj_on (\<lambda>v. \<lparr>AV_ClusterID = fst v, AV_ValidatorPubkey = snd v\<rparr>) A" for A
    by (auto simp: inj_on_def prod_eq_iff)
  have act: "(\<exists>r. findRow (tbl s) k = Some r \<and> Row_IsActive r) \<longleftrightarrow>
      (\<exists>c \<in> set (clusters (tbl s)). cluster_id c = k \<and> is_active c = 1)" for k
    using assms(1) findRow_Some_iff [of "tbl s" k]
    by (auto simp: db_wf_def scanClusterRow_def intToBool_def)
  have "distinct vs" using vs activeRows_props(1) [OF assms(1)] inj by (simp add: distinct_map)
  moreover have "sorted (map (\<lambda>v. (AV_ClusterID v, AV_ValidatorPubkey v)) vs)"
    using vs activeRows_props(2) [OF assms(1)] by (simp add: comp_def)
  moreover have "v \<in> set vs \<longleftrightarrow> (AV_ClusterID v, AV_ValidatorPubkey v) \<in> set (activeRows (tbl s))" for v
    unfolding vs by (cases v) (force simp: image_iff)
  ultimately show ?thesis
    using act activeRows_props(3) [OF assms(1)] by simp
qed

definition sampleStore :: store where
  "sampleStore = runCalls
     [Call (OpUpsertCluster (sampleRow [1] True)), Call (OpUpsertCluster (sampleRow [2] False)),
      Call (OpInsertValidator [1] (replicate 48 5)), Call (OpInsertValidator [2] (replicate 48 6)),
      Call (OpInsertValidator [1] (replicate 48 4))]
     \<lparr>tbl = emptyTables, faults = []\<rparr>"

theorem active_validators_exact_witness:
  "\<exists>vs s'. GetActiveValidators sampleStore = (Inr vs, s') \<and> distinct vs \<and>
     \<lparr>AV_ClusterID = [1], AV_ValidatorPubkey = replicate 48 5\<rparr> \<in> set vs \<and>
     \<lparr>AV_ClusterID = [2], AV_ValidatorPubkey = replicate 48 6\<rparr> \<notin> set vs"
proof -
  have st: "sampleStore = \<lparr>tbl = emptyTables\<lparr>
      clusters := [rowToRec (sampleRow [1] True), rowToRec (sampleRow [2] False)],
      validators := [([1], replicate 48 5), ([2], replicate 48 6), ([1], replicate 48 4)]\<rparr>, faults = []\<rparr>"
    by (simp add: sampleStore_def runOp_def upsertCluster_def insertValidator_def
        insertValidatorTbl_def PublicKeyLength_def stmt_def emptyTables_def rowToRec_def sampleRow_def)
  have f: "faults sampleStore = []" by (simp add: st)
  have w: "db_wf (tbl sampleStore)"
    unfolding sampleStore_def by (rule runCalls_inv) (simp_all add: runOp_wf emptyTables_wf)
  obtain vs where vs: "GetActiveValidators sampleStore = (Inr vs, sampleStore)"
    using f by (simp add: GetActiveValidators_def wrapS_def)
  have "findRow (tbl sampleStore) [1] = Some (sampleRow [1] True)"
    "findRow (tbl sampleStore) [2] = Some (sampleRow [2] False)"
    by (simp_all add: st findRow_def scanClusterRow_def rowToRec_def sampleRow_def boolToInt_def intToBool_def)
  with active_validators_exact [OF w vs] vs show ?thesis by (auto simp: st sampleRow_def)
qed

end
