(* ===== verification/Retry.thy ===== *)
theory Retry
  imports Base
begin

text \<open>
  Retries with exponential backoff: \<^verbatim>\<open>eth/retry.go\<close>. The world \<open>'w\<close> stands for
  everything outside the process; the random source and the timer act on it. A
  \<open>time.Duration\<close> is an \<open>int\<close> of nanoseconds that wraps at 64 bits.
\<close>

definition wrap64 :: "int \<Rightarrow> int" where
  "wrap64 x = signed_take_bit 63 x"

record RetryConfig =
  MaxRetries :: nat
  BaseDelay :: int
  MaxDelay :: int

definition DefaultRetryConfig :: RetryConfig where
  "DefaultRetryConfig = \<lparr>MaxRetries = 3, BaseDelay = 2 * 10 ^ 9, MaxDelay = 15 * 10 ^ 9\<rparr>"

text \<open>
  \<open>randInt63n n\<close> is \<open>rand.Int63n\<close>; \<open>sleepFor d\<close> is the \<open>select\<close> between
  \<open>time.After(d)\<close> (\<open>True\<close>) and \<open>ctx.Done()\<close> (\<open>False\<close>); \<open>ctxDone\<close> is
  \<open>ctx.Err() != nil\<close>.
\<close>

record 'w timer =
  randInt63n :: "int \<Rightarrow> 'w \<Rightarrow> int \<times> 'w"
  sleepFor :: "int \<Rightarrow> 'w \<Rightarrow> bool \<times> 'w"
  ctxDone :: "'w \<Rightarrow> bool"

text \<open>The delay before jitter, and the bound of the jitter; Go's division truncates, which
  on the positive delays reached there is \<open>div\<close>.\<close>

definition baseBackoff :: "RetryConfig \<Rightarrow> nat \<Rightarrow> int" where
  "baseBackoff cfg attempt =
     (let delay = wrap64 (BaseDelay cfg * wrap64 (2 ^ attempt))
      in if MaxDelay cfg < delay then MaxDelay cfg else delay)"

definition jitterBound :: "int \<Rightarrow> int" where
  "jitterBound delay = max (delay div 4) 1"

definition backoff :: "'w timer \<Rightarrow> RetryConfig \<Rightarrow> nat \<Rightarrow> 'w \<Rightarrow> int \<times> 'w" where
  "backoff tm cfg attempt w =
     (let delay = baseBackoff cfg attempt in
      if 0 < delay
      then let (jitter, w') = randInt63n tm (jitterBound delay) w in (wrap64 (delay + jitter), w')
      else (delay, w))"

text \<open>
  The loop of \<open>WithRetry\<close>: \<open>left\<close> is \<open>cfg.MaxRetries - attempt\<close>. A missing
  \<open>isRetriable\<close> is \<open>None\<close>.
\<close>

definition retriable :: "(goerror \<Rightarrow> bool) option \<Rightarrow> goerror \<Rightarrow> bool" where
  "retriable isRetriable err = (case isRetriable of None \<Rightarrow> True | Some f \<Rightarrow> f err)"

fun retryLoop ::
    "'w timer \<Rightarrow> RetryConfig \<Rightarrow> (goerror \<Rightarrow> bool) option \<Rightarrow> ('w, 'a) op \<Rightarrow> nat \<Rightarrow> nat \<Rightarrow> ('w, 'a) op" where
  "retryLoop tm cfg isRetriable fn 0 attempt w =
     (case fn w of
        (Inr x, w1) \<Rightarrow> (Inr x, w1)
      | (Inl err, w1) \<Rightarrow>
          if \<not> retriable isRetriable err then (Inl err, w1)
          else (Inl (Wrap (''after '' @ dec (MaxRetries cfg + 1) @ '' attempts'') err), w1))"
| "retryLoop tm cfg isRetriable fn (Suc left) attempt w =
     (case fn w of
        (Inr x, w1) \<Rightarrow> (Inr x, w1)
      | (Inl err, w1) \<Rightarrow>
          if \<not> retriable isRetriable err then (Inl err, w1)
          else let (delay, w2) = backoff tm cfg attempt w1;
                   (fired, w3) = sleepFor tm delay w2
               in if fired then retryLoop tm cfg isRetriable fn left (Suc attempt) w3
                  else (Inl CtxErr, w3))"

definition WithRetry ::
    "'w timer \<Rightarrow> RetryConfig \<Rightarrow> ('w, 'a) op \<Rightarrow> (goerror \<Rightarrow> bool) option \<Rightarrow> ('w, 'a) op" where
  "WithRetry tm cfg fn isRetriable = retryLoop tm cfg isRetriable fn (MaxRetries cfg) 0"

section \<open>Lemmas\<close>

lemma wrap64_id: "- (2 ^ 63) \<le> x \<Longrightarrow> x < 2 ^ 63 \<Longrightarrow> wrap64 x = x"
  unfolding wrap64_def by (rule signed_take_bit_int_eq_self) simp_all

lemma retryLoop_ok: "fn w = (Inr x, w') \<Longrightarrow> retryLoop tm cfg r fn n k w = (Inr x, w')"
  by (cases n) simp_all

lemma WithRetry_ok: "fn w = (Inr x, w') \<Longrightarrow> WithRetry tm cfg fn r w = (Inr x, w')"
  by (simp add: WithRetry_def retryLoop_ok)

text \<open>What every successful call returns, \<open>WithRetry\<close> returns.\<close>

lemma retryLoop_Inr:
  assumes "\<And>w x w'. fn w = (Inr x, w') \<Longrightarrow> Q x"
  shows "retryLoop tm cfg r fn n k w = (Inr x, w') \<Longrightarrow> Q x"
proof (induction n arbitrary: k w)
  case 0
  then show ?case using assms by (auto split: prod.splits sum.splits if_splits)
next
  case (Suc n)
  then show ?case using assms by (auto simp: Let_def split: prod.splits sum.splits if_splits)
qed

lemma WithRetry_Inr:
  "(\<And>w x w'. fn w = (Inr x, w') \<Longrightarrow> Q x) \<Longrightarrow> WithRetry tm cfg fn r w = (Inr x, w') \<Longrightarrow> Q x"
  unfolding WithRetry_def using retryLoop_Inr by metis

text \<open>If no call succeeds and every error may be retried, the loop ends with the last error
  wrapped, or with the cancellation.\<close>

lemma retryLoop_fails:
  assumes "\<And>w. \<exists>w'. fn w = (Inl e, w')" "retriable r e"
  shows "\<exists>w'. retryLoop tm cfg r fn n k w = (Inl CtxErr, w') \<or>
     retryLoop tm cfg r fn n k w = (Inl (Wrap (''after '' @ dec (MaxRetries cfg + 1) @ '' attempts'') e), w')"
proof (induction n arbitrary: k w)
  case 0
  obtain w1 where "fn w = (Inl e, w1)" using assms(1) by blast
  with assms(2) show ?case by simp
next
  case (Suc n)
  obtain w1 where f: "fn w = (Inl e, w1)" using assms(1) by blast
  obtain d w2 where b: "backoff tm cfg k w1 = (d, w2)" by fastforce
  obtain c w3 where s: "sleepFor tm d w2 = (c, w3)" by fastforce
  from Suc [of "Suc k" w3] f b s assms(2) show ?case by (cases c) auto
qed

text \<open>The number of calls, counted by any counter in the world that only \<open>fn\<close> moves.\<close>

lemma retryLoop_calls:
  assumes "\<And>w. cnt (snd (fn w)) = Suc (cnt w)"
    "\<And>n w. cnt (snd (randInt63n tm n w)) = cnt w" "\<And>d w. cnt (snd (sleepFor tm d w)) = cnt w"
  shows "cnt w < cnt (snd (retryLoop tm cfg r fn n k w)) \<and>
         cnt (snd (retryLoop tm cfg r fn n k w)) \<le> cnt w + Suc n"
proof (induction n arbitrary: k w)
  case 0
  then show ?case using assms(1) [of w] by (auto split: prod.splits sum.splits)
next
  case (Suc n)
  obtain x w1 where f: "fn w = (x, w1)" by fastforce
  obtain d w2 where b: "backoff tm cfg k w1 = (d, w2)" by fastforce
  obtain c w3 where s: "sleepFor tm d w2 = (c, w3)" by fastforce
  have "cnt w2 = cnt w1"
    using b assms(2) by (auto simp: backoff_def Let_def split: prod.splits if_splits) (metis snd_conv)
  moreover have "cnt w1 = Suc (cnt w)" using f assms(1) [of w] by simp
  moreover have "cnt w3 = cnt w2" using s assms(3) [of d w2] by simp
  ultimately show ?case using Suc [of w3 "Suc k"] f b s by (auto split: sum.splits)
qed

section \<open>Properties\<close>

text \<open>Under the documented range of \<open>rand.Int63n\<close> and with delays that fit, the wait
  before a retry is at least the capped exponential delay and at most a quarter (or one
  nanosecond) above it, and it never exceeds 1.25 times \<open>MaxDelay\<close> by more than a
  nanosecond.\<close>

theorem backoff_bounds:
  assumes "0 < BaseDelay cfg" "0 < MaxDelay cfg" "MaxDelay cfg < 2 ^ 61"
    "BaseDelay cfg * 2 ^ attempt < 2 ^ 63" "attempt < 63"
    "\<And>n w. 0 < n \<Longrightarrow> 0 \<le> fst (randInt63n tm n w) \<and> fst (randInt63n tm n w) < n"
  shows "min (MaxDelay cfg) (BaseDelay cfg * 2 ^ attempt) \<le> fst (backoff tm cfg attempt w) \<and>
    4 * fst (backoff tm cfg attempt w) \<le> 5 * MaxDelay cfg + 4"
proof -
  have p: "wrap64 (2 ^ attempt) = 2 ^ attempt"
  proof (rule wrap64_id)
    show "(2::int) ^ attempt < 2 ^ 63" using assms(5) by (rule power_strict_increasing) simp
  qed (smt (verit) zero_le_power)
  have "0 \<le> BaseDelay cfg * 2 ^ attempt" using assms(1) by simp
  then have d: "baseBackoff cfg attempt = min (MaxDelay cfg) (BaseDelay cfg * 2 ^ attempt)"
    using assms(4) by (simp add: baseBackoff_def p wrap64_id Let_def min_def)
  have pos: "0 < baseBackoff cfg attempt" using d assms(1,2) by simp
  obtain j w' where j: "randInt63n tm (jitterBound (baseBackoff cfg attempt)) w = (j, w')" by fastforce
  have jb: "0 \<le> j \<and> j < jitterBound (baseBackoff cfg attempt)"
    using assms(6) [of "jitterBound (baseBackoff cfg attempt)" w] j by (simp add: jitterBound_def)
  moreover have "baseBackoff cfg attempt \<le> MaxDelay cfg" by (simp add: d)
  ultimately have "wrap64 (baseBackoff cfg attempt + j) = baseBackoff cfg attempt + j"
    using pos assms(3) by (intro wrap64_id) (auto simp: jitterBound_def max_def split: if_splits)
  then have "fst (backoff tm cfg attempt w) = baseBackoff cfg attempt + j"
    using pos j by (simp add: backoff_def)
  with jb pos d show ?thesis
    by (auto simp: jitterBound_def max_def split: if_splits)
qed

definition sampleTimer :: "nat timer" where
  "sampleTimer = \<lparr>randInt63n = (\<lambda>n w. (0, w)), sleepFor = (\<lambda>d w. (True, w)), ctxDone = (\<lambda>w. False)\<rparr>"

theorem backoff_bounds_witness:
  "8 * 10 ^ 9 \<le> fst (backoff sampleTimer DefaultRetryConfig 2 0) \<and>
   4 * fst (backoff sampleTimer DefaultRetryConfig 2 0) \<le> 75 * 10 ^ 9 + 4"
  using backoff_bounds [of DefaultRetryConfig 2 sampleTimer 0]
  by (simp add: DefaultRetryConfig_def sampleTimer_def)

text \<open>\<open>WithRetry\<close> calls its function at least once and at most \<open>MaxRetries + 1\<close>
  times, whatever the function returns and whenever the context is cancelled.\<close>

theorem with_retry_call_count:
  assumes "\<And>w. cnt (snd (fn w)) = Suc (cnt w)"
    "\<And>n w. cnt (snd (randInt63n tm n w)) = cnt w" "\<And>d w. cnt (snd (sleepFor tm d w)) = cnt w"
  shows "cnt w < cnt (snd (WithRetry tm cfg fn r w)) \<and>
         cnt (snd (WithRetry tm cfg fn r w)) \<le> cnt w + MaxRetries cfg + 1"
  using retryLoop_calls [of cnt fn tm, OF assms] by (simp add: WithRetry_def)

theorem with_retry_call_count_witness:
  "0 < snd (WithRetry sampleTimer DefaultRetryConfig (\<lambda>w. (Inl CtxErr :: goerror + unit, Suc w)) None 0) \<and>
   snd (WithRetry sampleTimer DefaultRetryConfig (\<lambda>w. (Inl CtxErr :: goerror + unit, Suc w)) None 0) \<le> 4"
  using with_retry_call_count [of "\<lambda>n. n" "\<lambda>w. (Inl CtxErr :: goerror + unit, Suc w)" sampleTimer 0
      DefaultRetryConfig None]
  by (simp add: sampleTimer_def DefaultRetryConfig_def)

end
