(* ===== verification/Execution.thy ===== *)
theory Execution
  imports Retry
begin

text \<open>
  The execution client of \<^verbatim>\<open>eth/execution\<close>: adaptive batch sizes, the classification
  of batch errors, grouping of logs by block and the loop that fetches logs in batches.
  The RPC methods of go-ethereum are operations on the world.
\<close>

section \<open>Adaptive batch size\<close>

record AdaptiveBatchSize =
  current :: u64
  minSize :: u64
  maxSize :: u64

definition NewAdaptiveBatchSize :: "u64 \<Rightarrow> u64 \<Rightarrow> AdaptiveBatchSize" where
  "NewAdaptiveBatchSize lo hi =
     (let lo1 = (if lo = 0 then 200 else lo);
          hi1 = (if hi = 0 then 10000 else hi);
          lo2 = (if hi1 < lo1 then hi1 else lo1)
      in \<lparr>current = hi1, minSize = lo2, maxSize = hi1\<rparr>)"

definition Get :: "AdaptiveBatchSize \<Rightarrow> u64" where
  "Get a = current a"

definition Decrease :: "AdaptiveBatchSize \<Rightarrow> AdaptiveBatchSize" where
  "Decrease a =
     (let c = current a div 2 in a\<lparr>current := (if c < minSize a then minSize a else c)\<rparr>)"

definition Increase :: "AdaptiveBatchSize \<Rightarrow> AdaptiveBatchSize" where
  "Increase a =
     (let i1 = current a div 10;
          i2 = (if 100 < i1 then 100 else i1);
          i3 = (if i2 < 1 then 1 else i2);
          c = current a + i3
      in a\<lparr>current := (if maxSize a < c then maxSize a else c)\<rparr>)"

section \<open>Logs\<close>

record Log =
  Log_Topics :: "bytes list"
  Log_Data :: bytes
  Log_BlockNumber :: u64
  Log_TxHash :: bytes
  Log_TxIndex :: u64
  Log_BlockHash :: bytes
  Log_Index :: u64

record BlockLogs =
  BL_BlockNumber :: u64
  BL_BlockTime :: int
  BL_Logs :: "Log list"

datatype batchErrorCategory =
    errCategoryNone | errCategoryBlockRange | errCategoryRateLimit
  | errCategoryPayloadTooLarge | errCategoryTimeout

definition categorizeBatchError :: "goerror \<Rightarrow> batchErrorCategory" where
  "categorizeBatchError err =
     (let msg = toLower (errText err) in
      if contains msg ''block range'' \<or> contains msg ''exceed'' \<or>
         contains msg ''query returned more than'' then errCategoryBlockRange
      else if contains msg ''rate limit'' \<or> contains msg ''too many requests'' \<or>
         contains msg ''429'' then errCategoryRateLimit
      else if contains msg ''payload too large'' \<or> contains msg ''request entity too large'' \<or>
         contains msg ''413'' \<or> contains msg ''too large'' then errCategoryPayloadTooLarge
      else if contains msg ''timeout'' \<or> contains msg ''deadline exceeded'' \<or>
         contains msg ''context deadline'' then errCategoryTimeout
      else if contains msg ''limit'' \<or> contains msg ''too many'' then errCategoryBlockRange
      else errCategoryNone)"

text \<open>The sort key of \<open>groupLogsByBlock\<close>: block, then transaction, then log index.\<close>

definition logKey :: "Log \<Rightarrow> u64 \<times> u64 \<times> u64" where
  "logKey l = (Log_BlockNumber l, Log_TxIndex l, Log_Index l)"

fun groupLoop :: "(u64 \<rightharpoonup> int) \<Rightarrow> BlockLogs list \<Rightarrow> Log list \<Rightarrow> goerror + BlockLogs list" where
  "groupLoop blockTimes result [] = Inr result"
| "groupLoop blockTimes result (l # ls) =
     (if result = [] \<or> BL_BlockNumber (last result) \<noteq> Log_BlockNumber l
      then case blockTimes (Log_BlockNumber l) of
          None \<Rightarrow> Inl (ErrNew (''missing block time for block '' @ dec (unat (Log_BlockNumber l))))
        | Some tm \<Rightarrow> groupLoop blockTimes
            (result @ [\<lparr>BL_BlockNumber = Log_BlockNumber l, BL_BlockTime = tm, BL_Logs = [l]\<rparr>]) ls
      else groupLoop blockTimes
            (butlast result @ [(last result)\<lparr>BL_Logs := BL_Logs (last result) @ [l]\<rparr>]) ls)"

definition groupLogsByBlock :: "Log list \<Rightarrow> (u64 \<rightharpoonup> int) \<Rightarrow> goerror + BlockLogs list" where
  "groupLogsByBlock logs blockTimes =
     (if logs = [] then Inr [] else groupLoop blockTimes [] (sort_key logKey logs))"

fun uniqueBlocks :: "u64 list \<Rightarrow> Log list \<Rightarrow> u64 list" where
  "uniqueBlocks seen [] = []"
| "uniqueBlocks seen (l # ls) =
     (if Log_BlockNumber l \<in> set seen then uniqueBlocks seen ls
      else Log_BlockNumber l # uniqueBlocks (Log_BlockNumber l # seen) ls)"

section \<open>The client\<close>

text \<open>
  The client: the calls of \<open>ethclient\<close> and of the raw RPC client, the timer, and the
  retry configuration. \<open>batchHeaders\<close> is \<open>BatchCallContext\<close> with
  \<open>eth_getBlockByNumber\<close>, one result or error per block.
\<close>

record 'w execClient =
  filterLogs :: "bytes \<Rightarrow> bytes list \<Rightarrow> u64 \<Rightarrow> u64 \<Rightarrow> ('w, Log list) op"
  batchHeaders :: "u64 list \<Rightarrow> ('w, (goerror + int) list) op"
  headerFinalized :: "('w, u64) op"
  headerLatest :: "('w, u64) op"
  chainIDCall :: "('w, int) op"
  timerOf :: "'w timer"
  retryConfig :: RetryConfig

definition GetFinalizedBlock :: "'w execClient \<Rightarrow> ('w, u64) op" where
  "GetFinalizedBlock c =
     wrapS ''get finalized block'' (WithRetry (timerOf c) (retryConfig c) (headerFinalized c) None)"

definition GetHeadBlock :: "'w execClient \<Rightarrow> ('w, u64) op" where
  "GetHeadBlock c =
     wrapS ''get head block'' (WithRetry (timerOf c) (retryConfig c) (headerLatest c) None)"

definition GetChainIDRpc :: "'w execClient \<Rightarrow> ('w, int) op" where
  "GetChainIDRpc c =
     wrapS ''get chain ID'' (WithRetry (timerOf c) (retryConfig c) (chainIDCall c) None)"

definition blockTimestampMaxBatchSize :: nat where
  "blockTimestampMaxBatchSize = 100"

text \<open>The results of one chunk, in order; the first element error aborts.\<close>

fun storeTimes :: "u64 list \<Rightarrow> (goerror + int) list \<Rightarrow> (u64 \<rightharpoonup> int) \<Rightarrow> goerror + (u64 \<rightharpoonup> int)" where
  "storeTimes (b # bs) (Inl e # rs) blockTimes = Inl (Wrap (''get block '' @ dec (unat b)) e)"
| "storeTimes (b # bs) (Inr tm # rs) blockTimes = storeTimes bs rs (blockTimes(b \<mapsto> tm))"
| "storeTimes _ _ blockTimes = Inr blockTimes"

function timesFrom :: "'w execClient \<Rightarrow> u64 list \<Rightarrow> (u64 \<rightharpoonup> int) \<Rightarrow> ('w, u64 \<rightharpoonup> int) op" where
  "timesFrom c blocks blockTimes =
     (if blocks = [] then retS blockTimes
      else let chunk = take blockTimestampMaxBatchSize blocks in
        bindS (wrapS ''batch get block timestamps''
                 (WithRetry (timerOf c) (retryConfig c) (batchHeaders c chunk) None))
          (\<lambda>results. case storeTimes chunk results blockTimes of
             Inl e \<Rightarrow> failS e
           | Inr blockTimes' \<Rightarrow> timesFrom c (drop blockTimestampMaxBatchSize blocks) blockTimes'))"
  by pat_completeness auto
termination
  by (relation "measure (\<lambda>(c, blocks, blockTimes). length blocks)")
     (auto simp: blockTimestampMaxBatchSize_def)

declare timesFrom.simps [simp del]

definition getBlockTimestampsBatch :: "'w execClient \<Rightarrow> u64 list \<Rightarrow> ('w, u64 \<rightharpoonup> int) op" where
  "getBlockTimestampsBatch c blockNumbers =
     (if blockNumbers = [] then retS Map.empty else timesFrom c blockNumbers Map.empty)"

definition packLogs :: "'w execClient \<Rightarrow> Log list \<Rightarrow> ('w, BlockLogs list) op" where
  "packLogs c logs =
     (if logs = [] then retS []
      else bindS (wrapS ''fetch block timestamps'' (getBlockTimestampsBatch c (uniqueBlocks [] logs)))
        (\<lambda>blockTimes. case groupLogsByBlock logs blockTimes of Inl e \<Rightarrow> failS e | Inr bl \<Rightarrow> retS bl))"

definition fetchLogsBatch ::
    "'w execClient \<Rightarrow> bytes \<Rightarrow> u64 \<Rightarrow> u64 \<Rightarrow> bytes list \<Rightarrow> ('w, Log list) op" where
  "fetchLogsBatch c address fromBlock toBlock topics =
     wrapS (''fetch logs ['' @ dec (unat fromBlock) @ ''-'' @ dec (unat toBlock) @ '']'')
       (WithRetry (timerOf c) (retryConfig c) (filterLogs c address topics fromBlock toBlock) None)"

text \<open>
  \<open>FetchLogs\<close>. The loop retries batch errors without a bound, so it runs on fuel:
  \<open>None\<close> is a loop that has not returned yet. The state is the client's batch size, the
  world and the state of the callback.
\<close>

type_synonym ('w, 's) callback = "u64 \<Rightarrow> BlockLogs list \<Rightarrow> ('w \<times> 's, unit) op"

definition batchEndOf :: "AdaptiveBatchSize \<Rightarrow> u64 \<Rightarrow> u64 \<Rightarrow> u64" where
  "batchEndOf bs cur toBlock =
     (let e = cur + Get bs - 1 in if toBlock < e then toBlock else e)"

fun FetchLogs ::
    "nat \<Rightarrow> 'w execClient \<Rightarrow> bytes \<Rightarrow> bytes list \<Rightarrow> ('w, 's) callback \<Rightarrow> u64 \<Rightarrow> u64 \<Rightarrow>
     AdaptiveBatchSize \<times> 'w \<times> 's \<Rightarrow> ((goerror + unit) \<times> AdaptiveBatchSize \<times> 'w \<times> 's) option" where
  "FetchLogs 0 c address topics cb cur toBlock x = None"
| "FetchLogs (Suc fuel) c address topics cb cur toBlock (bs, w, st) =
     (if \<not> cur \<le> toBlock then Some (Inr (), bs, w, st)
      else let batchEnd = batchEndOf bs cur toBlock in
        (case fetchLogsBatch c address cur batchEnd topics w of
           (Inl err, w1) \<Rightarrow>
             if categorizeBatchError err \<noteq> errCategoryNone
             then if ctxDone (timerOf c) w1 then Some (Inl CtxErr, bs, w1, st)
                  else FetchLogs fuel c address topics cb cur toBlock (Decrease bs, w1, st)
             else Some (Inl err, bs, w1, st)
         | (Inr logs, w1) \<Rightarrow>
             (case packLogs c logs w1 of
                (Inl err, w2) \<Rightarrow> Some (Inl err, Increase bs, w2, st)
              | (Inr batchLogs, w2) \<Rightarrow>
                  (case cb batchEnd batchLogs (w2, st) of
                     (Inl err, w3, st3) \<Rightarrow> Some (Inl err, Increase bs, w3, st3)
                   | (Inr _, w3, st3) \<Rightarrow>
                       if ctxDone (timerOf c) w3 then Some (Inl CtxErr, Increase bs, w3, st3)
                       else FetchLogs fuel c address topics cb (batchEnd + 1) toBlock
                              (Increase bs, w3, st3)))))"

section \<open>Batch sizes\<close>

text \<open>The contract of a batch sizer: an invariant on its state that creation establishes and
  both adjustments keep, a size within bounds, and a decrease that makes progress.\<close>

locale batch_sizer =
  fixes ok :: "'b \<Rightarrow> bool" and size :: "'b \<Rightarrow> nat" and lo hi :: "'b \<Rightarrow> nat"
    and down up :: "'b \<Rightarrow> 'b"
  assumes bounds: "ok b \<Longrightarrow> 1 \<le> lo b \<and> lo b \<le> size b \<and> size b \<le> hi b"
    and down_ok: "ok b \<Longrightarrow> ok (down b)" and up_ok: "ok b \<Longrightarrow> ok (up b)"
    and down_keeps: "lo (down b) = lo b" "hi (down b) = hi b"
    and up_keeps: "lo (up b) = lo b" "hi (up b) = hi b"
    and down_size: "ok b \<Longrightarrow> size (down b) = max (lo b) (size b div 2)"
    and up_size: "ok b \<Longrightarrow> size b < hi b \<Longrightarrow> size b < size (up b)"
begin

lemma ops_ok:
  "ok b \<Longrightarrow> ok (fold (\<lambda>d b. if d then down b else up b) ds b) \<and>
     lo (fold (\<lambda>d b. if d then down b else up b) ds b) = lo b \<and>
     hi (fold (\<lambda>d b. if d then down b else up b) ds b) = hi b"
  by (induction ds arbitrary: b) (simp_all add: down_ok up_ok down_keeps up_keeps)

lemma down_progress: "ok b \<Longrightarrow> lo b < size b \<Longrightarrow> size (down b) < size b"
  using bounds [of b] by (simp add: down_size)

lemma down_repeat: "ok b \<Longrightarrow> size b < 2 ^ k \<Longrightarrow> size ((down ^^ k) b) = lo b"
proof (induction k arbitrary: b)
  case 0
  then show ?case using bounds [of b] by simp
next
  case (Suc k)
  show ?case
  proof (cases "size b div 2 < lo b")
    case True
    then have "size (down b) = lo (down b)" using Suc.prems by (simp add: down_size down_keeps)
    then have "ok ((down ^^ k) (down b)) \<and> lo ((down ^^ k) (down b)) = lo b \<and>
        size ((down ^^ k) (down b)) = lo b"
    proof (induction k)
      case 0
      then show ?case using Suc.prems by (simp add: down_ok down_keeps)
    next
      case (Suc k)
      then show ?case by (simp add: down_ok down_keeps down_size)
    qed
    then show ?thesis by (simp add: funpow_swap1)
  next
    case False
    then have "size (down b) < 2 ^ k" using Suc.prems by (simp add: down_size)
    then show ?thesis using Suc.IH [of "down b"] Suc.prems by (simp add: funpow_swap1 down_ok down_keeps)
  qed
qed

end

text \<open>The upper bound leaves room for one increase (of at most 100), so that none wraps.\<close>

definition batch_ok :: "AdaptiveBatchSize \<Rightarrow> bool" where
  "batch_ok a \<longleftrightarrow> 1 \<le> minSize a \<and> minSize a \<le> current a \<and> current a \<le> maxSize a \<and>
     unat (maxSize a) + 100 < 2 ^ 64"

lemma unat_half: "unat (c div 2 :: u64) = unat c div 2"
  by (simp add: unat_div)

lemma Increase_size:
  assumes "batch_ok a"
  shows "unat (current (Increase a)) =
    min (unat (maxSize a)) (unat (current a) + max 1 (min 100 (unat (current a) div 10)))"
proof -
  define i where "i = (let i1 = current a div 10; i2 = (if 100 < i1 then 100 else i1)
    in if i2 < 1 then 1 else i2)"
  have i: "unat i = max 1 (min 100 (unat (current a) div 10))"
    by (auto simp: i_def Let_def word_less_nat_alt unat_div min_def max_def)
  then have "unat (current a) + unat i < 2 ^ 64"
    using assms by (auto simp: batch_ok_def word_le_nat_alt)
  then have s: "unat (current a + i) = unat (current a) + unat i" by (simp add: unat_add_exact)
  have "current (Increase a) = (if maxSize a < current a + i then maxSize a else current a + i)"
    by (simp add: Increase_def i_def Let_def)
  then show ?thesis using s i by (simp add: word_less_nat_alt min_def)
qed

interpretation sizer: batch_sizer batch_ok "\<lambda>a. unat (current a)" "\<lambda>a. unat (minSize a)"
    "\<lambda>a. unat (maxSize a)" Decrease Increase
proof
  fix b :: AdaptiveBatchSize
  show "unat (minSize (Decrease b)) = unat (minSize b)" "unat (maxSize (Decrease b)) = unat (maxSize b)"
    by (simp_all add: Decrease_def Let_def)
  show "unat (minSize (Increase b)) = unat (minSize b)" "unat (maxSize (Increase b)) = unat (maxSize b)"
    by (simp_all add: Increase_def Let_def)
  assume ok: "batch_ok b"
  then show "1 \<le> unat (minSize b) \<and> unat (minSize b) \<le> unat (current b) \<and> unat (current b) \<le> unat (maxSize b)"
    by (simp add: batch_ok_def word_le_nat_alt)
  show d: "unat (current (Decrease b)) = max (unat (minSize b)) (unat (current b) div 2)"
    by (simp add: Decrease_def Let_def word_less_nat_alt unat_half max_def)
  show "batch_ok (Decrease b)"
    using ok d div_le_dividend [of "unat (current b)" 2]
    by (auto simp: batch_ok_def word_le_nat_alt Decrease_def Let_def)
  show "batch_ok (Increase b)"
    using ok Increase_size [OF ok]
    by (simp add: batch_ok_def word_le_nat_alt) (simp add: Increase_def Let_def)
  show "unat (current b) < unat (maxSize b) \<Longrightarrow> unat (current b) < unat (current (Increase b))"
    using Increase_size [OF ok] by simp
qed

lemma NewAdaptiveBatchSize_ok: "unat hi + 100 < 2 ^ 64 \<Longrightarrow> batch_ok (NewAdaptiveBatchSize lo hi)"
  by (auto simp: NewAdaptiveBatchSize_def batch_ok_def Let_def word_le_nat_alt word_less_nat_alt)
     (simp_all add: unat_eq_zero Suc_le_eq unat_gt_0)

text \<open>For every configured range, the batch size stays between a minimum of at least one
  block and the maximum, whatever sequence of decreases and increases is applied, and the
  configured bounds never change.\<close>

theorem batch_size_bounds:
  assumes "unat hi + 100 < 2 ^ 64"
  shows "let a0 = NewAdaptiveBatchSize lo hi;
      a = fold (\<lambda>d b. if d then Decrease b else Increase b) ops a0 in
    1 \<le> unat (minSize a0) \<and> unat (minSize a0) \<le> unat (Get a) \<and> unat (Get a) \<le> unat (maxSize a0) \<and>
    minSize a = minSize a0 \<and> maxSize a = maxSize a0"
proof -
  have "batch_ok (NewAdaptiveBatchSize lo hi)" using assms by (simp add: NewAdaptiveBatchSize_ok)
  from sizer.ops_ok [OF this, of ops] sizer.bounds [OF conjunct1 [OF sizer.ops_ok [OF this, of ops]]]
  show ?thesis by (simp add: Get_def Let_def word_unat_eq_iff)
qed

theorem batch_size_bounds_witness:
  "let a0 = NewAdaptiveBatchSize 0 0;
      a = fold (\<lambda>d b. if d then Decrease b else Increase b) [True, True, False] a0 in
    1 \<le> unat (minSize a0) \<and> unat (minSize a0) \<le> unat (Get a) \<and> unat (Get a) \<le> unat (maxSize a0) \<and>
    minSize a = minSize a0 \<and> maxSize a = maxSize a0"
  by (rule batch_size_bounds) simp

section \<open>Grouping logs by block\<close>

text \<open>A list of groups is well formed for \<open>blockTimes\<close> if the groups are not empty, their logs
  carry the group's block number and time, and the block numbers strictly increase.\<close>

definition groupOk :: "(u64 \<rightharpoonup> int) \<Rightarrow> BlockLogs \<Rightarrow> bool" where
  "groupOk blockTimes g \<longleftrightarrow> BL_Logs g \<noteq> [] \<and> blockTimes (BL_BlockNumber g) = Some (BL_BlockTime g) \<and>
     (\<forall>l\<in>set (BL_Logs g). Log_BlockNumber l = BL_BlockNumber g)"

definition groupsOk :: "(u64 \<rightharpoonup> int) \<Rightarrow> BlockLogs list \<Rightarrow> bool" where
  "groupsOk blockTimes gs \<longleftrightarrow> (\<forall>g\<in>set gs. groupOk blockTimes g) \<and>
     sorted_wrt (<) (map BL_BlockNumber gs)"

definition groupedLogs :: "BlockLogs list \<Rightarrow> Log list" where
  "groupedLogs gs = concat (map BL_Logs gs)"

lemma groupsOk_snoc:
  "groupsOk tm (gs @ [g]) \<longleftrightarrow> groupsOk tm gs \<and> groupOk tm g \<and>
     (\<forall>h\<in>set gs. BL_BlockNumber h < BL_BlockNumber g)"
  by (auto simp: groupsOk_def sorted_wrt_append)

lemma groupLoop_result:
  assumes "sorted (map Log_BlockNumber ls)" "groupsOk tm result"
    "\<And>l g. l \<in> set ls \<Longrightarrow> g \<in> set result \<Longrightarrow> BL_BlockNumber g \<le> Log_BlockNumber l"
    "groupLoop tm result ls = Inr gs"
  shows "groupsOk tm gs \<and> groupedLogs gs = groupedLogs result @ ls"
  using assms
proof (induction ls arbitrary: result)
  case Nil
  then show ?case by simp
next
  case (Cons l ls)
  show ?case
  proof (cases "result = [] \<or> BL_BlockNumber (last result) \<noteq> Log_BlockNumber l")
    case True
    then obtain t where t: "tm (Log_BlockNumber l) = Some t"
      using Cons.prems(4) by (auto split: option.splits)
    have lt: "BL_BlockNumber g < Log_BlockNumber l" if "g \<in> set result" for g
    proof -
      have ne: "result \<noteq> []" using that by auto
      then have "BL_BlockNumber (last result) < Log_BlockNumber l"
        using True Cons.prems(3) [of l "last result"] by (auto simp: less_le)
      moreover have "BL_BlockNumber g \<le> BL_BlockNumber (last result)"
        using Cons.prems(2) that ne
        by (cases result rule: rev_cases) (auto simp: groupsOk_snoc less_imp_le)
      ultimately show ?thesis by simp
    qed
    let ?g = "\<lparr>BL_BlockNumber = Log_BlockNumber l, BL_BlockTime = t, BL_Logs = [l]\<rparr>"
    have "groupsOk tm (result @ [?g])"
      using Cons.prems(2) lt t by (simp add: groupsOk_snoc groupOk_def)
    then have "groupsOk tm gs \<and> groupedLogs gs = groupedLogs (result @ [?g]) @ ls"
      using Cons.prems lt t True by (intro Cons.IH) (auto simp: less_imp_le)
    then show ?thesis by (simp add: groupedLogs_def)
  next
    case False
    then obtain rs g where r: "result = rs @ [g]" by (cases result rule: rev_cases) auto
    let ?g = "g\<lparr>BL_Logs := BL_Logs g @ [l]\<rparr>"
    have "groupsOk tm (rs @ [?g])"
      using Cons.prems(2) False r by (auto simp: groupsOk_snoc groupOk_def)
    then have "groupsOk tm gs \<and> groupedLogs gs = groupedLogs (rs @ [?g]) @ ls"
      using Cons.prems False r by (intro Cons.IH) auto
    then show ?thesis by (simp add: groupedLogs_def r)
  qed
qed

lemma groupLoop_total:
  "(\<forall>l\<in>set ls. tm (Log_BlockNumber l) \<noteq> None) \<Longrightarrow> \<exists>gs. groupLoop tm result ls = Inr gs"
  by (induction ls arbitrary: result) auto

lemma sort_logs_blocks: "sorted (map Log_BlockNumber (sort_key logKey ls))"
proof -
  have "sorted_wrt (\<lambda>x y. logKey x \<le> logKey y) (sort_key logKey ls)"
    using sorted_sort_key [of logKey ls] by (simp add: sorted_map)
  then have "sorted_wrt (\<lambda>x y. Log_BlockNumber x \<le> Log_BlockNumber y) (sort_key logKey ls)"
    by (rule sorted_wrt_mono_rel [rotated]) (auto simp: logKey_def less_eq_prod_def)
  then show ?thesis by (simp add: sorted_map)
qed

lemma groupLogsByBlock_Inr:
  assumes "groupLogsByBlock logs tm = Inr gs"
  shows "groupsOk tm gs \<and> groupedLogs gs = sort_key logKey logs"
proof (cases "logs = []")
  case True
  then show ?thesis using assms by (simp add: groupLogsByBlock_def groupsOk_def groupedLogs_def)
next
  case False
  then have "groupLoop tm [] (sort_key logKey logs) = Inr gs"
    using assms by (simp add: groupLogsByBlock_def)
  from groupLoop_result [OF sort_logs_blocks _ _ this]
  show ?thesis by (simp add: groupsOk_def groupedLogs_def)
qed

lemma groupLogsByBlock_total:
  "(\<forall>l\<in>set logs. tm (Log_BlockNumber l) \<noteq> None) \<Longrightarrow> \<exists>gs. groupLogsByBlock logs tm = Inr gs"
  using groupLoop_total [of "sort_key logKey logs" tm "[]"] by (auto simp: groupLogsByBlock_def)

lemma packLogs_Inr:
  assumes "packLogs c logs w = (Inr bl, w')"
  shows "\<exists>tm. groupsOk tm bl \<and> groupedLogs bl = sort_key logKey logs"
proof (cases "logs = []")
  case True
  then show ?thesis using assms by (simp add: packLogs_def retS_def groupsOk_def groupedLogs_def)
next
  case False
  then obtain tm where "groupLogsByBlock logs tm = Inr bl"
    using assms by (auto simp: packLogs_def opS_simps split: prod.splits sum.splits)
  then show ?thesis using groupLogsByBlock_Inr by blast
qed

text \<open>Grouping fails only when a log's block has no timestamp; otherwise the groups hold
  exactly the given logs in chain order (block, transaction index, log index), every group
  is non-empty, carries its block's number and timestamp, and the block numbers strictly
  increase.\<close>

theorem group_logs_exact:
  "case groupLogsByBlock logs tm of
     Inl e \<Rightarrow> \<exists>l\<in>set logs. tm (Log_BlockNumber l) = None
   | Inr gs \<Rightarrow> concat (map BL_Logs gs) = sort_key logKey logs \<and>
       sorted_wrt (<) (map BL_BlockNumber gs) \<and> list_all (groupOk tm) gs"
proof (cases "groupLogsByBlock logs tm")
  case (Inl e)
  then have "\<not> (\<forall>l\<in>set logs. tm (Log_BlockNumber l) \<noteq> None)"
    using groupLogsByBlock_total by fastforce
  then show ?thesis using Inl by auto
next
  case (Inr gs)
  then show ?thesis using groupLogsByBlock_Inr [OF Inr]
    by (simp add: groupsOk_def groupedLogs_def list_all_iff)
qed

section \<open>The fetch loop\<close>

lemma batchEndOf_bounds:
  assumes "batch_ok bs" "unat toBlock + unat (maxSize bs) < 2 ^ 64" "cur \<le> toBlock"
  shows "cur \<le> batchEndOf bs cur toBlock" "batchEndOf bs cur toBlock \<le> toBlock"
    "unat (batchEndOf bs cur toBlock) < unat cur + unat (current bs)"
    "unat (batchEndOf bs cur toBlock + 1) = unat (batchEndOf bs cur toBlock) + 1"
proof -
  note b = sizer.bounds [OF assms(1)]
  have c: "unat cur \<le> unat toBlock" using assms(3) by (simp add: word_le_nat_alt)
  have s: "unat (cur + current bs) = unat cur + unat (current bs)"
    using b c assms(2) by (intro unat_add_exact) simp
  have "(1::u64) \<le> cur + current bs" using s b by (simp add: word_le_nat_alt)
  then have e: "unat (cur + current bs - 1) = unat cur + unat (current bs) - 1"
    using s by (simp add: unat_sub_exact)
  show 1: "cur \<le> batchEndOf bs cur toBlock" and 2: "batchEndOf bs cur toBlock \<le> toBlock"
    and "unat (batchEndOf bs cur toBlock) < unat cur + unat (current bs)"
    using e b c by (auto simp: batchEndOf_def Get_def Let_def word_le_nat_alt word_less_nat_alt)
  show "unat (batchEndOf bs cur toBlock + 1) = unat (batchEndOf bs cur toBlock) + 1"
    using 2 b assms(2) by (intro unat_Suc_exact) (simp add: word_le_nat_alt)
qed

lemma fetchLogsBatch_Inr:
  assumes "fetchLogsBatch c address a b topics w = (Inr logs, w')"
    "\<And>w logs w'. filterLogs c address topics a b w = (Inr logs, w') \<Longrightarrow> Q logs"
  shows "Q logs"
  using assms(1) unfolding fetchLogsBatch_def wrapS_eq_Inr_iff by (rule WithRetry_Inr [rotated]) (rule assms(2))

text \<open>The loop rule: what every delivered batch keeps holds past the last block when the
  loop succeeds.\<close>

lemma FetchLogs_rule:
  assumes step: "\<And>a e w st logs w1 bl w2 w3 st3. P (unat a) st \<Longrightarrow> a \<le> e \<Longrightarrow> e \<le> toBlock \<Longrightarrow>
      fetchLogsBatch c address a e topics w = (Inr logs, w1) \<Longrightarrow> packLogs c logs w1 = (Inr bl, w2) \<Longrightarrow>
      cb e bl (w2, st) = (Inr (), w3, st3) \<Longrightarrow> P (unat e + 1) st3"
  shows "batch_ok bs \<Longrightarrow> unat toBlock + unat (maxSize bs) < 2 ^ 64 \<Longrightarrow> unat cur \<le> unat toBlock + 1 \<Longrightarrow>
     P (unat cur) st \<Longrightarrow> FetchLogs fuel c address topics cb cur toBlock (bs, w, st) = Some (Inr (), bs', w', st') \<Longrightarrow>
     P (unat toBlock + 1) st'"
proof (induction fuel arbitrary: cur bs w st)
  case 0
  then show ?case by simp
next
  case (Suc fuel)
  show ?case
  proof (cases "cur \<le> toBlock")
    case False
    then have "unat cur = unat toBlock + 1" using Suc.prems(3) by (simp add: word_le_nat_alt)
    then show ?thesis using Suc.prems False by simp
  next
    case True
    define e where "e = batchEndOf bs cur toBlock"
    note e = batchEndOf_bounds [OF Suc.prems(1,2) True, folded e_def]
    obtain r w1 where f: "fetchLogsBatch c address cur e topics w = (r, w1)" by fastforce
    show ?thesis
    proof (cases r)
      case (Inl err)
      then have "FetchLogs fuel c address topics cb cur toBlock (Decrease bs, w1, st) = Some (Inr (), bs', w', st')"
        using Suc.prems(5) True f by (auto simp: e_def [symmetric] split: if_splits)
      from Suc.IH [OF _ _ Suc.prems(3,4) this] Suc.prems(1,2) show ?thesis
        by (simp add: sizer.down_ok sizer.down_keeps)
    next
      case (Inr logs)
      with Suc.prems(5) True f obtain bl w2 w3 st3 where
        p: "packLogs c logs w1 = (Inr bl, w2)" and k: "cb e bl (w2, st) = (Inr (), w3, st3)" and
        l: "FetchLogs fuel c address topics cb (e + 1) toBlock (Increase bs, w3, st3) = Some (Inr (), bs', w', st')"
        by (auto simp: e_def [symmetric] split: prod.splits sum.splits if_splits)
      have "P (unat e + 1) st3"
        using step [OF Suc.prems(4) e(1,2)] f p k Inr by blast
      then show ?thesis
        using Suc.prems e l
        by (intro Suc.IH [OF _ _ _ _ l]) (simp_all add: sizer.up_ok sizer.up_keeps word_le_nat_alt)
    qed
  qed
qed

text \<open>The logs of a chain in blocks \<open>lo\<close> to \<open>hi - 1\<close>, in chain order.\<close>

definition logsIn :: "Log list \<Rightarrow> nat \<Rightarrow> nat \<Rightarrow> Log list" where
  "logsIn chain lo hi =
     sort_key logKey (filter (\<lambda>l. lo \<le> unat (Log_BlockNumber l) \<and> unat (Log_BlockNumber l) < hi) chain)"

lemma logsIn_empty [simp]: "logsIn chain lo lo = []"
proof -
  have "filter (\<lambda>l. lo \<le> unat (Log_BlockNumber l) \<and> unat (Log_BlockNumber l) < lo) chain = []"
    by (induction chain) auto
  then show ?thesis by (simp only: logsIn_def) simp
qed

lemma filter_split_mset:
  assumes "\<And>x. x \<in> set xs \<Longrightarrow> R x \<longleftrightarrow> P x \<or> Q x" "\<And>x. x \<in> set xs \<Longrightarrow> \<not> (P x \<and> Q x)"
  shows "mset (filter R xs) = mset (filter P xs) + mset (filter Q xs)"
  using assms by (induction xs) auto

lemma logsIn_append:
  assumes "distinct (map logKey chain)" "lo \<le> m" "m \<le> hi"
  shows "logsIn chain lo hi = logsIn chain lo m @ logsIn chain m hi"
  unfolding logsIn_def [of _ lo hi]
proof (rule sort_key_inj_key_eq)
  show "mset (filter (\<lambda>l. lo \<le> unat (Log_BlockNumber l) \<and> unat (Log_BlockNumber l) < hi) chain) =
      mset (logsIn chain lo m @ logsIn chain m hi)"
    unfolding logsIn_def mset_append mset_sort by (rule filter_split_mset) (use assms in auto)
  show "inj_on logKey (set (filter (\<lambda>l. lo \<le> unat (Log_BlockNumber l) \<and> unat (Log_BlockNumber l) < hi) chain))"
    using assms(1) by (auto simp: distinct_map intro: inj_on_subset)
  have "logKey x \<le> logKey y" if "x \<in> set (logsIn chain lo m)" "y \<in> set (logsIn chain m hi)" for x y
    using that by (auto simp: logsIn_def logKey_def less_eq_prod_def word_less_nat_alt)
  then show "sorted (map logKey (logsIn chain lo m @ logsIn chain m hi))"
    by (auto simp: sorted_append) (simp_all add: logsIn_def)
qed

lemma logsIn_fetched:
  assumes "distinct (map logKey chain)"
    "mset logs = mset (filter (\<lambda>l. a \<le> Log_BlockNumber l \<and> Log_BlockNumber l \<le> e) chain)"
  shows "sort_key logKey logs = logsIn chain (unat a) (unat e + 1)"
proof (rule sort_key_inj_key_eq)
  show m: "mset logs = mset (logsIn chain (unat a) (unat e + 1))"
    using assms(2) by (simp add: logsIn_def word_le_nat_alt less_Suc_eq_le)
  show "inj_on logKey (set logs)"
    using assms(1) mset_eq_setD [OF m] by (auto simp: distinct_map logsIn_def intro: inj_on_subset)
  show "sorted (map logKey (logsIn chain (unat a) (unat e + 1)))" by (simp add: logsIn_def)
qed

lemma FetchLogs_chain_rule:
  assumes ok: "batch_ok bs" "unat toBlock + unat (maxSize bs) < 2 ^ 64" "fromBlock \<le> toBlock"
    and chain: "distinct (map logKey chain)"
    and node: "\<And>a e w logs w'. filterLogs c address topics a e w = (Inr logs, w') \<Longrightarrow>
      mset logs = mset (filter (\<lambda>l. a \<le> Log_BlockNumber l \<and> Log_BlockNumber l \<le> e) chain)"
    and step: "\<And>n e bl w st w' st'. P n st \<Longrightarrow> n \<le> unat e \<Longrightarrow> groupedLogs bl = logsIn chain n (unat e + 1) \<Longrightarrow>
      cb e bl (w, st) = (Inr (), w', st') \<Longrightarrow> P (unat e + 1) st'"
    and init: "P (unat fromBlock) st"
    and run: "FetchLogs fuel c address topics cb fromBlock toBlock (bs, w, st) = Some (Inr (), bs', w', st')"
  shows "P (unat toBlock + 1) st'"
proof (rule FetchLogs_rule [where P = P, OF _ ok(1,2) _ init run])
  show "unat fromBlock \<le> unat toBlock + 1" using ok(3) by (simp add: word_le_nat_alt)
  fix a e w st logs w1 bl w2 w3 st3
  assume P: "P (unat a) st" and ae: "a \<le> e" and "e \<le> toBlock"
    and f: "fetchLogsBatch c address a e topics w = (Inr logs, w1)"
    and p: "packLogs c logs w1 = (Inr bl, w2)" and k: "cb e bl (w2, st) = (Inr (), w3, st3)"
  have "mset logs = mset (filter (\<lambda>l. a \<le> Log_BlockNumber l \<and> Log_BlockNumber l \<le> e) chain)"
    using f node by (rule fetchLogsBatch_Inr)
  then have "groupedLogs bl = logsIn chain (unat a) (unat e + 1)"
    using packLogs_Inr [OF p] logsIn_fetched [OF chain, of logs a e] by auto
  then show "P (unat e + 1) st3" using P ae k step by (simp add: word_le_nat_alt)
qed

lemma FetchLogs_delivers:
  assumes "batch_ok bs" "unat toBlock + unat (maxSize bs) < 2 ^ 64" "fromBlock \<le> toBlock"
    and "distinct (map logKey chain)"
    and "\<And>a e w logs w'. filterLogs c address topics a e w = (Inr logs, w') \<Longrightarrow>
      mset logs = mset (filter (\<lambda>l. a \<le> Log_BlockNumber l \<and> Log_BlockNumber l \<le> e) chain)"
    and "\<And>e bl w st w' st'. cb e bl (w, st) = (Inr (), w', st') \<Longrightarrow> hist st' = hist st @ [(e, bl)]"
    and "hist st = []"
    and "FetchLogs fuel c address topics cb fromBlock toBlock (bs, w, st) = Some (Inr (), bs', w', st')"
  shows "concat (map (groupedLogs \<circ> snd) (hist st')) = logsIn chain (unat fromBlock) (unat toBlock + 1) \<and>
    hist st' \<noteq> [] \<and> fst (last (hist st')) = toBlock"
proof -
  define P where "P n st \<longleftrightarrow> unat fromBlock \<le> n \<and>
      concat (map (groupedLogs \<circ> snd) (hist st)) = logsIn chain (unat fromBlock) n \<and>
      (n = unat fromBlock \<or> hist st \<noteq> [] \<and> unat (fst (last (hist st))) + 1 = n)" for n st
  have "P (unat toBlock + 1) st'"
  proof (rule FetchLogs_chain_rule [where P = P, OF assms(1-5) _ _ assms(8)])
    show "P (unat fromBlock) st" using assms(7) by (simp add: P_def)
    fix n e bl w st w' st'
    assume P: "P n st" and n: "n \<le> unat e" and g: "groupedLogs bl = logsIn chain n (unat e + 1)"
      and k: "cb e bl (w, st) = (Inr (), w', st')"
    show "P (unat e + 1) st'"
      using P n g assms(6) [OF k] logsIn_append [OF assms(4), of "unat fromBlock" n "unat e + 1"]
      by (simp add: P_def)
  qed
  then show ?thesis using assms(3) by (auto simp: P_def word_le_nat_alt word_unat_eq_iff)
qed

text \<open>C21: if the node answers each range query with the matching logs of one chain, in any
  order, a call of \<open>FetchLogs\<close> that succeeds has handed its callback every log of the
  requested range exactly once, in chain order across all batches, whatever errors made it
  shrink its batches, and the last batch it delivered ends at the last block.\<close>

theorem fetch_logs_exact:
  assumes "batch_ok bs" "unat toBlock + unat (maxSize bs) < 2 ^ 64" "fromBlock \<le> toBlock"
    and "distinct (map logKey chain)"
    and "\<And>a e w logs w'. filterLogs c address topics a e w = (Inr logs, w') \<Longrightarrow>
      mset logs = mset (filter (\<lambda>l. a \<le> Log_BlockNumber l \<and> Log_BlockNumber l \<le> e) chain)"
    and "\<And>e bl w st w' st'. cb e bl (w, st) = (Inr (), w', st') \<Longrightarrow> hist st' = hist st @ [(e, bl)]"
    and "hist st = []"
    and "FetchLogs fuel c address topics cb fromBlock toBlock (bs, w, st) = Some (Inr (), bs', w', st')"
  shows "concat (map (groupedLogs \<circ> snd) (hist st')) = logsIn chain (unat fromBlock) (unat toBlock + 1) \<and>
    hist st' \<noteq> [] \<and> fst (last (hist st')) = toBlock"
  using assms by (rule FetchLogs_delivers)

definition sampleLog :: "u64 \<Rightarrow> u64 \<Rightarrow> Log" where
  "sampleLog b i = \<lparr>Log_Topics = [], Log_Data = [], Log_BlockNumber = b, Log_TxHash = [],
     Log_TxIndex = 0, Log_BlockHash = [], Log_Index = i\<rparr>"

definition sampleChain :: "Log list" where
  "sampleChain = [sampleLog 7 0, sampleLog 5 1, sampleLog 5 0]"

definition sampleClient :: "nat execClient" where
  "sampleClient = \<lparr>filterLogs = (\<lambda>addr topics a e w.
       (Inr (filter (\<lambda>l. a \<le> Log_BlockNumber l \<and> Log_BlockNumber l \<le> e) sampleChain), w)),
     batchHeaders = (\<lambda>bs w. (Inr (map (\<lambda>b. Inr (uint b)) bs), w)),
     headerFinalized = retS 7, headerLatest = retS 7, chainIDCall = retS 1,
     timerOf = sampleTimer, retryConfig = DefaultRetryConfig\<rparr>"

definition sampleCallback :: "(nat, (u64 \<times> BlockLogs list) list) callback" where
  "sampleCallback e bl x = (Inr (), fst x, snd x @ [(e, bl)])"

lemma sample_batch_1:
  "fetchLogsBatch sampleClient [] 4 5 [] w = (Inr [sampleLog 5 1, sampleLog 5 0], w)"
  "fetchLogsBatch sampleClient [] 6 7 [] w = (Inr [sampleLog 7 0], w)"
  by (simp_all add: fetchLogsBatch_def WithRetry_ok sampleClient_def sampleChain_def sampleLog_def)

lemma sample_pack:
  "packLogs sampleClient [sampleLog 5 1, sampleLog 5 0] w =
     (Inr [\<lparr>BL_BlockNumber = 5, BL_BlockTime = 5, BL_Logs = [sampleLog 5 0, sampleLog 5 1]\<rparr>], w)"
  "packLogs sampleClient [sampleLog 7 0] w =
     (Inr [\<lparr>BL_BlockNumber = 7, BL_BlockTime = 7, BL_Logs = [sampleLog 7 0]\<rparr>], w)"
  by (simp_all add: packLogs_def opS_simps getBlockTimestampsBatch_def timesFrom.simps WithRetry_ok
      sampleClient_def sampleLog_def blockTimestampMaxBatchSize_def groupLogsByBlock_def logKey_def
      Let_def)

lemma sample_ctx: "ctxDone (timerOf sampleClient) w = False"
  by (simp add: sampleClient_def sampleTimer_def)

lemma sampleFetch_returns:
  "\<exists>bs' w' st'. FetchLogs (Suc (Suc (Suc 0))) sampleClient [] [] sampleCallback 4 7 (NewAdaptiveBatchSize 2 2, 0, []) =
   Some (Inr (), bs', w', st')"
  by (simp add: NewAdaptiveBatchSize_def sample_ctx batchEndOf_def Get_def Increase_def
      sample_batch_1 sample_pack sampleCallback_def)

theorem fetch_logs_exact_witness:
  "\<exists>bs' w' st'. FetchLogs (Suc (Suc (Suc 0))) sampleClient [] [] sampleCallback 4 7 (NewAdaptiveBatchSize 2 2, 0, []) =
       Some (Inr (), bs', w', st') \<and>
     concat (map (groupedLogs \<circ> snd) st') = logsIn sampleChain (unat (4::u64)) (unat (7::u64) + 1) \<and>
     fst (last st') = 7"
proof -
  obtain bs' w' st' where f: "FetchLogs (Suc (Suc (Suc 0))) sampleClient [] [] sampleCallback 4 7
      (NewAdaptiveBatchSize 2 2, 0, []) = Some (Inr (), bs', w', st')"
    using sampleFetch_returns by auto
  have "concat (map (groupedLogs \<circ> snd) st') = logsIn sampleChain (unat (4::u64)) (unat (7::u64) + 1) \<and>
      st' \<noteq> [] \<and> fst (last st') = 7"
  proof (rule fetch_logs_exact [where hist = "\<lambda>h. h", OF _ _ _ _ _ _ _ f])
    show "batch_ok (NewAdaptiveBatchSize 2 2)" by (simp add: NewAdaptiveBatchSize_ok)
    show "unat (7::u64) + unat (maxSize (NewAdaptiveBatchSize 2 2)) < 2 ^ 64"
      by (simp add: NewAdaptiveBatchSize_def)
    show "distinct (map logKey sampleChain)" by (simp add: sampleChain_def sampleLog_def logKey_def)
  qed (auto simp: sampleClient_def sampleCallback_def)
  with f show ?thesis by blast
qed

lemma FetchLogs_returns:
  assumes small: "\<And>a e w. a \<le> e \<Longrightarrow> e \<le> toBlock \<Longrightarrow> unat e - unat a < lo \<Longrightarrow>
      \<exists>logs w'. filterLogs c address topics a e w = (Inr logs, w')"
  shows "batch_ok bs \<Longrightarrow> unat (minSize bs) = lo \<Longrightarrow> unat toBlock + unat (maxSize bs) < 2 ^ 64 \<Longrightarrow>
    unat cur \<le> unat toBlock + 1 \<Longrightarrow> \<exists>fuel r. FetchLogs fuel c address topics cb cur toBlock (bs, w, st) = Some r"
proof (induction "(unat toBlock + 1 - unat cur) * 2 ^ 64 + unat (current bs)"
    arbitrary: cur bs w st rule: less_induct)
  case less
  show ?case
  proof (cases "cur \<le> toBlock")
    case False
    then show ?thesis by (intro exI [of _ "Suc 0"]) simp
  next
    case True
    define e where "e = batchEndOf bs cur toBlock"
    note e = batchEndOf_bounds [OF less.prems(1,3) True, folded e_def]
    obtain r w1 where f: "fetchLogsBatch c address cur e topics w = (r, w1)" by fastforce
    have down: "\<exists>fuel r. FetchLogs fuel c address topics cb cur toBlock (Decrease bs, w1, st) = Some r"
      if "unat (current (Decrease bs)) < unat (current bs)"
      using less.prems that by (intro less.hyps) (simp_all add: sizer.down_ok sizer.down_keeps)
    have up: "\<exists>fuel r. FetchLogs fuel c address topics cb (e + 1) toBlock (Increase bs, w', st') = Some r" for w' st'
      using less.prems e unsigned_less [of "current (Increase bs)", where ?'a = nat]
      by (intro less.hyps) (simp_all add: sizer.up_ok sizer.up_keeps word_le_nat_alt)
    show ?thesis
    proof (cases r)
      case (Inl err)
      have "\<not> unat e - unat cur < lo"
        using small [OF e(1,2), of w] f Inl WithRetry_ok
        by (fastforce simp: fetchLogsBatch_def wrapS_def split: prod.splits sum.splits)
      then have "unat (minSize bs) < unat (current bs)"
        using e less.prems(2) by (simp add: word_le_nat_alt)
      from down [OF sizer.down_progress [OF less.prems(1) this]] obtain fuel r' where
        "FetchLogs fuel c address topics cb cur toBlock (Decrease bs, w1, st) = Some r'" by blast
      then show ?thesis using f Inl True by (intro exI [of _ "Suc fuel"]) (cases r', simp add: e_def)
    next
      case (Inr logs)
      obtain p w2 where p: "packLogs c logs w1 = (p, w2)" by fastforce
      show ?thesis
      proof (cases p)
        case (Inl err)
        then show ?thesis using f p Inr True by (intro exI [of _ "Suc 0"]) (simp add: e_def)
      next
        case (Inr bl)
        obtain k w3 st3 where k: "cb e bl (w2, st) = (k, w3, st3)" by (metis prod_cases3)
        from up [of w3 st3] obtain fuel r' where
          "FetchLogs fuel c address topics cb (e + 1) toBlock (Increase bs, w3, st3) = Some r'" by blast
        then show ?thesis using f p k Inr \<open>r = Inr logs\<close> True
          by (intro exI [of _ "Suc fuel"]) (cases r', simp add: e_def split: sum.splits)
      qed
    qed
  qed
qed

text \<open>C22: if the node serves every range of at most the minimum batch size, the loop ends:
  some number of iterations is enough for \<open>FetchLogs\<close> to return, whatever the node does on
  larger ranges and whatever the callback returns.\<close>

theorem fetch_logs_terminates:
  assumes "batch_ok bs" "unat toBlock + unat (maxSize bs) < 2 ^ 64" "fromBlock \<le> toBlock"
    and "\<And>a e w. a \<le> e \<Longrightarrow> e \<le> toBlock \<Longrightarrow> unat e - unat a < unat (minSize bs) \<Longrightarrow>
      \<exists>logs w'. filterLogs c address topics a e w = (Inr logs, w')"
  shows "\<exists>fuel r. FetchLogs fuel c address topics cb fromBlock toBlock (bs, w, st) = Some r"
  using assms by (intro FetchLogs_returns [OF assms(4)]) (simp_all add: word_le_nat_alt)

theorem fetch_logs_terminates_witness:
  "\<exists>fuel r. FetchLogs fuel sampleClient [] [] sampleCallback 4 7 (NewAdaptiveBatchSize 2 2, 0, []) = Some r"
  by (rule fetch_logs_terminates)
     (simp_all add: NewAdaptiveBatchSize_ok sampleClient_def, simp add: NewAdaptiveBatchSize_def)

section \<open>Misread error texts\<close>

lemma contains_iff: "contains s p \<longleftrightarrow> (\<exists>a b. s = a @ p @ b)"
proof (induction s)
  case Nil
  then show ?case by auto
next
  case (Cons x s)
  have "hasPrefix (x # s) p \<longleftrightarrow> (\<exists>b. x # s = p @ b)"
    unfolding hasPrefix_def by (metis append_eq_conv_conj append_take_drop_id)
  with Cons show ?case by (simp add: Cons_eq_append_conv) (metis append.assoc append_Cons append_Nil neq_Nil_conv)
qed

lemma contains_toLower: "contains s p \<Longrightarrow> toLower p = p \<Longrightarrow> contains (toLower s) p"
  unfolding contains_iff by (metis map_append toLower_def)

lemma contains_middle: "contains s p \<Longrightarrow> contains (a @ s @ b) p"
  unfolding contains_iff by (metis append.assoc)

lemma rate_limit_text: "contains (errText e) ''429'' \<Longrightarrow> categorizeBatchError e \<noteq> errCategoryNone"
proof -
  assume "contains (errText e) ''429''"
  moreover have "toLower ''429'' = ''429''" by code_simp
  ultimately have "contains (toLower (errText e)) ''429''" by (rule contains_toLower)
  then show ?thesis by (simp add: categorizeBatchError_def Let_def)
qed

lemma fetchLogsBatch_fails:
  assumes "\<And>w. \<exists>w'. filterLogs c address topics a b w = (Inl e, w')"
  shows "\<exists>err w'. fetchLogsBatch c address a b topics w =
    (Inl (Wrap (''fetch logs ['' @ dec (unat a) @ ''-'' @ dec (unat b) @ '']'') err), w')"
  using retryLoop_fails [of "filterLogs c address topics a b" e None "timerOf c" "retryConfig c"
      "MaxRetries (retryConfig c)" 0 w] assms
  by (auto simp: fetchLogsBatch_def WithRetry_def wrapS_def retriable_def)

text \<open>C39: \<open>fetchLogsBatch\<close> puts the block range into the text of the error it returns, and
  \<open>FetchLogs\<close> looks for HTTP status codes in that text. If the decimal form of the first
  block contains 429, an error that has nothing to do with batch sizes (any error value
  \<open>e\<close>, returned by the node for every range) is taken for a rate limit and the loop
  retries for ever: no number of iterations returns, as long as the context is not
  cancelled.\<close>

theorem fetch_logs_spins_on_429:
  assumes "contains (dec (unat fromBlock)) ''429''" "fromBlock \<le> toBlock"
    and "\<And>a b w. \<exists>w'. filterLogs c address topics a b w = (Inl e, w')"
    and "\<And>w. \<not> ctxDone (timerOf c) w"
  shows "FetchLogs fuel c address topics cb fromBlock toBlock (bs, w, st) = None"
proof (induction fuel arbitrary: bs w)
  case 0
  then show ?case by simp
next
  case (Suc fuel)
  obtain err w1 where f: "fetchLogsBatch c address fromBlock (batchEndOf bs fromBlock toBlock) topics w =
      (Inl (Wrap (''fetch logs ['' @ dec (unat fromBlock) @ ''-'' @
         dec (unat (batchEndOf bs fromBlock toBlock)) @ '']'') err), w1)" (is "_ = (Inl ?e, w1)")
    using fetchLogsBatch_fails [OF assms(3)] by blast
  have "contains (errText ?e) ''429''"
    using contains_middle [OF assms(1), of "''fetch logs [''"] by simp
  then have "categorizeBatchError ?e \<noteq> errCategoryNone" by (rule rate_limit_text)
  with f Suc assms(2,4) show ?case by simp
qed

definition refusingClient :: "nat execClient" where
  "refusingClient = sampleClient\<lparr>filterLogs := (\<lambda>addr topics a e w. (Inl (ErrNew ''connection refused''), w))\<rparr>"

lemma refused_is_not_a_batch_error:
  "categorizeBatchError (ErrNew ''connection refused'') = errCategoryNone"
  by code_simp

theorem fetch_logs_spins_on_429_witness:
  "\<forall>fuel. FetchLogs fuel refusingClient [] [] sampleCallback 22429000 22429999
     (NewAdaptiveBatchSize 0 0, 0, []) = None"
proof
  fix fuel
  show "FetchLogs fuel refusingClient [] [] sampleCallback 22429000 22429999
      (NewAdaptiveBatchSize 0 0, 0, []) = None"
  proof (rule fetch_logs_spins_on_429)
    show "contains (dec (unat (22429000::u64))) ''429''"
      by (simp add: dec.simps digitChar_def hasPrefix_def, code_simp)
  qed (auto simp: refusingClient_def sampleClient_def sampleTimer_def)
qed

end
