(* ===== verification/Syncer.thy ===== *)
theory Syncer
  imports Execution Storage
begin

text \<open>
  The event syncer of \<^verbatim>\<open>eth/syncer\<close>: parsing of contract logs, the handlers that
  write them to the storage, the transaction per batch, the fetch pipeline and the overlay of
  the chain head. Keccak-256 and the ABI decoder of go-ethereum are parameters.
\<close>

section \<open>Events\<close>

record cluster =
  C_ValidatorCount :: u32
  C_NetworkFeeIndex :: u64
  C_Index :: u64
  C_Active :: bool
  C_Balance :: int

datatype eventData =
    validatorAddedEvent (Owner: bytes) (OperatorIDs: "u64 list") (PublicKey: bytes) (Shares: bytes)
      (Cluster: cluster)
  | validatorRemovedEvent (Owner: bytes) (OperatorIDs: "u64 list") (PublicKey: bytes)
      (Cluster: cluster)
  | clusterLiquidatedEvent (Owner: bytes) (OperatorIDs: "u64 list") (Cluster: cluster)
  | clusterReactivatedEvent (Owner: bytes) (OperatorIDs: "u64 list") (Cluster: cluster)
  | clusterWithdrawnEvent (Owner: bytes) (OperatorIDs: "u64 list") (Value: int) (Cluster: cluster)
  | clusterDepositedEvent (Owner: bytes) (OperatorIDs: "u64 list") (Value: int) (Cluster: cluster)
  | clusterMigratedToETHEvent (Owner: bytes) (OperatorIDs: "u64 list") (ETHDeposited: int)
      (SSVRefunded: int) (EffectiveBalance: u32) (Cluster: cluster)
  | clusterBalanceUpdatedEvent (Owner: bytes) (OperatorIDs: "u64 list") (BlockNum: u64)
      (EffectiveBalance: u32) (Cluster: cluster)

text \<open>\<open>clusterKey()\<close> of the interface \<open>clusterEvent\<close>, implemented by every event.\<close>

definition clusterKey :: "eventData \<Rightarrow> bytes \<times> u64 list" where
  "clusterKey e = (Owner e, OperatorIDs e)"

definition stringBytes :: "string \<Rightarrow> bytes" where
  "stringBytes s = map of_char s"

text \<open>The topic of an event is the hash of its signature.\<close>

definition eventSignatures :: "(string \<times> string) list" where
  "eventSignatures =
    [(''ValidatorAdded'', ''ValidatorAdded(address,uint64[],bytes,bytes,(uint32,uint64,uint64,bool,uint256))''),
     (''ValidatorRemoved'', ''ValidatorRemoved(address,uint64[],bytes,(uint32,uint64,uint64,bool,uint256))''),
     (''ClusterLiquidated'', ''ClusterLiquidated(address,uint64[],(uint32,uint64,uint64,bool,uint256))''),
     (''ClusterReactivated'', ''ClusterReactivated(address,uint64[],(uint32,uint64,uint64,bool,uint256))''),
     (''ClusterWithdrawn'', ''ClusterWithdrawn(address,uint64[],uint256,(uint32,uint64,uint64,bool,uint256))''),
     (''ClusterDeposited'', ''ClusterDeposited(address,uint64[],uint256,(uint32,uint64,uint64,bool,uint256))''),
     (''ClusterMigratedToETH'', ''ClusterMigratedToETH(address,uint64[],uint256,uint256,uint32,(uint32,uint64,uint64,bool,uint256))''),
     (''ClusterBalanceUpdated'', ''ClusterBalanceUpdated(address,uint64[],uint64,uint32,(uint32,uint64,uint64,bool,uint256))'')]"

definition eventSig :: "(bytes \<Rightarrow> bytes) \<Rightarrow> string \<Rightarrow> bytes option" where
  "eventSig keccak name = map_option (\<lambda>s. keccak (stringBytes s)) (map_of eventSignatures name)"

definition handledEvents :: "string list" where
  "handledEvents = [''ValidatorAdded'', ''ValidatorRemoved'', ''ClusterLiquidated'',
     ''ClusterReactivated'', ''ClusterWithdrawn'', ''ClusterDeposited'', ''ClusterMigratedToETH'',
     ''ClusterBalanceUpdated'']"

text \<open>
  The contract's ABI: the identifier of each event, and the decoder of an event's data. The
  decoder returns the text of its error or the fields of the result struct of the parser.
\<close>

record abi =
  abiEvents :: "string \<rightharpoonup> bytes"
  unpackValidatorAdded :: "bytes \<Rightarrow> string + (u64 list \<times> bytes \<times> bytes \<times> cluster)"
  unpackValidatorRemoved :: "bytes \<Rightarrow> string + (u64 list \<times> bytes \<times> cluster)"
  unpackClusterLiquidated :: "bytes \<Rightarrow> string + (u64 list \<times> cluster)"
  unpackClusterReactivated :: "bytes \<Rightarrow> string + (u64 list \<times> cluster)"
  unpackClusterWithdrawn :: "bytes \<Rightarrow> string + (u64 list \<times> int \<times> cluster)"
  unpackClusterDeposited :: "bytes \<Rightarrow> string + (u64 list \<times> int \<times> cluster)"
  unpackClusterMigratedToETH :: "bytes \<Rightarrow> string + (u64 list \<times> int \<times> int \<times> u32 \<times> cluster)"
  unpackClusterBalanceUpdated :: "bytes \<Rightarrow> string + (u64 list \<times> u32 \<times> cluster)"

text \<open>\<open>EventTopics\<close>; a handled event missing from the ABI is a panic, here \<open>None\<close>.\<close>

definition EventTopics :: "abi \<Rightarrow> bytes list option" where
  "EventTopics a = those (map (abiEvents a) handledEvents)"

section \<open>Cluster identifiers\<close>

definition be8 :: "u64 \<Rightarrow> bytes" where
  "be8 x = map (\<lambda>i. of_nat (unat x div 256 ^ i mod 256)) [7, 6, 5, 4, 3, 2, 1, 0]"

text \<open>\<open>new(big.Int).SetUint64(id).FillBytes\<close> of 32 bytes.\<close>

definition idBytes :: "u64 \<Rightarrow> bytes" where
  "idBytes x = replicate 24 0 @ be8 x"

definition computeClusterID :: "(bytes \<Rightarrow> bytes) \<Rightarrow> bytes \<Rightarrow> u64 list \<Rightarrow> bytes" where
  "computeClusterID keccak owner operatorIDs =
     keccak (owner @ concat (map idBytes (sort operatorIDs)))"

definition computeClusterIDFromEvent :: "(bytes \<Rightarrow> bytes) \<Rightarrow> eventData \<Rightarrow> bytes" where
  "computeClusterIDFromEvent keccak e =
     (let (owner, operatorIDs) = clusterKey e in computeClusterID keccak owner operatorIDs)"

section \<open>Parsing\<close>

definition errUnknownEvent :: goerror where
  "errUnknownEvent = ErrNew ''unknown event signature''"

text \<open>\<open>common.BytesToAddress\<close> keeps the last 20 bytes; \<open>Big().Uint64()\<close> the low 64
  bits of a big-endian number.\<close>

definition bytesToAddress :: "bytes \<Rightarrow> bytes" where
  "bytesToAddress b = replicate (20 - length b) 0 @ drop (length b - 20) b"

definition bigUint64 :: "bytes \<Rightarrow> u64" where
  "bigUint64 b = foldl (\<lambda>acc x. acc * 256 + ucast x) 0 b"

definition ownerTopic :: "Log \<Rightarrow> goerror + bytes" where
  "ownerTopic log =
     (case Log_Topics log of
        _ # t # _ \<Rightarrow> Inr (bytesToAddress t)
      | _ \<Rightarrow> Inl (ErrNew ''missing owner topic''))"

definition unpackInto :: "string \<Rightarrow> string + 'a \<Rightarrow> goerror + 'a" where
  "unpackInto name r = (case r of Inl msg \<Rightarrow> Inl (Wrap (''unpack '' @ name) (LibErr msg)) | Inr x \<Rightarrow> Inr x)"

definition bindE :: "goerror + 'a \<Rightarrow> ('a \<Rightarrow> goerror + 'b) \<Rightarrow> goerror + 'b" where
  "bindE m f = (case m of Inl e \<Rightarrow> Inl e | Inr x \<Rightarrow> f x)"

definition parseValidatorAdded :: "abi \<Rightarrow> Log \<Rightarrow> goerror + eventData" where
  "parseValidatorAdded a log =
     bindE (ownerTopic log) (\<lambda>owner.
     bindE (unpackInto ''ValidatorAdded'' (unpackValidatorAdded a (Log_Data log)))
       (\<lambda>(ids, pk, shares, cl). Inr (validatorAddedEvent owner ids pk shares cl)))"

definition parseValidatorRemoved :: "abi \<Rightarrow> Log \<Rightarrow> goerror + eventData" where
  "parseValidatorRemoved a log =
     bindE (ownerTopic log) (\<lambda>owner.
     bindE (unpackInto ''ValidatorRemoved'' (unpackValidatorRemoved a (Log_Data log)))
       (\<lambda>(ids, pk, cl). Inr (validatorRemovedEvent owner ids pk cl)))"

definition parseClusterLiquidated :: "abi \<Rightarrow> Log \<Rightarrow> goerror + eventData" where
  "parseClusterLiquidated a log =
     bindE (ownerTopic log) (\<lambda>owner.
     bindE (unpackInto ''ClusterLiquidated'' (unpackClusterLiquidated a (Log_Data log)))
       (\<lambda>(ids, cl). Inr (clusterLiquidatedEvent owner ids cl)))"

definition parseClusterReactivated :: "abi \<Rightarrow> Log \<Rightarrow> goerror + eventData" where
  "parseClusterReactivated a log =
     bindE (ownerTopic log) (\<lambda>owner.
     bindE (unpackInto ''ClusterReactivated'' (unpackClusterReactivated a (Log_Data log)))
       (\<lambda>(ids, cl). Inr (clusterReactivatedEvent owner ids cl)))"

definition parseClusterWithdrawn :: "abi \<Rightarrow> Log \<Rightarrow> goerror + eventData" where
  "parseClusterWithdrawn a log =
     bindE (ownerTopic log) (\<lambda>owner.
     bindE (unpackInto ''ClusterWithdrawn'' (unpackClusterWithdrawn a (Log_Data log)))
       (\<lambda>(ids, v, cl). Inr (clusterWithdrawnEvent owner ids v cl)))"

definition parseClusterDeposited :: "abi \<Rightarrow> Log \<Rightarrow> goerror + eventData" where
  "parseClusterDeposited a log =
     bindE (ownerTopic log) (\<lambda>owner.
     bindE (unpackInto ''ClusterDeposited'' (unpackClusterDeposited a (Log_Data log)))
       (\<lambda>(ids, v, cl). Inr (clusterDepositedEvent owner ids v cl)))"

definition parseClusterMigratedToETH :: "abi \<Rightarrow> Log \<Rightarrow> goerror + eventData" where
  "parseClusterMigratedToETH a log =
     bindE (ownerTopic log) (\<lambda>owner.
     bindE (unpackInto ''ClusterMigratedToETH'' (unpackClusterMigratedToETH a (Log_Data log)))
       (\<lambda>(ids, eth, ssv, eb, cl). Inr (clusterMigratedToETHEvent owner ids eth ssv eb cl)))"

definition parseClusterBalanceUpdated :: "abi \<Rightarrow> Log \<Rightarrow> goerror + eventData" where
  "parseClusterBalanceUpdated a log =
     (case Log_Topics log of
        _ # t1 # t2 # _ \<Rightarrow>
          bindE (unpackInto ''ClusterBalanceUpdated'' (unpackClusterBalanceUpdated a (Log_Data log)))
            (\<lambda>(ids, eb, cl).
               Inr (clusterBalanceUpdatedEvent (bytesToAddress t1) ids (bigUint64 t2) eb cl))
      | _ \<Rightarrow> Inl (ErrNew ''missing indexed topics (owner, blockNum)''))"

text \<open>\<open>parseLog\<close>: the name of the event and its data.\<close>

definition withName :: "string \<Rightarrow> goerror + eventData \<Rightarrow> goerror + (string \<times> eventData)" where
  "withName name r = (case r of Inl e \<Rightarrow> Inl e | Inr d \<Rightarrow> Inr (name, d))"

definition parseLog :: "(bytes \<Rightarrow> bytes) \<Rightarrow> abi \<Rightarrow> Log \<Rightarrow> goerror + (string \<times> eventData)" where
  "parseLog keccak a log =
     (case Log_Topics log of
        [] \<Rightarrow> Inl (ErrNew ''log has no topics'')
      | sig # _ \<Rightarrow>
          if Some sig = eventSig keccak ''ValidatorAdded''
          then withName ''ValidatorAdded'' (parseValidatorAdded a log)
          else if Some sig = eventSig keccak ''ValidatorRemoved''
          then withName ''ValidatorRemoved'' (parseValidatorRemoved a log)
          else if Some sig = eventSig keccak ''ClusterLiquidated''
          then withName ''ClusterLiquidated'' (parseClusterLiquidated a log)
          else if Some sig = eventSig keccak ''ClusterReactivated''
          then withName ''ClusterReactivated'' (parseClusterReactivated a log)
          else if Some sig = eventSig keccak ''ClusterWithdrawn''
          then withName ''ClusterWithdrawn'' (parseClusterWithdrawn a log)
          else if Some sig = eventSig keccak ''ClusterDeposited''
          then withName ''ClusterDeposited'' (parseClusterDeposited a log)
          else if Some sig = eventSig keccak ''ClusterMigratedToETH''
          then withName ''ClusterMigratedToETH'' (parseClusterMigratedToETH a log)
          else if Some sig = eventSig keccak ''ClusterBalanceUpdated''
          then withName ''ClusterBalanceUpdated'' (parseClusterBalanceUpdated a log)
          else Inl (Wrap2 errUnknownEvent (LibErr (''0x'' @ hex sig))))"

section \<open>Handlers\<close>

definition rowOfEvent :: "bytes \<Rightarrow> u64 list \<Rightarrow> bytes \<Rightarrow> cluster \<Rightarrow> ClusterRow" where
  "rowOfEvent owner operatorIDs clusterID c =
     \<lparr>Row_ClusterID = clusterID, Row_OwnerAddress = owner, Row_OperatorIDs = operatorIDs,
       Row_ValidatorCount = C_ValidatorCount c, Row_NetworkFeeIndex = C_NetworkFeeIndex c,
       Row_Index = C_Index c, Row_IsActive = C_Active c, Row_Balance = C_Balance c\<rparr>"

definition upsertClusterFromEvent :: "bytes \<Rightarrow> u64 list \<Rightarrow> bytes \<Rightarrow> cluster \<Rightarrow> (store, unit) op" where
  "upsertClusterFromEvent owner operatorIDs clusterID c =
     upsertCluster (rowOfEvent owner operatorIDs clusterID c)"

definition handleValidatorAdded :: "eventData \<Rightarrow> bytes \<Rightarrow> (store, unit) op" where
  "handleValidatorAdded e clusterID =
     bindS (upsertCluster (rowOfEvent (Owner e) (OperatorIDs e) clusterID (Cluster e)))
       (\<lambda>_. insertValidator clusterID (PublicKey e))"

definition handleValidatorRemoved :: "eventData \<Rightarrow> bytes \<Rightarrow> (store, unit) op" where
  "handleValidatorRemoved e clusterID =
     bindS (deleteValidator clusterID (PublicKey e))
       (\<lambda>_. upsertClusterFromEvent (Owner e) (OperatorIDs e) clusterID (Cluster e))"

text \<open>The other six handlers (\<open>handleClusterLiquidated\<close>, \<open>-Reactivated\<close>, \<open>-Withdrawn\<close>,
  \<open>-Deposited\<close>, \<open>-MigratedToETH\<close>, \<open>-BalanceUpdated\<close>) have this one body.\<close>

definition handleClusterEvent :: "eventData \<Rightarrow> bytes \<Rightarrow> (store, unit) op" where
  "handleClusterEvent e clusterID =
     upsertClusterFromEvent (Owner e) (OperatorIDs e) clusterID (Cluster e)"

definition applyEvent :: "string \<Rightarrow> eventData \<Rightarrow> bytes \<Rightarrow> (store, unit) op" where
  "applyEvent eventType e clusterID =
     (if eventType = ''ValidatorAdded'' then handleValidatorAdded e clusterID
      else if eventType = ''ValidatorRemoved'' then handleValidatorRemoved e clusterID
      else if eventType \<in> {''ClusterLiquidated'', ''ClusterReactivated'', ''ClusterWithdrawn'',
                ''ClusterDeposited'', ''ClusterMigratedToETH'', ''ClusterBalanceUpdated''}
      then handleClusterEvent e clusterID
      else failS (ErrNew (''unhandled event type: '' @ eventType)))"

definition storeRawEvent :: "Log \<Rightarrow> BlockLogs \<Rightarrow> goerror \<Rightarrow> (store, unit) op" where
  "storeRawEvent log bl parseErr = insertEvent
     \<lparr>Event_EventType = ''Unknown'', Event_BlockNumber = BL_BlockNumber bl,
       Event_BlockHash = Log_BlockHash log, Event_BlockTime = BL_BlockTime bl,
       Event_TransactionHash = Log_TxHash log, Event_TransactionIndex = ucast (Log_TxIndex log),
       Event_LogIndex = ucast (Log_Index log), Event_ClusterID = None,
       Event_Error = Some (errText parseErr)\<rparr>"

definition processLog :: "(bytes \<Rightarrow> bytes) \<Rightarrow> abi \<Rightarrow> Log \<Rightarrow> BlockLogs \<Rightarrow> (store, bool) op" where
  "processLog keccak a log bl =
     (case parseLog keccak a log of
        Inl err \<Rightarrow>
          if errIs err errUnknownEvent
          then bindS (storeRawEvent log bl err) (\<lambda>_. retS False)
          else failS (Wrap (''handled event parse failure at block '' @ dec (unat (BL_BlockNumber bl)) @
                 '' tx 0x'' @ hex (Log_TxHash log) @ '' log '' @ dec (unat (Log_Index log))) err)
      | Inr (eventType, e) \<Rightarrow>
          let clusterID = computeClusterIDFromEvent keccak e in
          bindS (wrapS ''insert event'' (insertEvent
            \<lparr>Event_EventType = eventType, Event_BlockNumber = BL_BlockNumber bl,
              Event_BlockHash = Log_BlockHash log, Event_BlockTime = BL_BlockTime bl,
              Event_TransactionHash = Log_TxHash log, Event_TransactionIndex = ucast (Log_TxIndex log),
              Event_LogIndex = ucast (Log_Index log), Event_ClusterID = Some clusterID,
              Event_Error = None\<rparr>)) (\<lambda>_.
          bindS (wrapS ''apply event'' (applyEvent eventType e clusterID)) (\<lambda>_. retS True)))"

fun processBlockLogs :: "(bytes \<Rightarrow> bytes) \<Rightarrow> abi \<Rightarrow> BlockLogs \<Rightarrow> Log list \<Rightarrow> nat \<Rightarrow> (store, nat) op" where
  "processBlockLogs keccak a bl [] n = retS n"
| "processBlockLogs keccak a bl (log # logs) n =
     bindS (wrapS (''process block '' @ dec (unat (BL_BlockNumber bl)) @ '' log '' @
                     dec (unat (Log_Index log))) (processLog keccak a log bl))
       (\<lambda>known. processBlockLogs keccak a bl logs (if known then Suc n else n))"

fun processBlocks :: "(bytes \<Rightarrow> bytes) \<Rightarrow> abi \<Rightarrow> BlockLogs list \<Rightarrow> nat \<Rightarrow> (store, nat) op" where
  "processBlocks keccak a [] n = retS n"
| "processBlocks keccak a (bl # bls) n =
     bindS (processBlockLogs keccak a bl (BL_Logs bl) n) (\<lambda>n'. processBlocks keccak a bls n')"

definition processBatch ::
    "(bytes \<Rightarrow> bytes) \<Rightarrow> abi \<Rightarrow> u64 \<Rightarrow> BlockLogs list \<Rightarrow> (store, nat) op" where
  "processBatch keccak a batchEnd logs =
     (if logs = []
      then bindS (wrapS ''update sync progress'' (UpdateLastSyncedBlock batchEnd)) (\<lambda>_. retS 0)
      else withTx ''begin tx: begin transaction'' ''commit batch''
        (bindS (processBlocks keccak a logs 0) (\<lambda>knownEvents.
         bindS (wrapS ''update sync progress'' (UpdateLastSyncedBlock batchEnd))
           (\<lambda>_. retS knownEvents))))"

section \<open>The pipeline\<close>

record batchResult =
  br_batchEnd :: u64
  br_logs :: "BlockLogs list"
  br_err :: "goerror option"

record 'w EventSyncer =
  client :: "'w execClient"
  keccakOf :: "bytes \<Rightarrow> bytes"
  abiOf :: abi
  ssvContract :: bytes

definition prefetchBuffer :: nat where
  "prefetchBuffer = 2"

definition bulkSyncThreshold :: int where
  "bulkSyncThreshold = 100000"

text \<open>
  \<open>runFetcher\<close>: the sequence of values it sends on the channel, every send having
  succeeded; a send given up because the context was cancelled is a step of the pipeline
  below. The last value carries the error of \<open>FetchLogs\<close>, if any.
\<close>

definition sendBatch :: "('w, batchResult list) callback" where
  "sendBatch batchEnd logs x =
     (Inr (), fst x, snd x @ [\<lparr>br_batchEnd = batchEnd, br_logs = logs, br_err = None\<rparr>])"

definition runFetcher ::
    "nat \<Rightarrow> 'w EventSyncer \<Rightarrow> u64 \<Rightarrow> u64 \<Rightarrow> AdaptiveBatchSize \<times> 'w \<Rightarrow>
     (batchResult list \<times> AdaptiveBatchSize \<times> 'w) option" where
  "runFetcher fuel s fromBlock toBlock x =
     (case EventTopics (abiOf s) of
        None \<Rightarrow> None
      | Some topics \<Rightarrow>
          (case FetchLogs fuel (client s) (ssvContract s) topics sendBatch fromBlock toBlock
                  (fst x, snd x, []) of
             None \<Rightarrow> None
           | Some (Inr _, bs, w, sent) \<Rightarrow> Some (sent, bs, w)
           | Some (Inl err, bs, w, sent) \<Rightarrow>
               Some (sent @ [\<lparr>br_batchEnd = 0, br_logs = [], br_err = Some err\<rparr>], bs, w)))"

text \<open>The loop of \<open>SyncToBlock\<close> over the values received from the channel.\<close>

fun consume :: "(bytes \<Rightarrow> bytes) \<Rightarrow> abi \<Rightarrow> batchResult list \<Rightarrow> nat \<Rightarrow> (store, nat) op" where
  "consume keccak a [] n = retS n"
| "consume keccak a (b # bs) n =
     (case br_err b of
        Some e \<Rightarrow> failS e
      | None \<Rightarrow> bindS (processBatch keccak a (br_batchEnd b) (br_logs b))
          (\<lambda>count. consume keccak a bs (n + count)))"

definition SetSyncMode :: "(store, unit) op" where
  "SetSyncMode = query (\<lambda>_. ())"

text \<open>
  \<open>SyncToBlock\<close>, on the schedule that fetches everything before it processes; the
  pipeline of the next section has every schedule. \<open>None\<close> is a call that has not
  returned.
\<close>

definition SyncToBlock ::
    "nat \<Rightarrow> 'w EventSyncer \<Rightarrow> u64 \<Rightarrow> store \<times> AdaptiveBatchSize \<times> 'w \<Rightarrow>
     ((goerror + unit) \<times> store \<times> AdaptiveBatchSize \<times> 'w) option" where
  "SyncToBlock fuel sy targetBlock x =
     (case x of (s, bs, w) \<Rightarrow>
       (case wrapS ''get last synced block'' GetLastSyncedBlock s of
          (Inl e, s1) \<Rightarrow> Some (Inl e, s1, bs, w)
        | (Inr lastSynced, s1) \<Rightarrow>
            if targetBlock \<le> lastSynced then Some (Inr (), s1, bs, w)
            else
              let bulk = bulkSyncThreshold < sint (targetBlock - lastSynced);
                  (mode, s2) = (if bulk then SetSyncMode s1 else (Inr (), s1)) in
              (case runFetcher fuel sy (lastSynced + 1) targetBlock (bs, w) of
                 None \<Rightarrow> None
               | Some (batches, bs', w') \<Rightarrow>
                   let (r, s3) = consume (keccakOf sy) (abiOf sy) batches 0 s2;
                       s4 = (if bulk \<and> mode = Inr () then snd (SetSyncMode s3) else s3) in
                   Some (case r of
                       Inl e \<Rightarrow> Inl e
                     | Inr _ \<Rightarrow> if ctxDone (timerOf (client sy)) w' then Inl CtxErr else Inr (),
                     s4, bs', w'))))"

definition SyncToFinalized ::
    "nat \<Rightarrow> 'w EventSyncer \<Rightarrow> u64 \<Rightarrow> store \<times> AdaptiveBatchSize \<times> 'w \<Rightarrow>
     ((goerror + unit) \<times> store \<times> AdaptiveBatchSize \<times> 'w) option" where
  "SyncToFinalized fuel sy deployBlock x =
     (case x of (s, bs, w) \<Rightarrow>
       (case wrapS ''get last synced block'' GetLastSyncedBlock s of
          (Inl e, s1) \<Rightarrow> Some (Inl e, s1, bs, w)
        | (Inr lastSynced, s1) \<Rightarrow>
            (case (if lastSynced = 0
                   then wrapS ''set initial sync block'' (UpdateLastSyncedBlock (deployBlock - 1)) s1
                   else (Inr (), s1)) of
               (Inl e, s2) \<Rightarrow> Some (Inl e, s2, bs, w)
             | (Inr _, s2) \<Rightarrow>
                 (case wrapS ''get finalized block'' (GetFinalizedBlock (client sy)) w of
                    (Inl e, w1) \<Rightarrow> Some (Inl e, s2, bs, w1)
                  | (Inr finalized, w1) \<Rightarrow> SyncToBlock fuel sy finalized (s2, bs, w1)))))"

section \<open>The head overlay\<close>

type_synonym overlay = "bytes \<rightharpoonup> ClusterRow"

definition applyClusterEventToOverlay ::
    "(bytes \<Rightarrow> bytes) \<Rightarrow> overlay \<Rightarrow> bytes set \<Rightarrow> eventData \<Rightarrow> overlay" where
  "applyClusterEventToOverlay keccak ov requested e =
     (let (owner, operatorIDs) = clusterKey e;
          idArr = computeClusterID keccak owner operatorIDs
      in if idArr \<notin> requested then ov
         else ov(idArr \<mapsto> rowOfEvent owner operatorIDs idArr (Cluster e)))"

fun overlayLogs ::
    "(bytes \<Rightarrow> bytes) \<Rightarrow> abi \<Rightarrow> bytes set \<Rightarrow> Log list \<Rightarrow> overlay \<Rightarrow> (goerror + unit) \<times> overlay" where
  "overlayLogs keccak a requested [] ov = (Inr (), ov)"
| "overlayLogs keccak a requested (log # logs) ov =
     (case parseLog keccak a log of
        Inl perr \<Rightarrow>
          if errIs perr errUnknownEvent then overlayLogs keccak a requested logs ov
          else (Inl (Wrap (''parse event at block '' @ dec (unat (Log_BlockNumber log)) @ '' log '' @
                  dec (unat (Log_Index log))) perr), ov)
      | Inr (_, e) \<Rightarrow>
          overlayLogs keccak a requested logs (applyClusterEventToOverlay keccak ov requested e))"

definition overlayCallback ::
    "(bytes \<Rightarrow> bytes) \<Rightarrow> abi \<Rightarrow> bytes set \<Rightarrow> ('w, overlay) callback" where
  "overlayCallback keccak a requested batchEnd batches x =
     (let (r, ov) = overlayLogs keccak a requested (concat (map BL_Logs batches)) (snd x)
      in (r, fst x, ov))"

definition seedOverlay :: "ClusterRow list \<Rightarrow> overlay" where
  "seedOverlay rows = foldl (\<lambda>ov r. ov(copyTo 32 (Row_ClusterID r) \<mapsto> r)) Map.empty rows"

definition BuildHeadStateSnapshot ::
    "nat \<Rightarrow> 'w EventSyncer \<Rightarrow> bytes list \<Rightarrow> store \<times> AdaptiveBatchSize \<times> 'w \<Rightarrow>
     ((goerror + overlay) \<times> store \<times> AdaptiveBatchSize \<times> 'w) option" where
  "BuildHeadStateSnapshot fuel sy clusterIDs x =
     (case x of (s, bs, w) \<Rightarrow>
       (case wrapS ''get finalized clusters'' (GetFinalizedClusters clusterIDs) s of
          (Inl e, s1) \<Rightarrow> Some (Inl e, s1, bs, w)
        | (Inr (finalized, lastSynced), s1) \<Rightarrow>
            let ov = seedOverlay finalized; requested = set (map (copyTo 32) clusterIDs) in
            (case wrapS ''get head block'' (GetHeadBlock (client sy)) w of
               (Inl e, w1) \<Rightarrow> Some (Inl e, s1, bs, w1)
             | (Inr headNum, w1) \<Rightarrow>
                 if headNum \<le> lastSynced then Some (Inr ov, s1, bs, w1)
                 else (case EventTopics (abiOf sy) of
                    None \<Rightarrow> None
                  | Some topics \<Rightarrow>
                      (case FetchLogs fuel (client sy) (ssvContract sy) topics
                              (overlayCallback (keccakOf sy) (abiOf sy) requested)
                              (lastSynced + 1) headNum (bs, w1, ov) of
                         None \<Rightarrow> None
                       | Some (Inl e, bs', w', _) \<Rightarrow>
                           Some (Inl (Wrap ''fetch overlay logs'' e), s1, bs', w')
                       | Some (Inr _, bs', w', ov') \<Rightarrow> Some (Inr ov', s1, bs', w'))))))"

section \<open>What a log means\<close>

text \<open>
  The specification of the syncer: the rows of the clusters and the set of validator keys,
  and what one log does to them. Storage and overlay are compared against it.
\<close>

type_synonym netState = "(bytes \<rightharpoonup> ClusterRow) \<times> (bytes \<times> bytes) set"

definition eventOf :: "(bytes \<Rightarrow> bytes) \<Rightarrow> abi \<Rightarrow> Log \<Rightarrow> eventData option" where
  "eventOf keccak a log = (case parseLog keccak a log of Inl _ \<Rightarrow> None | Inr (_, e) \<Rightarrow> Some e)"

definition eventRow :: "(bytes \<Rightarrow> bytes) \<Rightarrow> eventData \<Rightarrow> ClusterRow" where
  "eventRow keccak e =
     rowOfEvent (Owner e) (OperatorIDs e) (computeClusterID keccak (Owner e) (OperatorIDs e)) (Cluster e)"

fun valsAfter :: "bytes \<Rightarrow> eventData \<Rightarrow> (bytes \<times> bytes) set \<Rightarrow> (bytes \<times> bytes) set" where
  "valsAfter cid (validatorAddedEvent ow ids pk sh c) vs = insert (cid, pk) vs"
| "valsAfter cid (validatorRemovedEvent ow ids pk c) vs = vs - {(cid, pk)}"
| "valsAfter cid _ vs = vs"

definition applyLog :: "(bytes \<Rightarrow> bytes) \<Rightarrow> abi \<Rightarrow> Log \<Rightarrow> netState \<Rightarrow> netState" where
  "applyLog keccak a log st =
     (case eventOf keccak a log of
        None \<Rightarrow> st
      | Some e \<Rightarrow> let r = eventRow keccak e in
          ((fst st)(Row_ClusterID r \<mapsto> r), valsAfter (Row_ClusterID r) e (snd st)))"

definition replay :: "(bytes \<Rightarrow> bytes) \<Rightarrow> abi \<Rightarrow> Log list \<Rightarrow> netState \<Rightarrow> netState" where
  "replay keccak a logs st = fold (applyLog keccak a) logs st"

definition netOf :: "tables \<Rightarrow> netState" where
  "netOf t = (findRow t, set (validators t))"

text \<open>
  A replayer handles one log at a time and may refuse; what it shows of its state follows
  the specification on every log it accepts. Then it follows it on every sequence.
\<close>

fun accepted :: "('l \<Rightarrow> 's \<Rightarrow> (goerror + 'x) \<times> 's) \<Rightarrow> 'l list \<Rightarrow> 's \<Rightarrow> 's option" where
  "accepted step [] s = Some s"
| "accepted step (l # ls) s = (case step l s of (Inl _, _) \<Rightarrow> None | (Inr _, s') \<Rightarrow> accepted step ls s')"

lemma accepted_append:
  "accepted step (xs @ ys) s = Option.bind (accepted step xs s) (accepted step ys)"
  by (induction xs arbitrary: s) (auto split: prod.splits sum.splits)

locale log_replayer =
  fixes step :: "'l \<Rightarrow> 's \<Rightarrow> (goerror + 'x) \<times> 's" and logOf :: "'l \<Rightarrow> Log"
    and view :: "netState \<Rightarrow> 'v" and look :: "'s \<Rightarrow> 'v" and effect :: "Log \<Rightarrow> netState \<Rightarrow> netState"
  assumes step_look: "step l s = (Inr x, s') \<Longrightarrow> look s = view n \<Longrightarrow> look s' = view (effect (logOf l) n)"
begin

lemma accepted_look:
  "accepted step ls s = Some s' \<Longrightarrow> look s = view n \<Longrightarrow> look s' = view (fold effect (map logOf ls) n)"
proof (induction ls arbitrary: s n)
  case (Cons l ls)
  then obtain x s1 where "step l s = (Inr x, s1)" "accepted step ls s1 = Some s'"
    by (auto split: prod.splits sum.splits)
  with Cons.IH Cons.prems(2) show ?case using step_look by fastforce
qed simp

end

section \<open>The storage follows the specification\<close>

fun eventName :: "eventData \<Rightarrow> string" where
  "eventName (validatorAddedEvent _ _ _ _ _) = ''ValidatorAdded''"
| "eventName (validatorRemovedEvent _ _ _ _) = ''ValidatorRemoved''"
| "eventName (clusterLiquidatedEvent _ _ _) = ''ClusterLiquidated''"
| "eventName (clusterReactivatedEvent _ _ _) = ''ClusterReactivated''"
| "eventName (clusterWithdrawnEvent _ _ _ _) = ''ClusterWithdrawn''"
| "eventName (clusterDepositedEvent _ _ _ _) = ''ClusterDeposited''"
| "eventName (clusterMigratedToETHEvent _ _ _ _ _ _) = ''ClusterMigratedToETH''"
| "eventName (clusterBalanceUpdatedEvent _ _ _ _ _) = ''ClusterBalanceUpdated''"

lemma withName_Inr: "withName nm r = Inr (n, e) \<longleftrightarrow> nm = n \<and> r = Inr e"
  by (auto simp: withName_def split: sum.splits)

lemma bindE_Inr: "bindE m f = Inr y \<longleftrightarrow> (\<exists>x. m = Inr x \<and> f x = Inr y)"
  by (auto simp: bindE_def split: sum.splits)

lemmas parse_defs = parseValidatorAdded_def parseValidatorRemoved_def parseClusterLiquidated_def
  parseClusterReactivated_def parseClusterWithdrawn_def parseClusterDeposited_def
  parseClusterMigratedToETH_def parseClusterBalanceUpdated_def

lemma parse_names:
  "parseValidatorAdded a l = Inr e \<Longrightarrow> eventName e = ''ValidatorAdded''"
  "parseValidatorRemoved a l = Inr e \<Longrightarrow> eventName e = ''ValidatorRemoved''"
  "parseClusterLiquidated a l = Inr e \<Longrightarrow> eventName e = ''ClusterLiquidated''"
  "parseClusterReactivated a l = Inr e \<Longrightarrow> eventName e = ''ClusterReactivated''"
  "parseClusterWithdrawn a l = Inr e \<Longrightarrow> eventName e = ''ClusterWithdrawn''"
  "parseClusterDeposited a l = Inr e \<Longrightarrow> eventName e = ''ClusterDeposited''"
  "parseClusterMigratedToETH a l = Inr e \<Longrightarrow> eventName e = ''ClusterMigratedToETH''"
  "parseClusterBalanceUpdated a l = Inr e \<Longrightarrow> eventName e = ''ClusterBalanceUpdated''"
  by (auto simp: parse_defs bindE_Inr split: list.splits)

text \<open>The name that \<open>parseLog\<close> returns is the type of the event it returns, so the type
  assertions of \<open>applyEvent\<close> do not panic.\<close>

lemma parseLog_name: "parseLog keccak a log = Inr (n, e) \<Longrightarrow> n = eventName e"
  by (auto simp: parseLog_def withName_Inr dest: parse_names split: list.splits if_splits)

lemma upsertCluster_Inr:
  "upsertCluster r s = (Inr u, s') \<Longrightarrow> tbl s' = (tbl s)\<lparr>clusters := upsertRec (rowToRec r) (clusters (tbl s))\<rparr>"
  by (auto simp: upsertCluster_def dest: update_Inr)

lemma insertValidator_Inr:
  "insertValidator cid pk s = (Inr u, s') \<Longrightarrow>
   set (validators (tbl s')) = insert (cid, pk) (set (validators (tbl s))) \<and>
   clusters (tbl s') = clusters (tbl s) \<and> last_synced_block (tbl s') = last_synced_block (tbl s) \<and>
   oracle_commits (tbl s') = oracle_commits (tbl s)"
proof -
  assume i: "insertValidator cid pk s = (Inr u, s')"
  then have "insertValidatorTbl cid pk (tbl s) = (Inr u, tbl s')"
    by (auto simp: insertValidator_def failS_def split: if_splits dest!: stmt_Inr)
  then have "tbl s' = snd (insertValidatorTbl cid pk (tbl s))" "fst (insertValidatorTbl cid pk (tbl s)) = Inr u"
    by simp_all
  then show ?thesis by (auto simp: insertValidatorTbl_def split: if_splits)
qed

lemma deleteValidator_Inr:
  "deleteValidator cid pk s = (Inr u, s') \<Longrightarrow>
   tbl s' = (tbl s)\<lparr>validators := filter (\<lambda>v. v \<noteq> (cid, pk)) (validators (tbl s))\<rparr>"
  by (auto simp: deleteValidator_def dest: update_Inr)

lemma insertEvent_Inr:
  "insertEvent ev s = (Inr u, s') \<Longrightarrow> clusters (tbl s') = clusters (tbl s) \<and>
   validators (tbl s') = validators (tbl s) \<and> last_synced_block (tbl s') = last_synced_block (tbl s) \<and>
   oracle_commits (tbl s') = oracle_commits (tbl s)"
  by (auto simp: insertEvent_def dest: update_Inr)

lemmas write_Inr = upsertCluster_Inr insertValidator_Inr deleteValidator_Inr insertEvent_Inr

lemma findRow_cong: "clusters t' = clusters t \<Longrightarrow> findRow t' = findRow t"
  by (simp add: findRow_def fun_eq_iff)

lemma netOf_upsert:
  "findRow (t\<lparr>clusters := upsertRec (rowToRec r) (clusters t)\<rparr>) = (findRow t)(Row_ClusterID r \<mapsto> r)"
  by (simp add: fun_eq_iff findRow_upsert)

lemma rowOfEvent_id [simp]: "Row_ClusterID (rowOfEvent ow ids cid c) = cid"
  by (simp add: rowOfEvent_def)

lemma handleValidatorAdded_net:
  assumes "handleValidatorAdded e cid s = (Inr u, s')"
  shows "netOf (tbl s') = ((findRow (tbl s))(cid \<mapsto> rowOfEvent (Owner e) (OperatorIDs e) cid (Cluster e)),
    insert (cid, PublicKey e) (set (validators (tbl s))))"
proof -
  obtain u1 s1 where
    up: "upsertCluster (rowOfEvent (Owner e) (OperatorIDs e) cid (Cluster e)) s = (Inr u1, s1)" and
    ins: "insertValidator cid (PublicKey e) s1 = (Inr u, s')"
    using assms unfolding handleValidatorAdded_def by (rule bindS_eq_InrE)
  note v = insertValidator_Inr [OF ins] and c = upsertCluster_Inr [OF up]
  have "findRow (tbl s') = findRow (tbl s1)" using v by (intro findRow_cong) simp
  then show ?thesis using v by (simp add: netOf_def c netOf_upsert)
qed

lemma handleClusterEvent_net:
  "handleClusterEvent e cid s = (Inr u, s') \<Longrightarrow>
   netOf (tbl s') = ((findRow (tbl s))(cid \<mapsto> rowOfEvent (Owner e) (OperatorIDs e) cid (Cluster e)),
     set (validators (tbl s)))"
  by (auto simp: handleClusterEvent_def upsertClusterFromEvent_def netOf_def netOf_upsert
      dest!: upsertCluster_Inr)

lemma handleValidatorRemoved_net:
  assumes "handleValidatorRemoved e cid s = (Inr u, s')"
  shows "netOf (tbl s') = ((findRow (tbl s))(cid \<mapsto> rowOfEvent (Owner e) (OperatorIDs e) cid (Cluster e)),
    set (validators (tbl s)) - {(cid, PublicKey e)})"
proof -
  obtain u1 s1 where d: "deleteValidator cid (PublicKey e) s = (Inr u1, s1)"
    and h: "handleClusterEvent e cid s1 = (Inr u, s')"
    using assms unfolding handleValidatorRemoved_def handleClusterEvent_def by (rule bindS_eq_InrE)
  show ?thesis
    using handleClusterEvent_net [OF h] deleteValidator_Inr [OF d] findRow_cong [of "tbl s1" "tbl s"]
    by auto
qed

lemma applyEvent_handlers:
  "applyEvent (eventName e) e cid =
     (if is_validatorAddedEvent e then handleValidatorAdded e cid
      else if is_validatorRemovedEvent e then handleValidatorRemoved e cid else handleClusterEvent e cid)"
  by (cases e) (simp_all add: applyEvent_def)

lemma valsAfter_handlers:
  "valsAfter cid e vs =
     (if is_validatorAddedEvent e then insert (cid, PublicKey e) vs
      else if is_validatorRemovedEvent e then vs - {(cid, PublicKey e)} else vs)"
  by (cases e) simp_all

lemma applyEvent_net:
  assumes "applyEvent (eventName e) e cid s = (Inr u, s')"
  shows "netOf (tbl s') = ((findRow (tbl s))(cid \<mapsto> rowOfEvent (Owner e) (OperatorIDs e) cid (Cluster e)),
    valsAfter cid e (set (validators (tbl s))))"
proof -
  consider "is_validatorAddedEvent e" | "\<not> is_validatorAddedEvent e" "is_validatorRemovedEvent e"
    | "\<not> is_validatorAddedEvent e" "\<not> is_validatorRemovedEvent e" by blast
  then show ?thesis
  proof cases
    case 1
    then show ?thesis
      using handleValidatorAdded_net [of e cid s u s'] assms
      by (simp only: applyEvent_handlers valsAfter_handlers if_True)
  next
    case 2
    then show ?thesis
      using handleValidatorRemoved_net [of e cid s u s'] assms
      by (simp only: applyEvent_handlers valsAfter_handlers if_True if_False)
  next
    case 3
    then show ?thesis
      using handleClusterEvent_net [of e cid s u s'] assms
      by (simp only: applyEvent_handlers valsAfter_handlers if_False)
  qed
qed

lemma processLog_net:
  assumes "processLog keccak a log bl s = (Inr k, s')"
  shows "netOf (tbl s') = applyLog keccak a log (netOf (tbl s))"
proof (cases "parseLog keccak a log")
  case (Inl err)
  with assms have unk: "errIs err errUnknownEvent"
    by (cases "errIs err errUnknownEvent") (simp_all add: processLog_def failS_def)
  with assms Inl have "bindS (storeRawEvent log bl err) (\<lambda>_. retS False) s = (Inr k, s')"
    by (simp add: processLog_def)
  then obtain u where i: "storeRawEvent log bl err s = (Inr u, s')"
    by (rule bindS_eq_InrE) (simp add: retS_def)
  have "netOf (tbl s') = netOf (tbl s)"
    using insertEvent_Inr [OF i [unfolded storeRawEvent_def]] findRow_cong [of "tbl s'" "tbl s"]
    by (simp add: netOf_def)
  then show ?thesis using Inl by (simp add: applyLog_def eventOf_def)
next
  case (Inr ne)
  obtain n e where ne: "ne = (n, e)" by fastforce
  have n: "n = eventName e" using Inr ne parseLog_name by simp
  let ?cid = "computeClusterIDFromEvent keccak e"
  obtain ev where "bindS (wrapS ''insert event'' (insertEvent ev)) (\<lambda>_.
      bindS (wrapS ''apply event'' (applyEvent n e ?cid)) (\<lambda>_. retS True)) s = (Inr k, s')"
    using assms Inr ne by (simp add: processLog_def Let_def)
  then obtain u1 s1 u2 s2 where i: "insertEvent ev s = (Inr u1, s1)"
    and ap: "applyEvent n e ?cid s1 = (Inr u2, s2)" and s': "s' = s2"
    by (elim bindS_eq_InrE) (simp add: retS_def)
  have "findRow (tbl s1) = findRow (tbl s)" "validators (tbl s1) = validators (tbl s)"
    using insertEvent_Inr [OF i] findRow_cong [of "tbl s1" "tbl s"] by simp_all
  then show ?thesis
    using applyEvent_net [OF ap [unfolded n]] Inr ne s'
    by (simp add: applyLog_def eventOf_def netOf_def eventRow_def Let_def computeClusterIDFromEvent_def
        clusterKey_def)
qed

interpretation synced: log_replayer "\<lambda>p s. processLog keccak a (snd p) (fst p) s" snd "\<lambda>n. n"
    "\<lambda>s. netOf (tbl s)" "applyLog keccak a" for keccak a
  by unfold_locales (simp add: processLog_net)

definition blockPairs :: "BlockLogs list \<Rightarrow> (BlockLogs \<times> Log) list" where
  "blockPairs bls = concat (map (\<lambda>bl. map (Pair bl) (BL_Logs bl)) bls)"

lemma blockPairs_logs: "map snd (blockPairs bls) = groupedLogs bls"
  by (induction bls) (simp_all add: blockPairs_def groupedLogs_def comp_def)

lemma processBlockLogs_accepted:
  "processBlockLogs keccak a bl logs n s = (Inr m, s') \<Longrightarrow>
   accepted (\<lambda>p s. processLog keccak a (snd p) (fst p) s) (map (Pair bl) logs) s = Some s'"
proof (induction logs arbitrary: n s)
  case Nil
  then show ?case by (simp add: retS_def)
next
  case (Cons log logs)
  from Cons.prems obtain k s1 where "processLog keccak a log bl s = (Inr k, s1)"
    "processBlockLogs keccak a bl logs (if k then Suc n else n) s1 = (Inr m, s')"
    unfolding processBlockLogs.simps by (elim bindS_eq_InrE) simp
  with Cons.IH show ?case by simp
qed

lemma processBlocks_accepted:
  "processBlocks keccak a bls n s = (Inr m, s') \<Longrightarrow>
   accepted (\<lambda>p s. processLog keccak a (snd p) (fst p) s) (blockPairs bls) s = Some s'"
proof (induction bls arbitrary: n s)
  case Nil
  then show ?case by (simp add: retS_def blockPairs_def)
next
  case (Cons bl bls)
  from Cons.prems obtain k s1 where b: "processBlockLogs keccak a bl (BL_Logs bl) n s = (Inr k, s1)"
    and r: "processBlocks keccak a bls k s1 = (Inr m, s')"
    unfolding processBlocks.simps by (rule bindS_eq_InrE)
  have "blockPairs (bl # bls) = map (Pair bl) (BL_Logs bl) @ blockPairs bls"
    by (simp add: blockPairs_def)
  then show ?case using processBlockLogs_accepted [OF b] Cons.IH [OF r] by (simp add: accepted_append)
qed

lemma processBlocks_net:
  "processBlocks keccak a bls n s = (Inr m, s') \<Longrightarrow>
   netOf (tbl s') = replay keccak a (groupedLogs bls) (netOf (tbl s))"
  using synced.accepted_look [OF processBlocks_accepted, of keccak a bls n s m s' "netOf (tbl s)"]
  by (simp add: blockPairs_logs replay_def)

text \<open>An invariant that the four writes of the handlers keep is kept by a batch.\<close>

lemma applyEvent_inv:
  assumes "\<And>r. tblInv P (upsertCluster r)" "\<And>c k. tblInv P (insertValidator c k)"
    "\<And>c k. tblInv P (deleteValidator c k)"
  shows "tblInv P (applyEvent n e cid)"
  unfolding applyEvent_def handleValidatorAdded_def handleValidatorRemoved_def handleClusterEvent_def
    upsertClusterFromEvent_def
  by (auto intro!: inv_rules assms)

lemma processLog_inv:
  assumes "\<And>ev. tblInv P (insertEvent ev)" "\<And>r. tblInv P (upsertCluster r)"
    "\<And>c k. tblInv P (insertValidator c k)" "\<And>c k. tblInv P (deleteValidator c k)"
  shows "tblInv P (processLog keccak a log bl)"
  unfolding processLog_def storeRawEvent_def
  by (auto simp: Let_def intro!: inv_rules assms applyEvent_inv split: sum.splits)

lemma processBlockLogs_inv:
  assumes "\<And>log. tblInv P (processLog keccak a log bl)"
  shows "tblInv P (processBlockLogs keccak a bl logs n)"
  by (induction logs arbitrary: n) (auto intro!: inv_rules assms)

lemma processBlocks_inv:
  assumes "\<And>log bl. tblInv P (processLog keccak a log bl)"
  shows "tblInv P (processBlocks keccak a bls n)"
  by (induction bls arbitrary: n) (auto intro!: inv_rules processBlockLogs_inv assms)

lemma processBlocks_keeps:
  "tblInv (\<lambda>t. last_synced_block t = b \<and> oracle_commits t = cs) (processBlocks keccak a bls n)"
  by (rule processBlocks_inv, rule processLog_inv)
     (auto simp: insertEvent_def upsertCluster_def insertValidator_def deleteValidator_def
       insertValidatorTbl_def intro!: inv_rules)

lemma processBatch_wf: "tblInv db_wf (processBatch keccak a e bls)"
  unfolding processBatch_def
  by (auto intro!: inv_rules processBlocks_inv processLog_inv)

lemma netOf_position [simp]: "netOf (t\<lparr>last_synced_block := b\<rparr>) = netOf t"
  by (simp add: netOf_def findRow_def fun_eq_iff)

lemma processBatch_Inr:
  assumes "processBatch keccak a batchEnd bls s = (Inr n, s')"
  shows "netOf (tbl s') = replay keccak a (groupedLogs bls) (netOf (tbl s)) \<and>
    last_synced_block (tbl s') = batchEnd \<and> oracle_commits (tbl s') = oracle_commits (tbl s)"
proof (cases "bls = []")
  case True
  then have "UpdateLastSyncedBlock batchEnd s = (Inr (), s')"
    using assms by (auto simp: processBatch_def retS_def elim!: bindS_eq_InrE)
  then have "tbl s' = (tbl s)\<lparr>last_synced_block := batchEnd\<rparr>"
    by (auto simp: UpdateLastSyncedBlock_def dest: update_Inr)
  then show ?thesis using True by (simp add: replay_def groupedLogs_def)
next
  case False
  with assms obtain s1 s2 where s1: "tbl s1 = tbl s" and s2: "tbl s' = tbl s2"
    and b: "bindS (processBlocks keccak a bls 0) (\<lambda>knownEvents.
       bindS (wrapS ''update sync progress'' (UpdateLastSyncedBlock batchEnd)) (\<lambda>_. retS knownEvents)) s1 = (Inr n, s2)"
    unfolding processBatch_def by (auto dest: withTx_Inr)
  from b obtain m s3 where p: "processBlocks keccak a bls 0 s1 = (Inr m, s3)"
    and u: "UpdateLastSyncedBlock batchEnd s3 = (Inr (), s2)"
    by (elim bindS_eq_InrE) (simp add: retS_def)
  have t: "tbl s2 = (tbl s3)\<lparr>last_synced_block := batchEnd\<rparr>"
    using u by (auto simp: UpdateLastSyncedBlock_def dest: update_Inr)
  have "oracle_commits (tbl s3) = oracle_commits (tbl s1)"
    using invS_E [OF processBlocks_keeps _ p, of "last_synced_block (tbl s1)" "oracle_commits (tbl s1)"] by simp
  then show ?thesis using processBlocks_net [OF p] by (simp add: s1 s2 t)
qed

lemma processBatch_Inl:
  assumes "processBatch keccak a batchEnd bls s = (Inl e, s')"
  shows "tbl s' = tbl s"
proof (cases "bls = []")
  case True
  obtain r s1 where u: "update (\<lambda>t. t\<lparr>last_synced_block := batchEnd\<rparr>) s = (r, s1)" by fastforce
  then have "r = Inl e' \<Longrightarrow> tbl s1 = tbl s" for e' using update_Inl by simp
  then show ?thesis using assms True u
    by (cases r) (simp_all add: processBatch_def UpdateLastSyncedBlock_def bindS_def wrapS_def retS_def)
next
  case False
  then show ?thesis using assms by (simp add: processBatch_def withTx_atomic)
qed

text \<open>C20: a batch is all or nothing. If processing fails anywhere (a log that does not parse, a
  constraint, a failing statement, the commit itself) the tables are exactly as before, the
  sync position included; if it succeeds, the cluster rows and validators are the old ones with
  every log of the batch applied in order, the position is the end of the batch, and the
  oracle's commits are untouched.\<close>

theorem sync_batch_atomic:
  "case processBatch keccak a batchEnd bls s of
     (Inl e, s') \<Rightarrow> tbl s' = tbl s
   | (Inr n, s') \<Rightarrow> netOf (tbl s') = replay keccak a (concat (map BL_Logs bls)) (netOf (tbl s)) \<and>
       last_synced_block (tbl s') = batchEnd \<and> oracle_commits (tbl s') = oracle_commits (tbl s)"
proof -
  obtain r s' where p: "processBatch keccak a batchEnd bls s = (r, s')" by fastforce
  show ?thesis
  proof (cases r)
    case (Inl e)
    then show ?thesis using p processBatch_Inl [of keccak a batchEnd bls s e s'] by simp
  next
    case (Inr n)
    then show ?thesis using p processBatch_Inr [of keccak a batchEnd bls s n s']
      by (simp add: groupedLogs_def)
  qed
qed

section \<open>Cluster identifiers are canonical\<close>

lemma digits_unique:
  "n < 256 ^ k \<Longrightarrow> m < 256 ^ k \<Longrightarrow> (\<And>i. i < k \<Longrightarrow> n div 256 ^ i mod 256 = m div 256 ^ i mod (256::nat)) \<Longrightarrow> n = m"
proof (induction k arbitrary: n m)
  case (Suc k)
  have "n div 256 = m div 256"
  proof (rule Suc.IH)
    fix i assume "i < k"
    then show "n div 256 div 256 ^ i mod 256 = m div 256 div 256 ^ i mod 256"
      using Suc.prems(3) [of "Suc i"] by (simp add: div_mult2_eq)
  qed (use Suc.prems in \<open>simp_all add: less_mult_imp_div_less mult.commute\<close>)
  moreover have "n mod 256 = m mod 256" using Suc.prems(3) [of 0] by simp
  ultimately show ?case by (metis div_mult_mod_eq)
qed simp

lemma be8_inj: "be8 x = be8 y \<Longrightarrow> x = y"
proof -
  assume eq: "be8 x = be8 y"
  have b: "of_nat (n mod 256) = (of_nat (m mod 256) :: u8) \<longleftrightarrow> n mod 256 = m mod 256" for n m :: nat
    by (simp add: word_unat_eq_iff unat_of_nat take_bit_eq_mod)
  have "unat x = unat y"
  proof (rule digits_unique [of _ 8])
    fix i :: nat assume "i < 8"
    then have "i \<in> set [7, 6, 5, 4, 3, 2, 1, 0]" by auto
    then have "(of_nat (unat x div 256 ^ i mod 256) :: u8) = of_nat (unat y div 256 ^ i mod 256)"
      using eq unfolding be8_def map_eq_conv by blast
    then show "unat x div 256 ^ i mod 256 = unat y div 256 ^ i mod 256" by (simp only: b)
  qed (use unsigned_less [of x, where ?'a = nat] unsigned_less [of y, where ?'a = nat] in simp_all)
  then show "x = y" by (simp add: word_unat_eq_iff)
qed

lemma length_idBytes [simp]: "length (idBytes x) = 32"
  by (simp add: idBytes_def be8_def)

lemma concat_idBytes_inj: "concat (map idBytes xs) = concat (map idBytes ys) \<Longrightarrow> xs = ys"
proof (induction xs arbitrary: ys)
  case Nil
  then show ?case by (cases ys) (auto simp: idBytes_def be8_def)
next
  case (Cons x xs)
  then obtain y ys' where ys: "ys = y # ys'"
    by (cases ys) (auto simp: idBytes_def be8_def)
  then have x: "idBytes x = idBytes y" and xs: "concat (map idBytes xs) = concat (map idBytes ys')"
    using Cons.prems by (simp_all add: append_eq_append_conv)
  have "x = y" using x by (simp add: idBytes_def be8_inj)
  then show ?case using Cons.IH [OF xs] ys by simp
qed

text \<open>The identifier of a cluster does not depend on the order in which an event lists the
  operators, and two clusters share an identifier only if they have the same owner and the
  same operators (unless the two byte strings that are hashed collide).\<close>

theorem cluster_id_canonical:
  assumes "length o1 = 20" "length o2 = 20"
    "inj_on keccak {o1 @ concat (map idBytes (sort ids1)), o2 @ concat (map idBytes (sort ids2))}"
  shows "computeClusterID keccak o1 ids1 = computeClusterID keccak o2 ids2 \<longleftrightarrow>
    o1 = o2 \<and> mset ids1 = mset ids2"
proof
  assume "computeClusterID keccak o1 ids1 = computeClusterID keccak o2 ids2"
  then have "o1 @ concat (map idBytes (sort ids1)) = o2 @ concat (map idBytes (sort ids2))"
    using inj_onD [OF assms(3)] unfolding computeClusterID_def by blast
  then have "o1 = o2 \<and> concat (map idBytes (sort ids1)) = concat (map idBytes (sort ids2))"
    using assms(1,2) by (simp add: append_eq_len)
  then have o: "o1 = o2" and "sort ids1 = sort ids2"
    using concat_idBytes_inj [of "sort ids1" "sort ids2"] by simp_all
  then have "mset (sort ids1) = mset (sort ids2)" by simp
  then show "o1 = o2 \<and> mset ids1 = mset ids2" using o by (simp only: mset_sort simp_thms)
next
  assume "o1 = o2 \<and> mset ids1 = mset ids2"
  then show "computeClusterID keccak o1 ids1 = computeClusterID keccak o2 ids2"
    using sorted_mset_unique [OF sorted_sort sorted_sort, of ids1 ids2] by (simp add: computeClusterID_def)
qed

theorem cluster_id_canonical_witness:
  "computeClusterID rev (replicate 20 7) [3, 1, 2] = computeClusterID rev (replicate 20 7) [2, 3, 1]"
  using cluster_id_canonical [of "replicate 20 7" "replicate 20 7" rev "[3, 1, 2]" "[2, 3, 1]"]
  by (simp add: inj_on_def add_mset_commute)

section \<open>Syncing to a block\<close>

lemma replay_append: "replay keccak a (xs @ ys) n = replay keccak a ys (replay keccak a xs n)"
  by (simp add: replay_def)

definition batchLogs :: "batchResult list \<Rightarrow> Log list" where
  "batchLogs bs = concat (map (groupedLogs \<circ> br_logs) bs)"

lemma consume_Inr:
  "consume keccak a bs n s = (Inr m, s') \<Longrightarrow>
   (\<forall>b\<in>set bs. br_err b = None) \<and> netOf (tbl s') = replay keccak a (batchLogs bs) (netOf (tbl s)) \<and>
   last_synced_block (tbl s') = (if bs = [] then last_synced_block (tbl s) else br_batchEnd (last bs)) \<and>
   oracle_commits (tbl s') = oracle_commits (tbl s)"
proof (induction bs arbitrary: n s)
  case Nil
  then show ?case by (simp add: retS_def replay_def batchLogs_def)
next
  case (Cons b bs)
  have e: "br_err b = None" using Cons.prems by (cases "br_err b") (simp_all add: failS_def)
  with Cons.prems obtain k s1 where p: "processBatch keccak a (br_batchEnd b) (br_logs b) s = (Inr k, s1)"
    and c: "consume keccak a bs (n + k) s1 = (Inr m, s')"
    by (auto elim: bindS_eq_InrE)
  show ?case using processBatch_Inr [OF p] Cons.IH [OF c] e
    by (simp add: batchLogs_def replay_append)
qed

lemma consume_inv:
  assumes "\<And>e bls. tblInv P (processBatch keccak a e bls)"
  shows "tblInv P (consume keccak a bs n)"
proof (induction bs arbitrary: n)
  case (Cons b bs)
  then show ?case by (cases "br_err b") (auto intro!: inv_rules assms)
qed (simp add: inv_rules)

lemma SetSyncMode_tbl [simp]: "tbl (snd (SetSyncMode s)) = tbl s"
  by (simp add: SetSyncMode_def)

text \<open>The node is honest about a chain: each query for the contract's handled events returns
  the matching logs of the chain, in some order.\<close>

definition honestNode :: "'w EventSyncer \<Rightarrow> Log list \<Rightarrow> bool" where
  "honestNode sy chain \<longleftrightarrow> distinct (map logKey chain) \<and>
     (\<forall>topics a e w logs w'. EventTopics (abiOf sy) = Some topics \<longrightarrow>
        filterLogs (client sy) (ssvContract sy) topics a e w = (Inr logs, w') \<longrightarrow>
        mset logs = mset (filter (\<lambda>l. a \<le> Log_BlockNumber l \<and> Log_BlockNumber l \<le> e) chain))"

lemma honestNode_logs:
  "honestNode sy chain \<Longrightarrow> EventTopics (abiOf sy) = Some topics \<Longrightarrow>
   filterLogs (client sy) (ssvContract sy) topics a e w = (Inr logs, w') \<Longrightarrow>
   mset logs = mset (filter (\<lambda>l. a \<le> Log_BlockNumber l \<and> Log_BlockNumber l \<le> e) chain)"
  unfolding honestNode_def by blast

lemma honestNode_fetch:
  assumes "honestNode sy chain" "EventTopics (abiOf sy) = Some topics"
    "batch_ok bs" "unat toBlock + unat (maxSize bs) < 2 ^ 64" "fromBlock \<le> toBlock"
    and "\<And>e bl w st w' st'. cb e bl (w, st) = (Inr (), w', st') \<Longrightarrow> hist st' = hist st @ [(e, bl)]"
    and "hist st = []"
    and "FetchLogs fuel (client sy) (ssvContract sy) topics cb fromBlock toBlock (bs, w, st) =
      Some (Inr (), bs', w', st')"
  shows "concat (map (groupedLogs \<circ> snd) (hist st')) = logsIn chain (unat fromBlock) (unat toBlock + 1) \<and>
    hist st' \<noteq> [] \<and> fst (last (hist st')) = toBlock"
proof (rule FetchLogs_delivers [where hist = hist and cb = cb, OF assms(3-5) _ _ assms(6) assms(7,8)])
  show "distinct (map logKey chain)" using assms(1) by (simp add: honestNode_def)
qed (rule honestNode_logs [OF assms(1,2)])

lemma runFetcher_sent:
  assumes "runFetcher fuel sy fromBlock toBlock (bs, w) = Some (sent, bs', w')"
    "\<forall>b\<in>set sent. br_err b = None" "honestNode sy chain"
    "batch_ok bs" "unat toBlock + unat (maxSize bs) < 2 ^ 64" "fromBlock \<le> toBlock"
  shows "batchLogs sent = logsIn chain (unat fromBlock) (unat toBlock + 1) \<and>
    sent \<noteq> [] \<and> br_batchEnd (last sent) = toBlock"
proof -
  obtain topics where t: "EventTopics (abiOf sy) = Some topics"
    using assms(1) by (auto simp: runFetcher_def split: option.splits)
  have f: "FetchLogs fuel (client sy) (ssvContract sy) topics sendBatch fromBlock toBlock (bs, w, []) =
      Some (Inr (), bs', w', sent)"
    using assms(1,2) t by (auto simp: runFetcher_def split: option.splits prod.splits sum.splits)
  let ?h = "map (\<lambda>b. (br_batchEnd b, br_logs b))"
  have "concat (map (groupedLogs \<circ> snd) (?h sent)) = logsIn chain (unat fromBlock) (unat toBlock + 1) \<and>
      ?h sent \<noteq> [] \<and> fst (last (?h sent)) = toBlock"
    by (rule honestNode_fetch [OF assms(3) t assms(4-6) _ _ f]) (auto simp: sendBatch_def)
  then show ?thesis by (auto simp: batchLogs_def comp_def last_map)
qed

lemma SyncToBlock_exact:
  assumes "SyncToBlock fuel sy target (s, bs, w) = Some (Inr (), s', bs', w')"
    "last_synced_block (tbl s) < target" "honestNode sy chain"
    "batch_ok bs" "unat target + unat (maxSize bs) < 2 ^ 64"
  shows "netOf (tbl s') = replay (keccakOf sy) (abiOf sy)
      (logsIn chain (unat (last_synced_block (tbl s)) + 1) (unat target + 1)) (netOf (tbl s)) \<and>
    last_synced_block (tbl s') = target"
proof -
  let ?last = "last_synced_block (tbl s)"
  obtain r s1 where g0: "GetLastSyncedBlock s = (r, s1)" by fastforce
  with assms(1) obtain b where "r = Inr b" by (cases r) (simp_all add: SyncToBlock_def wrapS_def)
  with g0 have g: "GetLastSyncedBlock s = (Inr ?last, s1)" and s1: "tbl s1 = tbl s"
    using query_Inr [of last_synced_block s b s1] by (simp_all add: GetLastSyncedBlock_def)
  define bulk where "bulk = (bulkSyncThreshold < sint (target - ?last))"
  obtain mode s2 where m: "(if bulk then SetSyncMode s1 else (Inr (), s1)) = (mode, s2)" by fastforce
  then have "s2 = snd (if bulk then SetSyncMode s1 else (Inr (), s1))" by simp
  then have s2: "tbl s2 = tbl s" using s1 by (simp split: if_splits)
  have "\<not> target \<le> ?last" using assms(2) by simp
  note run = assms(1) [unfolded SyncToBlock_def prod.case wrapS_def g sum.case Let_def,
      folded bulk_def, unfolded m prod.case if_not_P [OF this]]
  from run obtain sent where f: "runFetcher fuel sy (?last + 1) target (bs, w) = Some (sent, bs', w')"
    by (auto split: option.splits prod.splits)
  obtain r' s3 where c0: "consume (keccakOf sy) (abiOf sy) sent 0 s2 = (r', s3)" by fastforce
  from run f c0 obtain n where c: "consume (keccakOf sy) (abiOf sy) sent 0 s2 = (Inr n, s3)"
    and s': "tbl s' = tbl s3"
    by (cases r') (auto split: if_splits)
  have one: "unat (?last + 1) = unat ?last + 1"
    using assms(2,5) by (intro unat_Suc_exact) (simp add: word_less_nat_alt)
  then have "?last + 1 \<le> target" using assms(2) by (simp add: word_le_nat_alt word_less_nat_alt)
  from runFetcher_sent [OF f _ assms(3-5) this] consume_Inr [OF c] show ?thesis
    by (simp add: s' s2 one)
qed

text \<open>C7: if the node answers truthfully about a chain, a call of \<open>SyncToBlock\<close> that succeeds
  leaves the sync position at the target block, and the cluster rows and validators are
  those obtained by applying every log between the old position and the target, each once
  and in chain order.\<close>

theorem sync_to_block_exact:
  assumes "honestNode sy chain" "batch_ok bs" "unat target + unat (maxSize bs) < 2 ^ 64"
    "last_synced_block (tbl s) < target"
    "SyncToBlock fuel sy target (s, bs, w) = Some (Inr (), s', bs', w')"
  shows "last_synced_block (tbl s') = target \<and>
    netOf (tbl s') = replay (keccakOf sy) (abiOf sy)
      (logsIn chain (unat (last_synced_block (tbl s)) + 1) (unat target + 1)) (netOf (tbl s))"
  using SyncToBlock_exact [OF assms(5,4,1,2,3)] by blast

text \<open>Whatever its result, a sync keeps every invariant of the tables that processing a batch
  keeps: the schema's constraints, and the commits.\<close>

lemma SyncToBlock_inv:
  assumes "SyncToBlock fuel sy target (s, bs, w) = Some (r, s', bs', w')" "P (tbl s)"
    "\<And>e bls. tblInv P (processBatch (keccakOf sy) (abiOf sy) e bls)"
  shows "P (tbl s')"
proof -
  obtain g s1 where g: "wrapS ''get last synced block'' GetLastSyncedBlock s = (g, s1)" by fastforce
  have "tblInv P (wrapS ''get last synced block'' GetLastSyncedBlock)"
    unfolding GetLastSyncedBlock_def by (intro inv_rules)
  then have s1: "P (tbl s1)" using invS_E g assms(2) by fast
  show ?thesis
  proof (cases g)
    case (Inl e)
    with assms(1) g s1 show ?thesis by (simp add: SyncToBlock_def)
  next
    case (Inr lastSynced)
    define bulk where "bulk = (bulkSyncThreshold < sint (target - lastSynced))"
    obtain mode s2 where m: "(if bulk then SetSyncMode s1 else (Inr (), s1)) = (mode, s2)" by fastforce
    then have "s2 = snd (if bulk then SetSyncMode s1 else (Inr (), s1))" by simp
    then have s2: "P (tbl s2)" using s1 by (simp split: if_splits)
    show ?thesis
    proof (cases "target \<le> lastSynced")
      case True
      with assms(1) g s1 Inr show ?thesis by (simp add: SyncToBlock_def)
    next
      case False
      note run = assms(1) [unfolded SyncToBlock_def prod.case g Inr sum.case Let_def,
        folded bulk_def, unfolded m prod.case]
      obtain batches bs1 w1 where f: "runFetcher fuel sy (lastSynced + 1) target (bs, w) = Some (batches, bs1, w1)"
        using run False by (auto split: option.splits)
      obtain c s3 where c: "consume (keccakOf sy) (abiOf sy) batches 0 s2 = (c, s3)" by fastforce
      have "P (tbl s3)" using invS_E [OF consume_inv [OF assms(3)] _ c] s2 by blast
      moreover have "s' = (if bulk \<and> mode = Inr () then snd (SetSyncMode s3) else s3)"
        using run False f c by simp
      ultimately show ?thesis by simp
    qed
  qed
qed

lemma processBatch_commits: "tblInv (\<lambda>t. oracle_commits t = cs) (processBatch keccak a e bls)"
proof -
  have "tblInv (\<lambda>t. oracle_commits t = cs) (processBlocks keccak a bls n)" for n
    by (intro processBlocks_inv processLog_inv)
       (auto simp: insertEvent_def upsertCluster_def insertValidator_def deleteValidator_def
         insertValidatorTbl_def intro!: inv_rules)
  moreover have "tblInv (\<lambda>t. oracle_commits t = cs) (UpdateLastSyncedBlock b)" for b
    unfolding UpdateLastSyncedBlock_def by (intro inv_rules) simp
  ultimately show ?thesis unfolding processBatch_def by (auto intro!: inv_rules)
qed

lemmas SyncToBlock_wf = SyncToBlock_inv [where P = db_wf, OF _ _ processBatch_wf]

lemma SyncToBlock_commits:
  "SyncToBlock fuel sy target (s, bs, w) = Some (r, s', bs', w') \<Longrightarrow> oracle_commits (tbl s') = oracle_commits (tbl s)"
  by (rule SyncToBlock_inv [where P = "\<lambda>t. oracle_commits t = oracle_commits (tbl s)"])
     (simp_all add: processBatch_commits)

section \<open>The head overlay follows the specification\<close>

lemma overlay_step_look:
  assumes "overlayLogs keccak a req [l] ov = (Inr x, ov')" "ov |` req = fst n |` req"
  shows "ov' |` req = fst (applyLog keccak a l n) |` req"
proof (cases "parseLog keccak a l")
  case (Inl err)
  then show ?thesis using assms by (auto simp: applyLog_def eventOf_def split: if_splits)
next
  case (Inr p)
  then obtain nm e where p: "parseLog keccak a l = Inr (nm, e)" by (cases p) simp
  have "ov' = applyClusterEventToOverlay keccak ov req e" using assms(1) p by simp
  with assms(2) p show ?thesis
    by (auto simp: applyLog_def eventOf_def applyClusterEventToOverlay_def clusterKey_def eventRow_def
        Let_def restrict_map_def fun_eq_iff split: if_splits)
qed

interpretation overlaid: log_replayer "\<lambda>l ov. overlayLogs keccak a req [l] ov" "\<lambda>l. l"
    "\<lambda>n. fst n |` req" "\<lambda>ov. ov |` req" "applyLog keccak a" for keccak a req
  by unfold_locales (rule overlay_step_look)

lemma overlayLogs_accepted:
  "overlayLogs keccak a req logs ov = (Inr x, ov') \<Longrightarrow>
   accepted (\<lambda>l ov. overlayLogs keccak a req [l] ov) logs ov = Some ov'"
proof (induction logs arbitrary: ov)
  case (Cons l logs)
  show ?case
  proof (cases "parseLog keccak a l")
    case (Inl e)
    then show ?thesis using Cons by (simp split: if_splits)
  next
    case (Inr p)
    then show ?thesis using Cons by (cases p) simp
  qed
qed simp

lemma overlayLogs_look:
  "overlayLogs keccak a req logs ov = (Inr x, ov') \<Longrightarrow> ov |` req = fst n |` req \<Longrightarrow>
   ov' |` req = fst (replay keccak a logs n) |` req"
  using overlaid.accepted_look [OF overlayLogs_accepted] by (simp add: replay_def)

lemma seedOverlay_snoc: "seedOverlay (rows @ [r]) = (seedOverlay rows)(copyTo 32 (Row_ClusterID r) \<mapsto> r)"
  by (simp add: seedOverlay_def)

lemma seedOverlay_Some: "seedOverlay rows k = Some r \<Longrightarrow> r \<in> set rows \<and> copyTo 32 (Row_ClusterID r) = k"
  by (induction rows rule: rev_induct) (auto simp: seedOverlay_snoc seedOverlay_def split: if_splits)

lemma seedOverlay_None: "seedOverlay rows k = None \<Longrightarrow> r \<in> set rows \<Longrightarrow> copyTo 32 (Row_ClusterID r) \<noteq> k"
  by (induction rows rule: rev_induct) (auto simp: seedOverlay_snoc split: if_splits)

lemma seedOverlay_finalized:
  assumes "set rows = scanClusterRow ` {c \<in> set (clusters t). cluster_id c \<in> set ids}"
    "distinct (map cluster_id (clusters t))" "\<forall>i\<in>set ids. length i = 32" "k \<in> set ids"
  shows "seedOverlay rows k = findRow t k"
proof (cases "seedOverlay rows k")
  case (Some r)
  then obtain c where c: "c \<in> set (clusters t)" "cluster_id c \<in> set ids" "r = scanClusterRow c"
    "copyTo 32 (Row_ClusterID r) = k"
    using seedOverlay_Some [OF Some] assms(1) by auto
  then have "cluster_id c = k" using assms(3) by (simp add: scanClusterRow_def)
  then show ?thesis using Some c findRow_Some_iff [OF assms(2), of k r] by auto
next
  case None
  have "findRow t k \<noteq> Some r" for r
  proof
    assume "findRow t k = Some r"
    then obtain c where c: "c \<in> set (clusters t)" "cluster_id c = k" "scanClusterRow c = r"
      using findRow_Some_iff [OF assms(2), of k r] by auto
    then have "r \<in> set rows" using assms(1,4) by auto
    from seedOverlay_None [OF None this] c assms(3,4) show False by (auto simp: scanClusterRow_def)
  qed
  then have "findRow t k = None" by (cases "findRow t k") blast+
  then show ?thesis using None by simp
qed

lemma overlay_fetch:
  assumes "honestNode sy chain" "EventTopics (abiOf sy) = Some topics"
    "batch_ok bs" "unat toBlock + unat (maxSize bs) < 2 ^ 64" "fromBlock \<le> toBlock"
    "ov |` req = fst n |` req"
    "FetchLogs fuel (client sy) (ssvContract sy) topics (overlayCallback (keccakOf sy) (abiOf sy) req)
       fromBlock toBlock (bs, w, ov) = Some (Inr (), bs', w', ov')"
  shows "ov' |` req =
    fst (replay (keccakOf sy) (abiOf sy) (logsIn chain (unat fromBlock) (unat toBlock + 1)) n) |` req"
proof -
  define P where "P m ov \<longleftrightarrow> unat fromBlock \<le> m \<and> ov |` req =
      fst (replay (keccakOf sy) (abiOf sy) (logsIn chain (unat fromBlock) m) n) |` req" for m ov
  have d: "distinct (map logKey chain)" using assms(1) by (simp add: honestNode_def)
  have "P (unat toBlock + 1) ov'"
  proof (rule FetchLogs_chain_rule [where P = P, OF assms(3-5) d honestNode_logs [OF assms(1,2)] _ _ assms(7)])
    show "P (unat fromBlock) ov" using assms(6) by (simp add: P_def replay_def)
    fix m e bl w st w' st'
    assume P: "P m st" and m: "m \<le> unat e" and g: "groupedLogs bl = logsIn chain m (unat e + 1)"
      and k: "overlayCallback (keccakOf sy) (abiOf sy) req e bl (w, st) = (Inr (), w', st')"
    from k have "overlayLogs (keccakOf sy) (abiOf sy) req (groupedLogs bl) st = (Inr (), st')"
      by (auto simp: overlayCallback_def groupedLogs_def Let_def split: prod.splits)
    from overlayLogs_look [OF this, of "replay (keccakOf sy) (abiOf sy) (logsIn chain (unat fromBlock) m) n"]
    show "P (unat e + 1) st'"
      using P m g logsIn_append [OF d, of "unat fromBlock" m "unat e + 1"]
      by (simp add: P_def replay_append)
  qed
  then show ?thesis by (simp add: P_def)
qed

lemma GetHeadBlock_Inr:
  assumes "GetHeadBlock c w = (Inr h, w')" "\<And>w h w'. headerLatest c w = (Inr h, w') \<Longrightarrow> h = head"
  shows "h = head"
  using assms(1) unfolding GetHeadBlock_def wrapS_eq_Inr_iff by (rule WithRetry_Inr [rotated]) (rule assms(2))

lemma BuildHeadStateSnapshot_rows:
  assumes "BuildHeadStateSnapshot fuel sy ids (s, bs, w) = Some (Inr ov, s', bs', w')"
    "db_wf (tbl s)" "\<forall>i\<in>set ids. length i = 32" "honestNode sy chain"
    "batch_ok bs" "unat head + unat (maxSize bs) < 2 ^ 64"
    "\<And>w h w'. headerLatest (client sy) w = (Inr h, w') \<Longrightarrow> h = head"
    "last_synced_block (tbl s) < head" "k \<in> set ids"
  shows "ov k = fst (replay (keccakOf sy) (abiOf sy)
    (logsIn chain (unat (last_synced_block (tbl s)) + 1) (unat head + 1)) (netOf (tbl s))) k"
proof -
  let ?last = "last_synced_block (tbl s)"
  have ids: "set (map (copyTo 32) ids) = set ids" using assms(3) by (auto simp: image_iff)
  obtain r s1 where g0: "GetFinalizedClusters ids s = (r, s1)" by fastforce
  with assms(1) obtain rows l where "r = Inr (rows, l)"
    by (cases r) (auto simp: BuildHeadStateSnapshot_def wrapS_def)
  with g0 have g: "GetFinalizedClusters ids s = (Inr (rows, ?last), s1)"
    and rows: "set rows = scanClusterRow ` {c \<in> set (clusters (tbl s)). cluster_id c \<in> set ids}"
    using GetFinalizedClusters_Inr [of ids s rows l s1] by simp_all
  obtain q w1 where h0: "GetHeadBlock (client sy) w = (q, w1)" by fastforce
  with assms(1) g obtain h where "q = Inr h"
    by (cases q) (auto simp: BuildHeadStateSnapshot_def wrapS_def Let_def)
  with h0 have h: "GetHeadBlock (client sy) w = (Inr head, w1)" using GetHeadBlock_Inr assms(7) by metis
  have "\<not> head \<le> ?last" using assms(8) by simp
  note run = assms(1) [unfolded BuildHeadStateSnapshot_def wrapS_def g h prod.case sum.case Let_def
      if_not_P [OF this] ids]
  from run obtain topics where t: "EventTopics (abiOf sy) = Some topics" by (auto split: option.splits)
  from run t have f: "FetchLogs fuel (client sy) (ssvContract sy) topics
      (overlayCallback (keccakOf sy) (abiOf sy) (set ids)) (?last + 1) head (bs, w1, seedOverlay rows) =
      Some (Inr (), bs', w', ov)"
    by (auto split: option.splits prod.splits sum.splits)
  have one: "unat (?last + 1) = unat ?last + 1"
    using assms(6,8) by (intro unat_Suc_exact) (simp add: word_less_nat_alt)
  then have le: "?last + 1 \<le> head" using assms(8) by (simp add: word_le_nat_alt word_less_nat_alt)
  have "seedOverlay rows k = findRow (tbl s) k" if "k \<in> set ids" for k
    using seedOverlay_finalized [OF rows _ assms(3) that] assms(2) by (simp add: db_wf_def)
  then have seed: "seedOverlay rows |` set ids = fst (netOf (tbl s)) |` set ids"
    by (simp add: netOf_def restrict_map_def fun_eq_iff)
  from overlay_fetch [OF assms(4) t assms(5,6) le seed f] assms(9) show ?thesis
    by (metis one restrict_in)
qed

text \<open>C4: the overlay at the chain head is what the storage would hold after syncing to the
  head. If a snapshot for 32-byte identifiers and a sync to the same head block both succeed
  from the same tables, the overlay has for every requested cluster exactly the row (or the
  absence of a row) that the synced table has.\<close>

theorem head_overlay_equals_sync:
  assumes "honestNode sy chain" "db_wf (tbl s)" "\<forall>i\<in>set ids. length i = 32"
    and "batch_ok bs1" "unat head + unat (maxSize bs1) < 2 ^ 64"
    and "batch_ok bs2" "unat head + unat (maxSize bs2) < 2 ^ 64"
    and "\<And>w h w'. headerLatest (client sy) w = (Inr h, w') \<Longrightarrow> h = head"
    and "last_synced_block (tbl s) < head"
    and "BuildHeadStateSnapshot fuel1 sy ids (s, bs1, w1) = Some (Inr ov, s1, bs1', w1')"
    and "SyncToBlock fuel2 sy head (s, bs2, w2) = Some (Inr (), s2, bs2', w2')"
    and "k \<in> set ids"
  shows "ov k = findRow (tbl s2) k"
proof -
  have "findRow (tbl s2) k = fst (netOf (tbl s2)) k" by (simp add: netOf_def)
  also have "\<dots> = fst (replay (keccakOf sy) (abiOf sy)
      (logsIn chain (unat (last_synced_block (tbl s)) + 1) (unat head + 1)) (netOf (tbl s))) k"
    using SyncToBlock_exact [OF assms(11,9,1,6,7)] by simp
  also have "\<dots> = ov k" using BuildHeadStateSnapshot_rows [OF assms(10,2,3,1,4,5,8,9,12)] by simp
  finally show ?thesis by simp
qed

section \<open>A sample chain\<close>

text \<open>One validator added in block 5, seen by a syncer at block 4.\<close>

definition toyHash :: "bytes \<Rightarrow> bytes" where
  "toyHash b = copyTo 32 b"

definition toyCluster :: cluster where
  "toyCluster = \<lparr>C_ValidatorCount = 1, C_NetworkFeeIndex = 0, C_Index = 0, C_Active = True, C_Balance = 100\<rparr>"

definition toyAbi :: abi where
  "toyAbi = \<lparr>abiEvents = eventSig toyHash,
     unpackValidatorAdded = (\<lambda>_. Inr ([1, 2], replicate 48 9, [], toyCluster)),
     unpackValidatorRemoved = (\<lambda>_. Inl ''abi''), unpackClusterLiquidated = (\<lambda>_. Inl ''abi''),
     unpackClusterReactivated = (\<lambda>_. Inl ''abi''), unpackClusterWithdrawn = (\<lambda>_. Inl ''abi''),
     unpackClusterDeposited = (\<lambda>_. Inl ''abi''), unpackClusterMigratedToETH = (\<lambda>_. Inl ''abi''),
     unpackClusterBalanceUpdated = (\<lambda>_. Inl ''abi'')\<rparr>"

definition toyLog :: Log where
  "toyLog = (sampleLog 5 0)\<lparr>Log_Topics := [the (eventSig toyHash ''ValidatorAdded''), replicate 32 1]\<rparr>"

definition toyClient :: "nat execClient" where
  "toyClient = sampleClient\<lparr>filterLogs := (\<lambda>addr topics a e w.
     (Inr (filter (\<lambda>l. a \<le> Log_BlockNumber l \<and> Log_BlockNumber l \<le> e) [toyLog]), w)),
     headerLatest := retS 5, headerFinalized := retS 4\<rparr>"

definition toySyncer :: "nat EventSyncer" where
  "toySyncer = \<lparr>client = toyClient, keccakOf = toyHash, abiOf = toyAbi, ssvContract = []\<rparr>"

definition toyStoreOn :: "u64 option \<Rightarrow> store" where
  "toyStoreOn c = \<lparr>tbl = emptyTables\<lparr>chain_id := c, last_synced_block := 4\<rparr>, faults = []\<rparr>"

definition toyStore :: store where
  "toyStore = \<lparr>tbl = emptyTables\<lparr>last_synced_block := 4\<rparr>, faults = []\<rparr>"

lemma toyStore_on: "toyStore = toyStoreOn None"
  by (simp add: toyStore_def toyStoreOn_def emptyTables_def)

definition toyID :: bytes where
  "toyID = computeClusterID toyHash (replicate 20 1) [1, 2]"

definition toyGroup :: BlockLogs where
  "toyGroup = \<lparr>BL_BlockNumber = 5, BL_BlockTime = 5, BL_Logs = [toyLog]\<rparr>"

lemma toy_sig: "\<exists>s. eventSig toyHash ''ValidatorAdded'' = Some s"
  by (simp add: eventSig_def eventSignatures_def)

lemma toy_topics: "\<exists>ts. EventTopics toyAbi = Some ts"
  by (simp add: EventTopics_def handledEvents_def toyAbi_def eventSig_def eventSignatures_def)

lemma toy_parse:
  "parseLog toyHash toyAbi toyLog = Inr (''ValidatorAdded'',
     validatorAddedEvent (replicate 20 1) [1, 2] (replicate 48 9) [] toyCluster)"
proof -
  obtain s where s: "eventSig toyHash ''ValidatorAdded'' = Some s" using toy_sig by blast
  then have t: "Log_Topics toyLog = [s, replicate 32 1]" by (simp add: toyLog_def)
  have "parseValidatorAdded toyAbi toyLog =
      Inr (validatorAddedEvent (replicate 20 1) [1, 2] (replicate 48 9) [] toyCluster)"
    by (simp add: parseValidatorAdded_def bindE_def ownerTopic_def t unpackInto_def toyAbi_def bytesToAddress_def)
  then show ?thesis by (simp add: parseLog_def t s withName_def)
qed

lemma toy_process:
  "\<exists>n s'. processBatch toyHash toyAbi 5 [toyGroup] (toyStoreOn c) = (Inr n, s') \<and> faults s' = []"
  by (simp add: processBatch_def withTx_def toyGroup_def processLog_def toy_parse toyStoreOn_def opS_simps
      insertEvent_def applyEvent_def handleValidatorAdded_def upsertCluster_def insertValidator_def
      PublicKeyLength_def UpdateLastSyncedBlock_def Let_def stmt_def insertValidatorTbl_def emptyTables_def
      rowToRec_def)

lemma toy_fetch:
  "fetchLogsBatch toyClient addr 5 5 ts w = (Inr [toyLog], w)"
  "packLogs toyClient [toyLog] w = (Inr [toyGroup], w)"
  "ctxDone (timerOf toyClient) w = False"
  by (simp_all add: fetchLogsBatch_def WithRetry_ok toyClient_def sampleClient_def toyLog_def sampleLog_def
      packLogs_def opS_simps getBlockTimestampsBatch_def timesFrom.simps blockTimestampMaxBatchSize_def
      groupLogsByBlock_def logKey_def Let_def toyGroup_def sampleTimer_def)

lemma toy_FetchLogs:
  "cb 5 [toyGroup] (w, st) = (Inr (), w', st') \<Longrightarrow>
   \<exists>bs'. FetchLogs (Suc (Suc 0)) toyClient addr ts cb 5 5 (NewAdaptiveBatchSize 2 2, w, st) = Some (Inr (), bs', w', st')"
  by (simp add: NewAdaptiveBatchSize_def batchEndOf_def Get_def toy_fetch)

lemma toy_sync_on:
  "\<exists>s' bs' w'. SyncToBlock (Suc (Suc 0)) toySyncer 5 (toyStoreOn c, NewAdaptiveBatchSize 2 2, 0) =
     Some (Inr (), s', bs', w') \<and> faults s' = []"
proof -
  obtain ts where ts: "EventTopics toyAbi = Some ts" using toy_topics by blast
  obtain bs' where f: "FetchLogs (Suc (Suc 0)) toyClient [] ts sendBatch 5 5 (NewAdaptiveBatchSize 2 2, 0, []) =
      Some (Inr (), bs', 0, [\<lparr>br_batchEnd = 5, br_logs = [toyGroup], br_err = None\<rparr>])"
    using toy_FetchLogs [of sendBatch 0 "[]" 0 "[\<lparr>br_batchEnd = 5, br_logs = [toyGroup], br_err = None\<rparr>]" "[]" ts]
    by (auto simp: sendBatch_def)
  obtain n s' where p: "processBatch toyHash toyAbi 5 [toyGroup] (toyStoreOn c) = (Inr n, s')" "faults s' = []"
    using toy_process by blast
  have g: "GetLastSyncedBlock (toyStoreOn c) = (Inr 4, toyStoreOn c)"
    by (simp add: GetLastSyncedBlock_def toyStoreOn_def emptyTables_def)
  show ?thesis
    by (simp add: SyncToBlock_def wrapS_def g runFetcher_def toySyncer_def ts f bindS_def p retS_def
        bulkSyncThreshold_def toy_fetch del: FetchLogs.simps)
qed

lemma toy_sync:
  "\<exists>s' bs' w'. SyncToBlock (Suc (Suc 0)) toySyncer 5 (toyStore, NewAdaptiveBatchSize 2 2, 0) =
     Some (Inr (), s', bs', w') \<and> faults s' = []"
  using toy_sync_on [of None] by (simp add: toyStore_on)

lemma toy_honest: "honestNode toySyncer [toyLog]"
  by (simp add: honestNode_def toySyncer_def toyClient_def)

lemma toy_bounds:
  "batch_ok (NewAdaptiveBatchSize 2 2)" "unat (5::u64) + unat (maxSize (NewAdaptiveBatchSize 2 2)) < 2 ^ 64"
  "last_synced_block (tbl toyStore) = 4" "db_wf (tbl toyStore)"
  by (simp_all add: NewAdaptiveBatchSize_ok)
     (simp_all add: NewAdaptiveBatchSize_def toyStore_def emptyTables_def db_wf_def)

theorem sync_to_block_exact_witness:
  "\<exists>s' bs' w'. SyncToBlock (Suc (Suc 0)) toySyncer 5 (toyStore, NewAdaptiveBatchSize 2 2, 0) =
     Some (Inr (), s', bs', w') \<and> last_synced_block (tbl s') = 5 \<and>
     netOf (tbl s') = replay toyHash toyAbi (logsIn [toyLog] (unat (4::u64) + 1) (unat (5::u64) + 1))
       (netOf (tbl toyStore))"
proof -
  obtain s' bs' w' where r: "SyncToBlock (Suc (Suc 0)) toySyncer 5 (toyStore, NewAdaptiveBatchSize 2 2, 0) =
      Some (Inr (), s', bs', w')" using toy_sync by blast
  have "last_synced_block (tbl toyStore) < 5" by (simp add: toy_bounds)
  from sync_to_block_exact [OF toy_honest toy_bounds(1,2) this r] r show ?thesis
    by (simp add: toy_bounds toySyncer_def)
qed

lemma toy_snapshot:
  "\<exists>ov s' bs' w'. BuildHeadStateSnapshot (Suc (Suc 0)) toySyncer [toyID]
     (toyStore, NewAdaptiveBatchSize 2 2, 0) = Some (Inr ov, s', bs', w')"
proof -
  obtain ts where ts: "EventTopics toyAbi = Some ts" using toy_topics by blast
  let ?cb = "overlayCallback toyHash toyAbi {toyID} :: (nat, overlay) callback"
  obtain ov where "?cb 5 [toyGroup] (0, Map.empty) = (Inr (), 0, ov)"
    by (simp add: overlayCallback_def toyGroup_def toy_parse Let_def)
  from toy_FetchLogs [of ?cb, OF this] obtain bs' where
    f: "FetchLogs (Suc (Suc 0)) toyClient [] ts ?cb 5 5 (NewAdaptiveBatchSize 2 2, 0, Map.empty) =
      Some (Inr (), bs', 0, ov)" by blast
  have g: "GetFinalizedClusters [toyID] toyStore = (Inr ([], 4), toyStore)"
    by (simp add: GetFinalizedClusters_def getClusterRowsByIDs_def clusterRowsFrom.simps opS_simps
        queryClusterRowsBatch_def clusterBatchSize_def toyStore_def emptyTables_def)
  have h: "GetHeadBlock toyClient 0 = (Inr 5, 0)"
    by (simp add: GetHeadBlock_def WithRetry_ok toyClient_def retS_def)
  have i: "copyTo 32 toyID = toyID" by (simp add: toyID_def computeClusterID_def toyHash_def)
  show ?thesis
    by (simp add: BuildHeadStateSnapshot_def wrapS_def g h i toySyncer_def seedOverlay_def ts f Let_def
        del: FetchLogs.simps)
qed

theorem head_overlay_equals_sync_witness:
  "\<exists>ov s2. ov toyID = findRow (tbl s2) toyID \<and> last_synced_block (tbl toyStore) < 5 \<and>
    (\<exists>s1 bs1 w1. BuildHeadStateSnapshot (Suc (Suc 0)) toySyncer [toyID]
      (toyStore, NewAdaptiveBatchSize 2 2, 0) = Some (Inr ov, s1, bs1, w1)) \<and>
    (\<exists>bs2 w2. SyncToBlock (Suc (Suc 0)) toySyncer 5 (toyStore, NewAdaptiveBatchSize 2 2, 0) =
      Some (Inr (), s2, bs2, w2))"
proof -
  obtain ov s1 bs1 w1 where o: "BuildHeadStateSnapshot (Suc (Suc 0)) toySyncer [toyID]
      (toyStore, NewAdaptiveBatchSize 2 2, 0) = Some (Inr ov, s1, bs1, w1)"
    using toy_snapshot by blast
  obtain s2 bs2 w2 where r: "SyncToBlock (Suc (Suc 0)) toySyncer 5 (toyStore, NewAdaptiveBatchSize 2 2, 0) =
      Some (Inr (), s2, bs2, w2)" using toy_sync by blast
  have l: "last_synced_block (tbl toyStore) < 5" by (simp add: toy_bounds)
  have "ov toyID = findRow (tbl s2) toyID"
  proof (rule head_overlay_equals_sync [OF toy_honest toy_bounds(4) _ toy_bounds(1,2) toy_bounds(1,2) _ l o r])
    show "\<forall>i\<in>set [toyID]. length i = 32" by (simp add: toyID_def computeClusterID_def toyHash_def)
  qed (simp_all add: toySyncer_def toyClient_def retS_def)
  with o r l show ?thesis by blast
qed

section \<open>Every schedule of the pipeline\<close>

text \<open>
  The two goroutines of \<open>SyncToBlock\<close>: the fetcher with the values it has still to send,
  the channel of capacity \<open>prefetchBuffer\<close>, and the consumer with its storage, counter
  and result. \<open>p_ctxDone\<close> is the cancellation of the caller's context, \<open>p_fetchDone\<close> that
  of the fetcher's own (cancelled with it, and when the consumer returns).
\<close>

record pipe =
  p_todo :: "batchResult list"
  p_chan :: "batchResult list"
  p_closed :: bool
  p_store :: store
  p_count :: nat
  p_result :: "(goerror + nat) option"
  p_ctxDone :: bool
  p_fetchDone :: bool

definition errBatch :: "goerror \<Rightarrow> batchResult" where
  "errBatch e = \<lparr>br_batchEnd = 0, br_logs = [], br_err = Some e\<rparr>"

text \<open>
  A cancelled fetcher may give up, with any error: that of its callback or of a request that the cancellation
  aborted. It then sends this error or gives that up too.
\<close>

inductive pipeStep :: "(bytes \<Rightarrow> bytes) \<Rightarrow> abi \<Rightarrow> pipe \<Rightarrow> pipe \<Rightarrow> bool" for keccak a where
  send: "p_todo p = b # bs \<Longrightarrow> \<not> p_closed p \<Longrightarrow> length (p_chan p) < prefetchBuffer \<Longrightarrow>
    pipeStep keccak a p (p\<lparr>p_todo := bs, p_chan := p_chan p @ [b]\<rparr>)"
| giveUp: "p_todo p \<noteq> [] \<Longrightarrow> \<not> p_closed p \<Longrightarrow> p_fetchDone p \<Longrightarrow>
    pipeStep keccak a p (p\<lparr>p_todo := []\<rparr>)"
| giveUpErr: "p_todo p \<noteq> [] \<Longrightarrow> \<not> p_closed p \<Longrightarrow> p_fetchDone p \<Longrightarrow>
    pipeStep keccak a p (p\<lparr>p_todo := [errBatch e]\<rparr>)"
| close: "p_todo p = [] \<Longrightarrow> \<not> p_closed p \<Longrightarrow> pipeStep keccak a p (p\<lparr>p_closed := True\<rparr>)"
| cancel: "pipeStep keccak a p (p\<lparr>p_ctxDone := True, p_fetchDone := True\<rparr>)"
| recvErr: "p_result p = None \<Longrightarrow> p_chan p = b # bs \<Longrightarrow> br_err b = Some e \<Longrightarrow>
    pipeStep keccak a p (p\<lparr>p_chan := bs, p_result := Some (Inl e), p_fetchDone := True\<rparr>)"
| recvFail: "p_result p = None \<Longrightarrow> p_chan p = b # bs \<Longrightarrow> br_err b = None \<Longrightarrow>
    processBatch keccak a (br_batchEnd b) (br_logs b) (p_store p) = (Inl e, s') \<Longrightarrow>
    pipeStep keccak a p (p\<lparr>p_chan := bs, p_store := s', p_result := Some (Inl e), p_fetchDone := True\<rparr>)"
| recv: "p_result p = None \<Longrightarrow> p_chan p = b # bs \<Longrightarrow> br_err b = None \<Longrightarrow>
    processBatch keccak a (br_batchEnd b) (br_logs b) (p_store p) = (Inr n, s') \<Longrightarrow>
    pipeStep keccak a p (p\<lparr>p_chan := bs, p_store := s', p_count := p_count p + n\<rparr>)"
| finish: "p_result p = None \<Longrightarrow> p_chan p = [] \<Longrightarrow> p_closed p \<Longrightarrow>
    pipeStep keccak a p (p\<lparr>p_result := Some (if p_ctxDone p then Inl CtxErr else Inr (p_count p)),
      p_fetchDone := True\<rparr>)"

definition pipeInit :: "batchResult list \<Rightarrow> store \<Rightarrow> pipe" where
  "pipeInit sent s = \<lparr>p_todo = sent, p_chan = [], p_closed = False, p_store = s, p_count = 0,
     p_result = None, p_ctxDone = False, p_fetchDone = False\<rparr>"

text \<open>While the consumer runs, it has processed a prefix of what the fetcher has to send; the
  channel and the fetcher hold the rest, cut short only by a cancellation.\<close>

definition pipeRunning ::
    "(bytes \<Rightarrow> bytes) \<Rightarrow> abi \<Rightarrow> batchResult list \<Rightarrow> store \<Rightarrow> pipe \<Rightarrow> bool" where
  "pipeRunning keccak a sent s0 p \<longleftrightarrow>
     (\<exists>done y z t. consume keccak a done 0 s0 = (Inr (p_count p), p_store p) \<and>
        sent = done @ y @ z \<and> p_chan p @ p_todo p = y @ t \<and> (t = [] \<or> (\<exists>e. t = [errBatch e])) \<and>
        (\<not> p_ctxDone p \<longrightarrow> z = [] \<and> t = [])) \<and>
     (p_closed p \<longrightarrow> p_todo p = []) \<and> (p_fetchDone p \<longrightarrow> p_ctxDone p)"

definition pipeOutcome ::
    "(bytes \<Rightarrow> bytes) \<Rightarrow> abi \<Rightarrow> batchResult list \<Rightarrow> store \<Rightarrow> goerror + nat \<Rightarrow> pipe \<Rightarrow> bool" where
  "pipeOutcome keccak a sent s0 r p \<longleftrightarrow>
     consume keccak a sent 0 s0 = (r, p_store p) \<or>
     p_ctxDone p \<and> (\<exists>e. r = Inl e) \<and>
       (\<exists>done rest n. sent = done @ rest \<and> consume keccak a done 0 s0 = (Inr n, p_store p))"

definition pipeInv :: "(bytes \<Rightarrow> bytes) \<Rightarrow> abi \<Rightarrow> batchResult list \<Rightarrow> store \<Rightarrow> pipe \<Rightarrow> bool" where
  "pipeInv keccak a sent s0 p \<longleftrightarrow>
     (case p_result p of None \<Rightarrow> pipeRunning keccak a sent s0 p | Some r \<Rightarrow> pipeOutcome keccak a sent s0 r p)"

lemma consume_append:
  "consume keccak a (xs @ ys) n s = bindS (consume keccak a xs n) (\<lambda>m. consume keccak a ys m) s"
proof (induction xs arbitrary: n s)
  case (Cons b xs)
  then show ?case by (cases "br_err b") (auto simp: opS_simps split: prod.splits sum.splits)
qed (simp add: opS_simps)

lemma pipeRunningI:
  "consume keccak a don 0 s0 = (Inr (p_count p), p_store p) \<Longrightarrow> sent = don @ y @ z \<Longrightarrow>
   p_chan p @ p_todo p = y @ t \<Longrightarrow> t = [] \<or> (\<exists>e. t = [errBatch e]) \<Longrightarrow> (\<not> p_ctxDone p \<Longrightarrow> z = [] \<and> t = []) \<Longrightarrow>
   (p_closed p \<Longrightarrow> p_todo p = []) \<Longrightarrow> (p_fetchDone p \<Longrightarrow> p_ctxDone p) \<Longrightarrow> pipeRunning keccak a sent s0 p"
  unfolding pipeRunning_def by blast

lemma pipeRunningE:
  assumes "pipeRunning keccak a sent s0 p"
  obtains don y z t where "consume keccak a don 0 s0 = (Inr (p_count p), p_store p)" "sent = don @ y @ z"
    "p_chan p @ p_todo p = y @ t" "t = [] \<or> (\<exists>e. t = [errBatch e])" "\<not> p_ctxDone p \<Longrightarrow> z = [] \<and> t = []"
    "p_closed p \<Longrightarrow> p_todo p = []" "p_fetchDone p \<Longrightarrow> p_ctxDone p"
  using assms unfolding pipeRunning_def by blast

lemma pipeRunning_cut:
  assumes "pipeRunning keccak a sent s0 p" "p_todo p \<noteq> []" "p_fetchDone p" "t' = [] \<or> (\<exists>e. t' = [errBatch e])"
    "\<not> p_closed p"
  shows "pipeRunning keccak a sent s0 (p\<lparr>p_todo := t'\<rparr>)"
  using assms(1)
proof (rule pipeRunningE)
  fix don y z t
  assume c: "consume keccak a don 0 s0 = (Inr (p_count p), p_store p)" "sent = don @ y @ z"
    "p_chan p @ p_todo p = y @ t" "t = [] \<or> (\<exists>e. t = [errBatch e])" "p_fetchDone p \<Longrightarrow> p_ctxDone p"
  from c(3,4) assms(2) obtain y2 where y: "y = p_chan p @ y2"
    by (auto simp: append_eq_append_conv2 append_eq_Cons_conv)
  show ?thesis
    by (rule pipeRunningI [of keccak a don s0 _ sent "p_chan p" "y2 @ z" t']) (use assms c y in simp_all)
qed

lemma pipeRunning_recv:
  assumes "pipeRunning keccak a sent s0 p" "p_chan p = b # bs"
  shows "(\<exists>don rest. consume keccak a don 0 s0 = (Inr (p_count p), p_store p) \<and> sent = don @ b # rest) \<or>
    (\<exists>e. b = errBatch e) \<and> p_ctxDone p \<and>
      (\<exists>don rest. consume keccak a don 0 s0 = (Inr (p_count p), p_store p) \<and> sent = don @ rest)"
  using assms(1)
proof (rule pipeRunningE)
  fix don y z t
  assume c: "consume keccak a don 0 s0 = (Inr (p_count p), p_store p)" "sent = don @ y @ z"
    "p_chan p @ p_todo p = y @ t" "t = [] \<or> (\<exists>e. t = [errBatch e])" "\<not> p_ctxDone p \<Longrightarrow> z = [] \<and> t = []"
  show ?thesis
  proof (cases y)
    case Nil
    then have "\<exists>e. b = errBatch e" "t \<noteq> []" using c(3,4) assms(2) by auto
    then show ?thesis using c by blast
  next
    case (Cons b' y')
    then have "b' = b" using c(3) assms(2) by simp
    then show ?thesis using c(1,2) Cons by auto
  qed
qed

lemma pipeRunning_stop:
  assumes "pipeRunning keccak a sent s0 p" "p_chan p = b # bs"
    "\<And>n. consume keccak a [b] n (p_store p) = (Inl e, s')" "\<And>e'. b = errBatch e' \<Longrightarrow> s' = p_store p"
  shows "pipeOutcome keccak a sent s0 (Inl e) (p\<lparr>p_chan := bs, p_store := s', p_result := Some (Inl e), p_fetchDone := True\<rparr>)"
  using pipeRunning_recv [OF assms(1,2)]
proof (elim disjE exE conjE)
  fix don rest
  assume d: "consume keccak a don 0 s0 = (Inr (p_count p), p_store p)" "sent = don @ b # rest"
  have "consume keccak a (don @ [b] @ rest) 0 s0 = (Inl e, s')"
    unfolding consume_append bindS_def using d(1) assms(3) by simp
  then show ?thesis using d(2) by (simp add: pipeOutcome_def)
next
  fix don rest e'
  assume "b = errBatch e'" "p_ctxDone p" "consume keccak a don 0 s0 = (Inr (p_count p), p_store p)"
    "sent = don @ rest"
  then show ?thesis using assms(4) by (auto simp: pipeOutcome_def)
qed

lemma pipeRunning_next:
  assumes "pipeRunning keccak a sent s0 p" "p_chan p = b # bs" "br_err b = None"
    "processBatch keccak a (br_batchEnd b) (br_logs b) (p_store p) = (Inr n, s')"
  shows "pipeRunning keccak a sent s0 (p\<lparr>p_chan := bs, p_store := s', p_count := p_count p + n\<rparr>)"
  using assms(1)
proof (rule pipeRunningE)
  fix don y z t
  assume c: "consume keccak a don 0 s0 = (Inr (p_count p), p_store p)" "sent = don @ y @ z"
    "p_chan p @ p_todo p = y @ t" "t = [] \<or> (\<exists>e. t = [errBatch e])" "\<not> p_ctxDone p \<Longrightarrow> z = [] \<and> t = []"
    "p_closed p \<Longrightarrow> p_todo p = []" "p_fetchDone p \<Longrightarrow> p_ctxDone p"
  have "y \<noteq> []" using c(3,4) assms(2,3) by (auto simp: errBatch_def)
  then obtain y' where y: "y = b # y'" using c(3) assms(2) by (cases y) auto
  have "consume keccak a (don @ [b]) 0 s0 = (Inr (p_count p + n), s')"
    unfolding consume_append bindS_def using c(1) assms(3,4) by (simp add: opS_simps)
  then show ?thesis
    by (intro pipeRunningI [of keccak a "don @ [b]" s0 _ sent y' z t]) (use assms c y in simp_all)
qed

lemma pipeOutcome_cong:
  "pipeOutcome keccak a sent s0 r p \<Longrightarrow> p_store p' = p_store p \<Longrightarrow> (p_ctxDone p \<Longrightarrow> p_ctxDone p') \<Longrightarrow>
   pipeOutcome keccak a sent s0 r p'"
  unfolding pipeOutcome_def by auto

lemma pipeRunning_finish:
  assumes "pipeRunning keccak a sent s0 p" "p_chan p = []" "p_closed p"
  shows "pipeOutcome keccak a sent s0 (if p_ctxDone p then Inl CtxErr else Inr (p_count p)) p"
  using assms(1)
proof (rule pipeRunningE)
  fix don y z t
  assume c: "consume keccak a don 0 s0 = (Inr (p_count p), p_store p)" "sent = don @ y @ z"
    "p_chan p @ p_todo p = y @ t" "\<not> p_ctxDone p \<Longrightarrow> z = [] \<and> t = []" "p_closed p \<Longrightarrow> p_todo p = []"
  have "y = []" using c(3,5) assms(2,3) by simp
  then show ?thesis using c by (auto simp: pipeOutcome_def)
qed

lemma pipeRunning_send:
  assumes "pipeRunning keccak a sent s0 p" "p_todo p = b # bs" "\<not> p_closed p"
  shows "pipeRunning keccak a sent s0 (p\<lparr>p_todo := bs, p_chan := p_chan p @ [b]\<rparr>)"
  using assms(1)
proof (rule pipeRunningE)
  fix don y z t
  assume c: "consume keccak a don 0 s0 = (Inr (p_count p), p_store p)" "sent = don @ y @ z"
    "p_chan p @ p_todo p = y @ t" "t = [] \<or> (\<exists>e. t = [errBatch e])" "\<not> p_ctxDone p \<Longrightarrow> z = [] \<and> t = []"
    "p_fetchDone p \<Longrightarrow> p_ctxDone p"
  show ?thesis
    by (rule pipeRunningI [of keccak a don s0 _ sent y z t]) (use assms c in simp_all)
qed

lemma pipeRunning_flags:
  assumes "pipeRunning keccak a sent s0 p" "p_store p' = p_store p" "p_count p' = p_count p"
    "p_chan p' = p_chan p" "p_todo p' = p_todo p" "p_ctxDone p \<Longrightarrow> p_ctxDone p'"
    "p_closed p' \<Longrightarrow> p_todo p' = []" "p_fetchDone p' \<Longrightarrow> p_ctxDone p'"
  shows "pipeRunning keccak a sent s0 p'"
  using assms(1)
proof (rule pipeRunningE)
  fix don y z t
  assume c: "consume keccak a don 0 s0 = (Inr (p_count p), p_store p)" "sent = don @ y @ z"
    "p_chan p @ p_todo p = y @ t" "t = [] \<or> (\<exists>e. t = [errBatch e])" "\<not> p_ctxDone p \<Longrightarrow> z = [] \<and> t = []"
  show ?thesis
    by (rule pipeRunningI [of keccak a don s0 _ sent y z t]) (use assms c in auto)
qed

lemma pipeStep_result: "pipeStep keccak a p p' \<Longrightarrow> p_result p = Some r \<Longrightarrow>
  p_result p' = Some r \<and> p_store p' = p_store p \<and> (p_ctxDone p \<longrightarrow> p_ctxDone p')"
  by (induction rule: pipeStep.induct) simp_all

lemma pipeStep_inv:
  assumes "pipeStep keccak a p p'" "pipeInv keccak a sent s0 p"
  shows "pipeInv keccak a sent s0 p'"
proof (cases "p_result p")
  case (Some r)
  then show ?thesis
    using pipeStep_result [OF assms(1) Some] assms(2)
    by (auto simp: pipeInv_def intro: pipeOutcome_cong)
next
  case None
  then have run: "pipeRunning keccak a sent s0 p" using assms(2) by (simp add: pipeInv_def)
  then have fd: "p_fetchDone p \<Longrightarrow> p_ctxDone p" "p_closed p \<Longrightarrow> p_todo p = []"
    by (simp_all add: pipeRunning_def)
  from assms(1) show ?thesis
  proof cases
    case (send b bs)
    then show ?thesis using None pipeRunning_send [OF run] by (simp add: pipeInv_def)
  next
    case giveUp
    then show ?thesis using None pipeRunning_cut [OF run, of "[]"] by (simp add: pipeInv_def)
  next
    case (giveUpErr e)
    then show ?thesis using None pipeRunning_cut [OF run, of "[errBatch e]"] by (auto simp: pipeInv_def)
  next
    case close
    then show ?thesis using None fd by (auto simp: pipeInv_def intro: pipeRunning_flags [OF run])
  next
    case cancel
    then show ?thesis using None fd by (auto simp: pipeInv_def intro: pipeRunning_flags [OF run])
  next
    case (recvErr b bs e)
    then show ?thesis using pipeRunning_stop [OF run recvErr(3), of e "p_store p"] recvErr
      by (simp add: pipeInv_def failS_def)
  next
    case (recvFail b bs e s')
    then have "b \<noteq> errBatch e'" for e' by (auto simp: errBatch_def)
    then show ?thesis using pipeRunning_stop [OF run recvFail(3), of e s'] recvFail
      by (simp add: pipeInv_def bindS_def)
  next
    case (recv b bs n s')
    then show ?thesis using None pipeRunning_next [OF run] by (simp add: pipeInv_def)
  next
    case finish
    then show ?thesis using pipeRunning_finish [OF run]
      by (auto simp: pipeInv_def intro: pipeOutcome_cong)
  qed
qed

lemma pipeInit_inv: "pipeInv keccak a sent s0 (pipeInit sent s0)"
  unfolding pipeInv_def pipeInit_def
  by (simp, rule pipeRunningI [of keccak a "[]" s0 _ sent sent "[]" "[]"]) (simp_all add: retS_def)

lemma pipe_reachable_inv:
  "(pipeStep keccak a)\<^sup>*\<^sup>* (pipeInit sent s0) p \<Longrightarrow> pipeInv keccak a sent s0 p"
  by (induction rule: rtranclp_induct) (auto intro: pipeInit_inv pipeStep_inv)

text \<open>C14: the pipeline gives the result of the sequential loop under every interleaving of the
  fetcher, the consumer and a cancellation. When the consumer has returned, either its result
  and the storage are exactly those of processing all batches in order until the first error,
  or the context was cancelled, the result is an error, and the storage is that of a
  sequentially processed prefix. In particular a success has processed everything.\<close>

theorem pipeline_schedule_independent:
  assumes "(pipeStep keccak a)\<^sup>*\<^sup>* (pipeInit sent s0) p" "p_result p = Some r"
  shows "consume keccak a sent 0 s0 = (r, p_store p) \<or>
    p_ctxDone p \<and> (\<exists>e. r = Inl e) \<and>
      (\<exists>done rest n. sent = done @ rest \<and> consume keccak a done 0 s0 = (Inr n, p_store p))"
  using pipe_reachable_inv [OF assms(1)] assms(2) by (simp add: pipeInv_def pipeOutcome_def)

lemma toy_schedule:
  assumes "processBatch keccak a e bls s0 = (Inr n, s')"
  defines "b \<equiv> \<lparr>br_batchEnd = e, br_logs = bls, br_err = None\<rparr>"
  shows "\<exists>p. (pipeStep keccak a)\<^sup>*\<^sup>* (pipeInit [b] s0) p \<and> p_result p = Some (Inr n)"
proof -
  let ?p = "\<lambda>td ch cl s k r f. \<lparr>p_todo = td, p_chan = ch, p_closed = cl, p_store = s, p_count = k,
     p_result = r, p_ctxDone = False, p_fetchDone = f\<rparr>"
  have 1: "pipeStep keccak a (pipeInit [b] s0) (?p [] [b] False s0 0 None False)"
    using send [of "pipeInit [b] s0" b "[]" keccak a] by (simp add: pipeInit_def prefetchBuffer_def)
  have 2: "pipeStep keccak a (?p [] [b] False s0 0 None False) (?p [] [] False s' n None False)"
    using recv [of "?p [] [b] False s0 0 None False" b "[]" keccak a n s'] assms by simp
  have 3: "pipeStep keccak a (?p [] [] False s' n None False) (?p [] [] True s' n None False)"
    using close [of "?p [] [] False s' n None False" keccak a] by simp
  have 4: "pipeStep keccak a (?p [] [] True s' n None False) (?p [] [] True s' n (Some (Inr n)) True)"
    using finish [of "?p [] [] True s' n None False" keccak a] by simp
  from 1 2 3 4 have "(pipeStep keccak a)\<^sup>*\<^sup>* (pipeInit [b] s0) (?p [] [] True s' n (Some (Inr n)) True)"
    by (meson converse_rtranclp_into_rtranclp r_into_rtranclp)
  then show ?thesis by (intro exI conjI) (assumption, simp)
qed

theorem pipeline_schedule_independent_witness:
  "\<exists>p n. (pipeStep toyHash toyAbi)\<^sup>*\<^sup>*
       (pipeInit [\<lparr>br_batchEnd = 5, br_logs = [toyGroup], br_err = None\<rparr>] toyStore) p \<and>
     p_result p = Some (Inr n) \<and>
     consume toyHash toyAbi [\<lparr>br_batchEnd = 5, br_logs = [toyGroup], br_err = None\<rparr>] 0 toyStore =
       (Inr n, p_store p)"
proof -
  obtain n s' where "processBatch toyHash toyAbi 5 [toyGroup] toyStore = (Inr n, s')"
    using toy_process [of None] unfolding toyStore_on by blast
  from toy_schedule [OF this] obtain p where
    p: "(pipeStep toyHash toyAbi)\<^sup>*\<^sup>*
       (pipeInit [\<lparr>br_batchEnd = 5, br_logs = [toyGroup], br_err = None\<rparr>] toyStore) p"
      "p_result p = Some (Inr n)" by blast
  from pipeline_schedule_independent [OF this] p show ?thesis by blast
qed

text \<open>C29: the pipeline is never stuck: as long as the consumer has not returned, some step other
  than a cancellation is possible, from any state that every schedule can reach.\<close>

theorem pipeline_never_stuck:
  assumes "(pipeStep keccak a)\<^sup>*\<^sup>* (pipeInit sent s0) p" "p_result p = None"
  shows "\<exists>p'. pipeStep keccak a p p' \<and> (p_result p' \<noteq> None \<or>
    2 * length (p_todo p') + length (p_chan p') + (if p_closed p' then 0 else 1) <
    2 * length (p_todo p) + length (p_chan p) + (if p_closed p then 0 else (1::nat)))"
proof -
  have cl: "p_closed p \<Longrightarrow> p_todo p = []"
    using pipe_reachable_inv [OF assms(1)] assms(2) by (simp add: pipeInv_def pipeRunning_def)
  show ?thesis
  proof (cases "p_chan p")
    case (Cons b bs)
    obtain r s' where p: "processBatch keccak a (br_batchEnd b) (br_logs b) (p_store p) = (r, s')" by fastforce
    show ?thesis
    proof (cases "br_err b")
      case (Some e)
      then show ?thesis using recvErr [OF assms(2) Cons Some, of keccak a] by fastforce
    next
      case None
      then show ?thesis
        using recvFail [OF assms(2) Cons None, of keccak a] recv [OF assms(2) Cons None, of keccak a] p Cons
        by (cases r) fastforce+
    qed
  next
    case Nil
    show ?thesis
    proof (cases "p_closed p")
      case True
      then show ?thesis using finish [OF assms(2) Nil True, of keccak a] by fastforce
    next
      case False
      show ?thesis
      proof (cases "p_todo p")
        case (Cons b bs)
        then show ?thesis using send [OF Cons False, of keccak a] Nil False
          by (fastforce simp: prefetchBuffer_def)
      next
        case nil: Nil
        then show ?thesis using close [OF nil False, of keccak a] Nil False by fastforce
      qed
    qed
  qed
qed

theorem pipeline_never_stuck_witness:
  "\<exists>p'. pipeStep toyHash toyAbi (pipeInit [errBatch CtxErr] toyStore) p'"
  using pipeline_never_stuck [of toyHash toyAbi "[errBatch CtxErr]" toyStore "pipeInit [errBatch CtxErr] toyStore"]
  by (auto simp: pipeInit_def)

end
