(* ===== verification/TxManager.thy ===== *)
theory TxManager
  imports Retry
begin

text \<open>
  Transaction submission: \<^verbatim>\<open>txmanager/config.go\<close> and \<^verbatim>\<open>txmanager/manager.go\<close>. The
  node, the signer, the MEV endpoints and go-ethereum's decoding of revert data are
  parameters. Amounts of wei are \<open>int\<close> (Go's \<open>big.Int\<close>).
\<close>

section \<open>Policy\<close>

record TxPolicy =
  GasBufferPercent :: int
  MaxFeePerGasGwei :: u64
  PendingTimeoutBlocks :: int
  GasBumpPercent :: int
  MaxAttempts :: int
  RetryDelay :: int

definition ApplyDefaults :: "TxPolicy \<Rightarrow> TxPolicy" where
  "ApplyDefaults p =
     \<lparr>GasBufferPercent = (if GasBufferPercent p = 0 then 20 else GasBufferPercent p),
      MaxFeePerGasGwei = (if MaxFeePerGasGwei p = 0 then 420 else MaxFeePerGasGwei p),
      PendingTimeoutBlocks = (if PendingTimeoutBlocks p = 0 then 10 else PendingTimeoutBlocks p),
      GasBumpPercent = (if GasBumpPercent p = 0 then 10 else GasBumpPercent p),
      MaxAttempts = (if MaxAttempts p = 0 then 3 else MaxAttempts p),
      RetryDelay = (if RetryDelay p = 0 then 5 * 10 ^ 9 else RetryDelay p)\<rparr>"

definition decInt :: "int \<Rightarrow> string" where
  "decInt i = (if i < 0 then ''-'' @ dec (nat (- i)) else dec (nat i))"

definition ValidatePolicy :: "TxPolicy \<Rightarrow> goerror option" where
  "ValidatePolicy p =
     (if GasBufferPercent p < 0 \<or> 100 < GasBufferPercent p
      then Some (ErrNew (''gas_buffer_percent must be 0-100, got '' @ decInt (GasBufferPercent p)))
      else if GasBumpPercent p < 10
      then Some (ErrNew (''gas_bump_percent must be at least 10 (EIP-1559 requirement), got '' @
        decInt (GasBumpPercent p)))
      else if PendingTimeoutBlocks p < 1
      then Some (ErrNew (''pending_timeout_blocks must be at least 1, got '' @ decInt (PendingTimeoutBlocks p)))
      else if MaxAttempts p < 1
      then Some (ErrNew (''max_attempts must be at least 1, got '' @ decInt (MaxAttempts p)))
      else if RetryDelay p < 0 then Some (ErrNew ''retry_delay cannot be negative'')
      else if MaxFeePerGasGwei p < 1
      then Some (ErrNew (''max_fee_per_gas_gwei must be at least 1, got '' @ dec (unat (MaxFeePerGasGwei p))))
      else None)"

definition gweiWei :: int where
  "gweiWei = 10 ^ 9"

definition MaxFeePerGasWei :: "TxPolicy \<Rightarrow> int" where
  "MaxFeePerGasWei p = uint (MaxFeePerGasGwei p) * gweiWei"

definition minTipCap :: int where
  "minTipCap = gweiWei"

section \<open>Transactions and the outside\<close>

record TxOpts =
  Opts_To :: bytes
  Opts_Data :: bytes
  Opts_Value :: "int option"
  Opts_GasLimit :: u64
  Opts_MEVProtected :: bool

record transaction =
  Tx_Nonce :: u64
  Tx_GasTipCap :: int
  Tx_GasFeeCap :: int
  Tx_Gas :: u64
  Tx_To :: bytes
  Tx_Value :: int
  Tx_Data :: bytes

text \<open>A signed transaction is known by its fields and its hash.\<close>

record signedTx =
  Signed_Tx :: transaction
  Signed_Hash :: bytes

record receipt =
  Receipt_Status :: u64
  Receipt_TxHash :: bytes
  Receipt_BlockNumber :: int

text \<open>
  The manager: its policy, its signer (\<open>signTx\<close>, \<open>signerAddress\<close>), the calls of
  \<open>ethclient\<close>, the send operations of the MEV endpoints, the timer, the revert decoding of
  go-ethereum (\<open>revertErrorData\<close> is \<open>ethclient.RevertErrorData\<close>, \<open>unpackRevert\<close> is
  \<open>abi.UnpackRevert\<close>) and the selectors of \<open>SetErrorSelectors\<close>.
\<close>

record 'w TxManager =
  policy :: TxPolicy
  signerAddress :: bytes
  signTx :: "transaction \<Rightarrow> ('w, signedTx) op"
  callEstimateGas :: "TxOpts \<Rightarrow> ('w, u64) op"
  callSuggestGasTipCap :: "('w, int) op"
  callBaseFee :: "('w, int) op"
  callPendingNonceAt :: "bytes \<Rightarrow> ('w, u64) op"
  callSendTransaction :: "signedTx \<Rightarrow> ('w, unit) op"
  callTransactionReceipt :: "bytes \<Rightarrow> ('w, receipt) op"
  callBlockNumber :: "('w, u64) op"
  callContractAt :: "TxOpts \<Rightarrow> int \<Rightarrow> ('w, bytes) op"
  mevClients :: "(signedTx \<Rightarrow> ('w, unit) op) list"
  clock :: "'w timer"
  revertErrorData :: "goerror \<Rightarrow> bytes option"
  unpackRevert :: "bytes \<Rightarrow> string option"
  errorSelectors :: "string \<rightharpoonup> string"

definition errMaxGasReached :: goerror where
  "errMaxGasReached = ErrNew ''max gas price reached, tx cancelled''"

definition errMaxAttemptsExhausted :: goerror where
  "errMaxAttemptsExhausted = ErrNew ''max attempts exhausted''"

definition errNonceTooLow :: goerror where
  "errNonceTooLow = ErrNew ''nonce too low''"

definition errInsufficientFunds :: goerror where
  "errInsufficientFunds = ErrNew ''insufficient funds''"

definition errBaseFeeExceedsMax :: goerror where
  "errBaseFeeExceedsMax = ErrNew ''base fee exceeds max_fee_per_gas''"

section \<open>Error texts\<close>

definition isTxAlreadyKnown :: "goerror \<Rightarrow> bool" where
  "isTxAlreadyKnown err = contains (toLower (errText err)) ''already known''"

definition isNonceTooLow :: "goerror \<Rightarrow> bool" where
  "isNonceTooLow err = contains (toLower (errText err)) ''nonce too low''"

definition isInsufficientFunds :: "goerror \<Rightarrow> bool" where
  "isInsufficientFunds err =
     (let s = toLower (errText err)
      in contains s ''insufficient funds'' \<or> contains s ''insufficient balance'')"

definition isUnderpriced :: "goerror \<Rightarrow> bool" where
  "isUnderpriced err =
     (let s = toLower (errText err)
      in contains s ''replacement transaction underpriced'' \<or>
         contains s ''max fee per gas less than block base fee'' \<or> contains s ''underpriced'')"

definition IsContractRevert :: "'w TxManager \<Rightarrow> goerror \<Rightarrow> bool" where
  "IsContractRevert m err =
     (revertErrorData m err \<noteq> None \<or> contains (toLower (errText err)) ''execution reverted:'')"

text \<open>\<open>IsRevertError\<close>: a \<open>RevertError\<close> somewhere in the chain.\<close>

fun IsRevertError :: "goerror \<Rightarrow> bool" where
  "IsRevertError (RevertError r s t) = True"
| "IsRevertError (Wrap p e) = IsRevertError e"
| "IsRevertError (Wrap2 a b) = (IsRevertError a \<or> IsRevertError b)"
| "IsRevertError _ = False"

fun afterFirst :: "string \<Rightarrow> string \<Rightarrow> string option" where
  "afterFirst pat [] = (if pat = [] then Some [] else None)"
| "afterFirst pat (c # cs) =
     (if hasPrefix (c # cs) pat then Some (drop (length pat) (c # cs)) else afterFirst pat cs)"

definition isSpaceChar :: "char \<Rightarrow> bool" where
  "isSpaceChar c = (of_char c \<in> {9, 10, 11, 12, 13, 32 :: nat})"

definition trimSpace :: "string \<Rightarrow> string" where
  "trimSpace s = rev (dropWhile isSpaceChar (rev (dropWhile isSpaceChar s)))"

definition decodeErrorSelector :: "'w TxManager \<Rightarrow> string \<Rightarrow> string" where
  "decodeErrorSelector m reason =
     (if hasPrefix reason ''0x'' \<and> 10 \<le> length reason
      then case errorSelectors m (take 8 (drop 2 reason)) of Some name \<Rightarrow> name | None \<Rightarrow> reason
      else reason)"

definition ExtractRevertReason :: "'w TxManager \<Rightarrow> goerror \<Rightarrow> string" where
  "ExtractRevertReason m err =
     (case revertErrorData m err of
        Some (b # bs) \<Rightarrow>
          let revertData = b # bs in
          (case unpackRevert m revertData of
             Some reason \<Rightarrow> reason
           | None \<Rightarrow>
               (case (if 4 \<le> length revertData then errorSelectors m (hex (take 4 revertData)) else None) of
                  Some name \<Rightarrow> name
                | None \<Rightarrow> ''0x'' @ hex revertData))
      | _ \<Rightarrow>
          (case afterFirst ''execution reverted:'' (errText err) of
             None \<Rightarrow> errText err
           | Some rest \<Rightarrow>
               let reason = trimSpace rest in
               if reason \<noteq> '''' then decodeErrorSelector m reason else errText err))"

section \<open>Fees\<close>

definition applyBumpPercent :: "'w TxManager \<Rightarrow> int \<Rightarrow> int" where
  "applyBumpPercent m v = v * wrap64 (100 + GasBumpPercent (policy m)) div 100"

text \<open>\<open>gasFeeCap = 2*baseFee + gasTipCap\<close>, both capped at \<open>maxFee\<close>.\<close>

definition capFees :: "int \<Rightarrow> int \<Rightarrow> int \<Rightarrow> int \<times> int" where
  "capFees maxFee gasTipCap baseFee =
     (let gasFeeCap = baseFee * 2 + gasTipCap in
      if maxFee < gasFeeCap then (if maxFee < gasTipCap then maxFee else gasTipCap, maxFee)
      else (gasTipCap, gasFeeCap))"

definition suggestGasFees :: "'w TxManager \<Rightarrow> ('w, int \<times> int) op" where
  "suggestGasFees m =
     (let maxFee = MaxFeePerGasWei (policy m) in
      bindS (wrapS ''get gas tip cap'' (callSuggestGasTipCap m)) (\<lambda>tip0.
      let gasTipCap = (if tip0 < minTipCap then minTipCap else tip0) in
      bindS (wrapS ''get latest header'' (callBaseFee m)) (\<lambda>baseFee.
      if maxFee < baseFee
      then failS (Wrap2 errBaseFeeExceedsMax (LibErr (''base fee '' @ decInt baseFee @ '' > max '' @ decInt maxFee)))
      else retS (capFees maxFee gasTipCap baseFee))))"

text \<open>\<open>bumpOrResuggest\<close>: \<open>None\<close> is \<open>shouldCancel\<close>.\<close>

definition bumpOrResuggest :: "'w TxManager \<Rightarrow> int \<Rightarrow> int \<Rightarrow> 'w \<Rightarrow> (int \<times> int) option \<times> 'w" where
  "bumpOrResuggest m currentTip currentFeeCap w =
     (let maxFee = MaxFeePerGasWei (policy m);
          bumpedTip = applyBumpPercent m currentTip;
          bumpedFeeCap = applyBumpPercent m currentFeeCap in
      if maxFee < bumpedFeeCap then (None, w)
      else (case suggestGasFees m w of
          (Inl err, w') \<Rightarrow>
            if errIs err errBaseFeeExceedsMax then (None, w') else (Some (bumpedTip, bumpedFeeCap), w')
        | (Inr (freshTip, freshFeeCap), w') \<Rightarrow>
            (Some (if bumpedTip < freshTip then freshTip else bumpedTip,
                   if bumpedFeeCap < freshFeeCap then freshFeeCap else bumpedFeeCap), w')))"

section \<open>Gas, signing and sending\<close>

definition estimateGas :: "'w TxManager \<Rightarrow> TxOpts \<Rightarrow> ('w, u64) op" where
  "estimateGas m opts w =
     (if Opts_GasLimit opts \<noteq> 0 then (Inr (Opts_GasLimit opts), w)
      else (case callEstimateGas m opts w of
          (Inl err, w') \<Rightarrow>
            if IsContractRevert m err
            then (Inl (RevertError (ExtractRevertReason m err) True ''''), w')
            else (Inl (Wrap ''estimate gas'' err), w')
        | (Inr estimated, w') \<Rightarrow>
            (Inr (estimated * word_of_int (100 + GasBufferPercent (policy m)) div 100), w')))"

definition buildAndSignTx ::
    "'w TxManager \<Rightarrow> TxOpts \<Rightarrow> u64 \<Rightarrow> u64 \<Rightarrow> int \<Rightarrow> int \<Rightarrow> int \<Rightarrow> ('w, signedTx) op" where
  "buildAndSignTx m opts nonce gasLimit gasTipCap gasFeeCap val =
     wrapS ''sign tx'' (signTx m
       \<lparr>Tx_Nonce = nonce, Tx_GasTipCap = gasTipCap, Tx_GasFeeCap = gasFeeCap, Tx_Gas = gasLimit,
        Tx_To = Opts_To opts, Tx_Value = val, Tx_Data = Opts_Data opts\<rparr>)"

text \<open>
  The parallel sends of \<open>sendToMEVRPCs\<close> in one order: the program only counts the
  acceptances (the last error goes to the log).
\<close>

fun mevAccepted :: "(signedTx \<Rightarrow> ('w, unit) op) list \<Rightarrow> signedTx \<Rightarrow> 'w \<Rightarrow> nat \<times> 'w" where
  "mevAccepted [] tx w = (0, w)"
| "mevAccepted (c # cs) tx w =
     (let (r, w1) = c tx w; (n, w2) = mevAccepted cs tx w1
      in (case r of Inr _ \<Rightarrow> Suc n | Inl err \<Rightarrow> if isTxAlreadyKnown err then Suc n else n, w2))"

definition sendToMEVRPCs :: "'w TxManager \<Rightarrow> signedTx \<Rightarrow> ('w, unit) op" where
  "sendToMEVRPCs m tx w =
     (let (n, w') = mevAccepted (mevClients m) tx w
      in if 0 < n then (Inr (), w') else callSendTransaction m tx w')"

section \<open>Receipts\<close>

definition replayForRevertReason :: "'w TxManager \<Rightarrow> TxOpts \<Rightarrow> int \<Rightarrow> 'w \<Rightarrow> string \<times> 'w" where
  "replayForRevertReason m opts blockNum w =
     (case callContractAt m opts blockNum w of
        (Inr _, w') \<Rightarrow> (''unknown (call succeeded on replay)'', w')
      | (Inl err, w') \<Rightarrow> (ExtractRevertReason m err, w'))"

text \<open>A result of \<open>SendTransaction\<close>: a receipt and an error, each possibly nil.\<close>

type_synonym txResult = "receipt option \<times> goerror option"

definition handleReceipt ::
    "'w TxManager \<Rightarrow> TxOpts \<Rightarrow> signedTx \<Rightarrow> receipt \<Rightarrow> 'w \<Rightarrow> txResult \<times> 'w" where
  "handleReceipt m opts tx r w =
     (if Receipt_Status r = 1 then ((Some r, None), w)
      else let (reason, w') = replayForRevertReason m opts (Receipt_BlockNumber r) w
           in ((Some r, Some (RevertError reason False (''0x'' @ hex (Signed_Hash tx)))), w'))"

text \<open>\<open>findMinedReceipt\<close>: \<open>None\<close> when no published transaction has a receipt.\<close>

fun findMinedReceipt ::
    "'w TxManager \<Rightarrow> TxOpts \<Rightarrow> signedTx list \<Rightarrow> 'w \<Rightarrow> txResult option \<times> 'w" where
  "findMinedReceipt m opts [] w = (None, w)"
| "findMinedReceipt m opts (tx # txs) w =
     (case callTransactionReceipt m (Signed_Hash tx) w of
        (Inl _, w') \<Rightarrow> findMinedReceipt m opts txs w'
      | (Inr r, w') \<Rightarrow> let (res, w'') = handleReceipt m opts tx r w' in (Some res, w''))"

definition receiptPollInterval :: int where
  "receiptPollInterval = 4 * 10 ^ 9"

definition blockNumberRetryLimit :: nat where
  "blockNumberRetryLimit = 3"

text \<open>
  The polling loop of \<open>waitForReceipt\<close>, on fuel: \<open>None\<close> is a loop that still runs.
  \<open>currentBlock-startBlock\<close> is a difference of \<open>uint64\<close>.
\<close>

fun pollReceipt ::
    "nat \<Rightarrow> 'w TxManager \<Rightarrow> signedTx \<Rightarrow> u64 \<Rightarrow> nat \<Rightarrow> 'w \<Rightarrow> ((goerror + receipt) \<times> 'w) option" where
  "pollReceipt 0 m tx startBlock failures w = None"
| "pollReceipt (Suc fuel) m tx startBlock failures w =
     (case sleepFor (clock m) receiptPollInterval w of
        (False, w1) \<Rightarrow> Some (Inl CtxErr, w1)
      | (True, w1) \<Rightarrow>
          (case callTransactionReceipt m (Signed_Hash tx) w1 of
             (Inr r, w2) \<Rightarrow> Some (Inr r, w2)
           | (Inl lastErr, w2) \<Rightarrow>
               (case callBlockNumber m w2 of
                  (Inl err, w3) \<Rightarrow>
                    if blockNumberRetryLimit \<le> Suc failures
                    then Some (Inl (Wrap ''get block number'' err), w3)
                    else pollReceipt fuel m tx startBlock (Suc failures) w3
                | (Inr currentBlock, w3) \<Rightarrow>
                    if word_of_int (PendingTimeoutBlocks (policy m)) \<le> currentBlock - startBlock
                    then Some (Inl (Wrap (''timed out waiting for receipt after '' @
                           decInt (PendingTimeoutBlocks (policy m)) @ '' blocks'') lastErr), w3)
                    else pollReceipt fuel m tx startBlock 0 w3)))"

definition waitForReceipt ::
    "nat \<Rightarrow> 'w TxManager \<Rightarrow> signedTx \<Rightarrow> 'w \<Rightarrow> ((goerror + receipt) \<times> 'w) option" where
  "waitForReceipt fuel m tx w =
     (case wrapS ''get block number'' (callBlockNumber m) w of
        (Inl e, w') \<Rightarrow> Some (Inl e, w')
      | (Inr startBlock, w') \<Rightarrow> pollReceipt fuel m tx startBlock 0 w')"

definition txGas :: u64 where
  "txGas = 21000"

definition cancelFeeCap :: "'w TxManager \<Rightarrow> int \<Rightarrow> int" where
  "cancelFeeCap m prevGasFeeCap =
     (let maxFee = MaxFeePerGasWei (policy m); gasFeeCap = applyBumpPercent m prevGasFeeCap
      in if maxFee < gasFeeCap then maxFee else gasFeeCap)"

definition cancelTx ::
    "nat \<Rightarrow> 'w TxManager \<Rightarrow> u64 \<Rightarrow> int \<Rightarrow> 'w \<Rightarrow> ((goerror + unit) \<times> 'w) option" where
  "cancelTx fuel m nonce prevGasFeeCap w =
     (let gasFeeCap = cancelFeeCap m prevGasFeeCap in
      case wrapS ''sign cancel tx'' (signTx m
          \<lparr>Tx_Nonce = nonce, Tx_GasTipCap = gasFeeCap, Tx_GasFeeCap = gasFeeCap, Tx_Gas = txGas,
           Tx_To = signerAddress m, Tx_Value = 0, Tx_Data = []\<rparr>) w of
        (Inl e, w1) \<Rightarrow> Some (Inl e, w1)
      | (Inr stx, w1) \<Rightarrow>
          (case wrapS ''send cancel tx'' (callSendTransaction m stx) w1 of
             (Inl e, w2) \<Rightarrow> Some (Inl e, w2)
           | (Inr _, w2) \<Rightarrow>
               (case waitForReceipt fuel m stx w2 of
                  None \<Rightarrow> None
                | Some (Inl e, w3) \<Rightarrow> Some (Inl (Wrap ''cancel tx not confirmed'' e), w3)
                | Some (Inr _, w3) \<Rightarrow> Some (Inr (), w3))))"

section \<open>Submission\<close>

text \<open>Cancel the nonce, ignore how that went, and return the given error.\<close>

definition giveUpTx ::
    "nat \<Rightarrow> 'w TxManager \<Rightarrow> u64 \<Rightarrow> int \<Rightarrow> goerror \<Rightarrow> 'w \<Rightarrow> (txResult \<times> 'w) option" where
  "giveUpTx fuel m nonce fee err w =
     (case cancelTx fuel m nonce fee w of None \<Rightarrow> None | Some (_, w') \<Rightarrow> Some ((None, Some err), w'))"

text \<open>
  The rest of one attempt, once the transaction is with the node: wait, and on a timeout
  bump the fees and go on with \<open>retry\<close> (from now on without MEV endpoints).
\<close>

definition sendWait ::
    "nat \<Rightarrow> 'w TxManager \<Rightarrow> TxOpts \<Rightarrow> u64 \<Rightarrow> nat \<Rightarrow> int \<Rightarrow> int \<Rightarrow> signedTx \<Rightarrow>
     (int \<Rightarrow> int \<Rightarrow> 'w \<Rightarrow> (txResult \<times> 'w) option) \<Rightarrow> 'w \<Rightarrow> (txResult \<times> 'w) option" where
  "sendWait fuel m opts nonce left tip fee tx retry w =
     (case waitForReceipt fuel m tx w of
        None \<Rightarrow> None
      | Some (Inr r, w1) \<Rightarrow> Some (handleReceipt m opts tx r w1)
      | Some (Inl err, w1) \<Rightarrow>
          if ctxDone (clock m) w1 then Some ((None, Some CtxErr), w1)
          else if left = 0 then giveUpTx fuel m nonce fee errMaxAttemptsExhausted w1
          else (case bumpOrResuggest m tip fee w1 of
                  (None, w2) \<Rightarrow> giveUpTx fuel m nonce fee errMaxGasReached w2
                | (Some (newTip, newFee), w2) \<Rightarrow> retry newTip newFee w2))"

text \<open>
  The loop of \<open>SendTransaction\<close>; \<open>left\<close> is the number of attempts still allowed,
  \<open>m.policy.MaxAttempts - attempt + 1\<close>. \<open>fuel\<close> bounds each wait for a receipt.
\<close>

fun sendLoop ::
    "nat \<Rightarrow> 'w TxManager \<Rightarrow> TxOpts \<Rightarrow> u64 \<Rightarrow> u64 \<Rightarrow> nat \<Rightarrow> int \<Rightarrow> int \<Rightarrow> bool \<Rightarrow> signedTx list \<Rightarrow> 'w \<Rightarrow>
     (txResult \<times> 'w) option" where
  "sendLoop fuel m opts nonce gas 0 tip fee mev published w =
     giveUpTx fuel m nonce fee errMaxAttemptsExhausted w"
| "sendLoop fuel m opts nonce gas (Suc left) tip fee mev published w =
     (case buildAndSignTx m opts nonce gas tip fee
             (case Opts_Value opts of None \<Rightarrow> 0 | Some v \<Rightarrow> v) w of
        (Inl e, w1) \<Rightarrow> Some ((None, Some e), w1)
      | (Inr tx, w1) \<Rightarrow>
          (case (if mev then sendToMEVRPCs m tx w1 else callSendTransaction m tx w1) of
             (sendRes, w2) \<Rightarrow>
               (case sendRes of
                  Inl err \<Rightarrow>
                    if isTxAlreadyKnown err
                    then sendWait fuel m opts nonce left tip fee tx
                           (\<lambda>t f. sendLoop fuel m opts nonce gas left t f False (published @ [tx])) w2
                    else if isNonceTooLow err
                    then (case findMinedReceipt m opts published w2 of
                            (Some res, w3) \<Rightarrow> Some (res, w3)
                          | (None, w3) \<Rightarrow> Some ((None, Some (Wrap2 errNonceTooLow err)), w3))
                    else if isInsufficientFunds err
                    then Some ((None, Some (Wrap2 errInsufficientFunds err)), w2)
                    else if isUnderpriced err
                    then (case bumpOrResuggest m tip fee w2 of
                            (None, w3) \<Rightarrow> giveUpTx fuel m nonce fee errMaxGasReached w3
                          | (Some (newTip, newFee), w3) \<Rightarrow>
                              sendLoop fuel m opts nonce gas left newTip newFee mev published w3)
                    else if left \<noteq> 0
                    then (case sleepFor (clock m) (RetryDelay (policy m)) w2 of
                            (False, w3) \<Rightarrow> Some ((None, Some CtxErr), w3)
                          | (True, w3) \<Rightarrow> sendLoop fuel m opts nonce gas left tip fee mev published w3)
                    else Some ((None, Some (Wrap ''send tx'' err)), w2)
                | Inr _ \<Rightarrow> sendWait fuel m opts nonce left tip fee tx
                           (\<lambda>t f. sendLoop fuel m opts nonce gas left t f False (published @ [tx])) w2)))"

definition SendTransaction ::
    "nat \<Rightarrow> 'w TxManager \<Rightarrow> TxOpts \<Rightarrow> 'w \<Rightarrow> (txResult \<times> 'w) option" where
  "SendTransaction fuel m opts w =
     (case estimateGas m opts w of
        (Inl e, w1) \<Rightarrow> Some ((None, Some e), w1)
      | (Inr gasLimit, w1) \<Rightarrow>
          (case suggestGasFees m w1 of
             (Inl e, w2) \<Rightarrow> Some ((None, Some e), w2)
           | (Inr (tip, fee), w2) \<Rightarrow>
               (case wrapS ''get nonce'' (callPendingNonceAt m (signerAddress m)) w2 of
                  (Inl e, w3) \<Rightarrow> Some ((None, Some e), w3)
                | (Inr nonce, w3) \<Rightarrow>
                    sendLoop fuel m opts nonce gasLimit (nat (MaxAttempts (policy m))) tip fee
                      (Opts_MEVProtected opts \<and> mevClients m \<noteq> []) [] w3)))"

section \<open>Fee bounds\<close>

text \<open>The policy as \<open>New\<close> accepts it; the bump must also fit an \<open>int64\<close> with the base added.\<close>

definition policyOk :: "TxPolicy \<Rightarrow> bool" where
  "policyOk p \<longleftrightarrow> ValidatePolicy p = None \<and> GasBumpPercent p < 2 ^ 62"

definition feesOk :: "'w TxManager \<Rightarrow> int \<Rightarrow> int \<Rightarrow> bool" where
  "feesOk m tip fee \<longleftrightarrow> minTipCap \<le> tip \<and> tip \<le> fee \<and> fee \<le> MaxFeePerGasWei (policy m)"

lemma policyOk_D:
  assumes "policyOk p"
  shows "10 \<le> GasBumpPercent p" "1 \<le> MaxAttempts p" "1 \<le> PendingTimeoutBlocks p"
    "minTipCap \<le> MaxFeePerGasWei p" "wrap64 (100 + GasBumpPercent p) = 100 + GasBumpPercent p"
proof -
  show b: "10 \<le> GasBumpPercent p" and "1 \<le> MaxAttempts p" and "1 \<le> PendingTimeoutBlocks p"
    using assms by (auto simp: policyOk_def ValidatePolicy_def split: if_splits)
  have "MaxFeePerGasGwei p \<noteq> 0"
    using assms by (auto simp: policyOk_def ValidatePolicy_def split: if_splits)
  then have "uint (MaxFeePerGasGwei p) \<noteq> 0" using unsigned_eq_0_iff by blast
  moreover have "0 \<le> uint (MaxFeePerGasGwei p)" by simp
  ultimately have "1 \<le> uint (MaxFeePerGasGwei p)" by linarith
  then show "minTipCap \<le> MaxFeePerGasWei p" by (simp add: minTipCap_def MaxFeePerGasWei_def gweiWei_def)
  show "wrap64 (100 + GasBumpPercent p) = 100 + GasBumpPercent p"
    using assms b by (intro wrap64_id) (auto simp: policyOk_def)
qed

lemma applyBumpPercent_ge:
  assumes "policyOk (policy m)" "0 \<le> v"
  shows "v * 110 div 100 \<le> applyBumpPercent m v" "v \<le> applyBumpPercent m v"
proof -
  have b: "10 \<le> GasBumpPercent (policy m)"
    "wrap64 (100 + GasBumpPercent (policy m)) = 100 + GasBumpPercent (policy m)"
    using policyOk_D [OF assms(1)] by simp_all
  have "v * 110 \<le> v * (100 + GasBumpPercent (policy m))"
    using b(1) assms(2) by (intro mult_left_mono) simp_all
  then show 1: "v * 110 div 100 \<le> applyBumpPercent m v"
    unfolding applyBumpPercent_def b(2) by (rule zdiv_mono1) simp
  have "v \<le> v * 110 div 100" using assms(2) by linarith
  with 1 show "v \<le> applyBumpPercent m v" by linarith
qed

lemma applyBumpPercent_mono:
  "policyOk (policy m) \<Longrightarrow> a \<le> b \<Longrightarrow> applyBumpPercent m a \<le> applyBumpPercent m b"
  using policyOk_D [of "policy m"] unfolding applyBumpPercent_def
  by (intro zdiv_mono1 mult_right_mono) simp_all

text \<open>The base fee in a block header is not negative.\<close>

definition baseFeeOk :: "'w TxManager \<Rightarrow> bool" where
  "baseFeeOk m \<longleftrightarrow> (\<forall>w b w'. callBaseFee m w = (Inr b, w') \<longrightarrow> 0 \<le> b)"

lemma capFees_ok:
  "capFees maxFee t b = (tip, fee) \<Longrightarrow> minTipCap \<le> maxFee \<Longrightarrow> minTipCap \<le> t \<Longrightarrow> 0 \<le> b \<Longrightarrow>
   minTipCap \<le> tip \<and> tip \<le> fee \<and> fee \<le> maxFee"
  by (auto simp: capFees_def Let_def split: if_splits)

lemma suggestGasFees_Inr:
  assumes "suggestGasFees m w = (Inr (tip, fee), w')" "policyOk (policy m)" "baseFeeOk m"
  shows "feesOk m tip fee"
proof -
  obtain t w1 b where b: "callBaseFee m w1 = (Inr b, w')" and t: "minTipCap \<le> t" and
    r: "capFees (MaxFeePerGasWei (policy m)) t b = (tip, fee)"
    using assms(1) unfolding suggestGasFees_def Let_def
    by (elim bindS_eq_InrE) (auto simp: retS_def failS_def not_less split: if_splits)
  have "0 \<le> b" using assms(3) b by (auto simp: baseFeeOk_def)
  with capFees_ok [OF r policyOk_D(4) [OF assms(2)] t] show ?thesis by (simp add: feesOk_def)
qed

lemma bumpOrResuggest_Some:
  assumes "bumpOrResuggest m tip fee w = (Some (tip', fee'), w')" "feesOk m tip fee"
    "policyOk (policy m)" "baseFeeOk m"
  shows "feesOk m tip' fee' \<and> applyBumpPercent m tip \<le> tip' \<and> applyBumpPercent m fee \<le> fee'"
proof -
  let ?bt = "applyBumpPercent m tip" and ?bf = "applyBumpPercent m fee"
  have pos: "0 \<le> tip" using assms(2) by (simp add: feesOk_def minTipCap_def gweiWei_def)
  have cap: "?bf \<le> MaxFeePerGasWei (policy m)"
    using assms(1) by (auto simp: bumpOrResuggest_def Let_def split: if_splits)
  have base: "feesOk m ?bt ?bf"
    using assms(2) cap applyBumpPercent_ge(2) [OF assms(3) pos] applyBumpPercent_mono [OF assms(3), of tip fee]
    by (simp add: feesOk_def)
  obtain r w1 where s: "suggestGasFees m w = (r, w1)" by fastforce
  show ?thesis
  proof (cases r)
    case (Inl e)
    then show ?thesis using assms(1) cap base s by (auto simp: bumpOrResuggest_def Let_def split: if_splits)
  next
    case (Inr tf)
    then obtain ft ff where tf: "r = Inr (ft, ff)" by (cases tf) simp
    then have "feesOk m ft ff" using suggestGasFees_Inr [OF _ assms(3,4)] s by blast
    then show ?thesis using assms(1) cap base s tf
      by (auto simp: bumpOrResuggest_def Let_def feesOk_def split: if_splits)
  qed
qed

text \<open>C34: a replacement always satisfies the node's replacement rule and the configured cap. When
  \<open>bumpOrResuggest\<close> does not ask to cancel, both new fees are at least 110/100 of the old
  ones, the tip is at least one gwei, it does not exceed the fee cap, and the fee cap does not
  exceed \<open>max_fee_per_gas\<close>.\<close>

theorem replacement_fees:
  assumes "policyOk (policy m)" "baseFeeOk m"
    "feesOk m tip fee" "bumpOrResuggest m tip fee w = (Some (tip', fee'), w')"
  shows "tip * 110 div 100 \<le> tip' \<and> fee * 110 div 100 \<le> fee' \<and>
    gweiWei \<le> tip' \<and> tip' \<le> fee' \<and> fee' \<le> MaxFeePerGasWei (policy m)"
proof -
  have "0 \<le> tip" "0 \<le> fee" using assms(3) by (auto simp: feesOk_def minTipCap_def gweiWei_def)
  then show ?thesis
    using bumpOrResuggest_Some [OF assms(4,3,1,2)] applyBumpPercent_ge(1) [OF assms(1)]
    by (fastforce simp: feesOk_def minTipCap_def)
qed

text \<open>When the fee cap is why a transaction is given up, its cancellation cannot replace it.
  If bumping the fee would exceed \<open>max_fee_per_gas\<close>, the attempt is given up, and
  \<open>cancelTx\<close> offers exactly the cap, which is less than the bumped fee that the manager
  itself takes for the least acceptable replacement.\<close>

theorem cancel_underpriced_at_cap:
  assumes "MaxFeePerGasWei (policy m) < applyBumpPercent m fee"
  shows "bumpOrResuggest m tip fee w = (None, w) \<and> cancelFeeCap m fee = MaxFeePerGasWei (policy m) \<and>
    cancelFeeCap m fee < applyBumpPercent m fee"
  using assms by (simp add: bumpOrResuggest_def cancelFeeCap_def Let_def)

section \<open>What is sent\<close>

text \<open>
  \<open>recordsSends m sent\<close>: \<open>sent\<close> is a record, in the world, of the transactions handed to
  the node or to an endpoint. Only the send operations extend it; the signer returns the
  transaction it was given; a receipt carries the hash it was asked for.
\<close>

definition quiet :: "('w \<Rightarrow> signedTx list) \<Rightarrow> ('w \<Rightarrow> 'a \<times> 'w) \<Rightarrow> bool" where
  "quiet sent f \<longleftrightarrow> (\<forall>w. sent (snd (f w)) = sent w)"

definition recordsSends :: "'w TxManager \<Rightarrow> ('w \<Rightarrow> signedTx list) \<Rightarrow> bool" where
  "recordsSends m sent \<longleftrightarrow>
     (\<forall>tx. quiet sent (signTx m tx)) \<and>
     (\<forall>tx w stx w'. signTx m tx w = (Inr stx, w') \<longrightarrow> Signed_Tx stx = tx) \<and>
     (\<forall>opts. quiet sent (callEstimateGas m opts)) \<and> quiet sent (callSuggestGasTipCap m) \<and>
     quiet sent (callBaseFee m) \<and> (\<forall>a. quiet sent (callPendingNonceAt m a)) \<and>
     (\<forall>h. quiet sent (callTransactionReceipt m h)) \<and>
     (\<forall>h w r w'. callTransactionReceipt m h w = (Inr r, w') \<longrightarrow> Receipt_TxHash r = h) \<and>
     quiet sent (callBlockNumber m) \<and> (\<forall>opts b. quiet sent (callContractAt m opts b)) \<and>
     (\<forall>d. quiet sent (sleepFor (clock m) d)) \<and>
     (\<forall>tx w. sent (snd (callSendTransaction m tx w)) = sent w @ [tx]) \<and>
     (\<forall>c \<in> set (mevClients m). \<forall>tx w. sent (snd (c tx w)) = sent w @ [tx])"

lemma quiet_D: "quiet sent f \<Longrightarrow> f w = (r, w') \<Longrightarrow> sent w' = sent w"
  unfolding quiet_def by (metis snd_conv)

lemma recordsSends_D:
  assumes "recordsSends m sent"
  shows "quiet sent (signTx m tx)" "quiet sent (callEstimateGas m opts)" "quiet sent (callSuggestGasTipCap m)"
    "quiet sent (callBaseFee m)" "quiet sent (callPendingNonceAt m a)" "quiet sent (callTransactionReceipt m h)"
    "quiet sent (callBlockNumber m)" "quiet sent (callContractAt m opts b)" "quiet sent (sleepFor (clock m) d)"
  using assms unfolding recordsSends_def by blast+

lemma recordsSends_sign:
  "recordsSends m sent \<Longrightarrow> signTx m tx w = (Inr stx, w') \<Longrightarrow> Signed_Tx stx = tx \<and> sent w' = sent w"
  using recordsSends_D(1) quiet_D unfolding recordsSends_def by metis

lemma recordsSends_receipt:
  "recordsSends m sent \<Longrightarrow> callTransactionReceipt m h w = (Inr r, w') \<Longrightarrow> Receipt_TxHash r = h"
  unfolding recordsSends_def by blast

lemma recordsSends_send:
  "recordsSends m sent \<Longrightarrow> callSendTransaction m tx w = (r, w') \<Longrightarrow> sent w' = sent w @ [tx]"
  unfolding recordsSends_def by (metis snd_conv)

lemma quiet_wrapS: "quiet sent f \<Longrightarrow> quiet sent (wrapS p f)"
  by (auto simp: quiet_def wrapS_def split: prod.splits sum.splits) (metis snd_conv)+

lemma quiet_bindS: "quiet sent f \<Longrightarrow> (\<And>x. quiet sent (g x)) \<Longrightarrow> quiet sent (bindS f g)"
proof -
  assume q: "quiet sent f" "\<And>x. quiet sent (g x)"
  have "sent (snd (bindS f g w)) = sent w" for w
  proof -
    obtain x w1 where f: "f w = (x, w1)" by fastforce
    show ?thesis using quiet_D [OF q(1) f] q(2) by (cases x) (simp_all add: bindS_def f quiet_def)
  qed
  then show ?thesis by (simp add: quiet_def)
qed

lemma quiet_ret: "quiet sent (retS x)" "quiet sent (failS e)"
  by (simp_all add: quiet_def retS_def failS_def)

lemmas quiet_rules = quiet_wrapS quiet_bindS quiet_ret

lemma quiet_suggestGasFees: "recordsSends m sent \<Longrightarrow> quiet sent (suggestGasFees m)"
  unfolding suggestGasFees_def Let_def by (auto intro!: quiet_rules recordsSends_D)

lemma quiet_bump: "recordsSends m sent \<Longrightarrow> quiet sent (bumpOrResuggest m tip fee)"
  using quiet_suggestGasFees [of m sent]
  by (auto simp: quiet_def bumpOrResuggest_def Let_def split: prod.splits sum.splits) (metis snd_conv)+

lemma quiet_estimateGas: "recordsSends m sent \<Longrightarrow> quiet sent (estimateGas m opts)"
  using recordsSends_D(2) [of m sent opts]
  by (auto simp: quiet_def estimateGas_def Let_def split: prod.splits sum.splits) (metis snd_conv)+

lemma quiet_handleReceipt: "recordsSends m sent \<Longrightarrow> quiet sent (handleReceipt m opts tx r)"
  using recordsSends_D(8) [of m sent opts "Receipt_BlockNumber r"]
  by (auto simp: quiet_def handleReceipt_def replayForRevertReason_def Let_def split: prod.splits sum.splits)
     (metis snd_conv)+

lemma pollReceipt_sent:
  assumes "recordsSends m sent"
  shows "pollReceipt fuel m tx st k w = Some (r, w') \<Longrightarrow>
    sent w' = sent w \<and> (\<forall>rc. r = Inr rc \<longrightarrow> Receipt_TxHash rc = Signed_Hash tx)"
proof (induction fuel arbitrary: k w)
  case (Suc fuel)
  obtain f w1 where s: "sleepFor (clock m) receiptPollInterval w = (f, w1)" by fastforce
  obtain a w2 where a: "callTransactionReceipt m (Signed_Hash tx) w1 = (a, w2)" by fastforce
  obtain b w3 where b: "callBlockNumber m w2 = (b, w3)" by fastforce
  have w: "sent w1 = sent w" "sent w2 = sent w" "sent w3 = sent w"
    using quiet_D [OF recordsSends_D(9) [OF assms] s] quiet_D [OF recordsSends_D(6) [OF assms] a]
      quiet_D [OF recordsSends_D(7) [OF assms] b] by simp_all
  show ?case using Suc s a b w recordsSends_receipt [OF assms, of "Signed_Hash tx" w1]
    by (auto split: bool.splits sum.splits if_splits)
qed simp

lemma waitForReceipt_sent:
  assumes "recordsSends m sent" "waitForReceipt fuel m tx w = Some (r, w')"
  shows "sent w' = sent w \<and> (\<forall>rc. r = Inr rc \<longrightarrow> Receipt_TxHash rc = Signed_Hash tx)"
proof -
  obtain b w1 where b: "callBlockNumber m w = (b, w1)" by fastforce
  have "sent w1 = sent w" using quiet_D [OF recordsSends_D(7) [OF assms(1)] b] .
  then show ?thesis using assms(2) b pollReceipt_sent [OF assms(1)]
    by (cases b) (auto simp: waitForReceipt_def wrapS_def)
qed

text \<open>What one call may send with nonce \<open>n\<close>: the requested transaction, or the zero-value
  transfer to the signer that frees the nonce; both within the fee bounds.\<close>

definition requested :: "TxOpts \<Rightarrow> transaction \<Rightarrow> bool" where
  "requested opts tx \<longleftrightarrow> Tx_To tx = Opts_To opts \<and> Tx_Data tx = Opts_Data opts \<and>
     Tx_Value tx = (case Opts_Value opts of None \<Rightarrow> 0 | Some v \<Rightarrow> v)"

definition sendable :: "'w TxManager \<Rightarrow> TxOpts \<Rightarrow> u64 \<Rightarrow> signedTx \<Rightarrow> bool" where
  "sendable m opts n stx \<longleftrightarrow>
     (let tx = Signed_Tx stx in Tx_Nonce tx = n \<and> feesOk m (Tx_GasTipCap tx) (Tx_GasFeeCap tx) \<and>
        (requested opts tx \<or> Tx_To tx = signerAddress m \<and> Tx_Value tx = 0 \<and> Tx_Data tx = []))"

text \<open>\<open>sentFrom ok S w\<close>: since the record was \<open>S\<close>, only acceptable transactions were added.\<close>

definition sentFrom :: "('w \<Rightarrow> signedTx list) \<Rightarrow> (signedTx \<Rightarrow> bool) \<Rightarrow> signedTx list \<Rightarrow> 'w \<Rightarrow> bool" where
  "sentFrom sent ok S w \<longleftrightarrow> (\<exists>txs. sent w = S @ txs \<and> (\<forall>tx\<in>set txs. ok tx))"

lemma sentFrom_same: "sentFrom sent ok S w \<Longrightarrow> sent w' = sent w \<Longrightarrow> sentFrom sent ok S w'"
  by (simp add: sentFrom_def)

lemma sentFrom_snoc: "sentFrom sent ok S w \<Longrightarrow> sent w' = sent w @ [tx] \<Longrightarrow> ok tx \<Longrightarrow> sentFrom sent ok S w'"
  unfolding sentFrom_def by (metis append.assoc in_set_conv_decomp rotate1.simps(2) set_ConsD set_rotate1)

lemma mevAccepted_sent:
  assumes "\<forall>c \<in> set cs. \<forall>tx w. sent (snd (c tx w)) = sent w @ [tx]" "mevAccepted cs tx w = (n, w')"
    "sentFrom sent ok S w" "ok tx"
  shows "sentFrom sent ok S w' \<and> set (sent w) \<subseteq> set (sent w') \<and> (0 < n \<longrightarrow> tx \<in> set (sent w'))"
  using assms
proof (induction cs arbitrary: w w' n)
  case (Cons c cs)
  obtain r w1 where c: "c tx w = (r, w1)" by fastforce
  obtain k w2 where m: "mevAccepted cs tx w1 = (k, w2)" by fastforce
  have w1: "sent w1 = sent w @ [tx]" using Cons.prems(1) c by (metis list.set_intros(1) snd_conv)
  have "sentFrom sent ok S w1" using sentFrom_snoc [OF Cons.prems(3) w1 Cons.prems(4)] .
  moreover have "\<forall>c\<in>set cs. \<forall>tx w. sent (snd (c tx w)) = sent w @ [tx]" using Cons.prems(1) by simp
  ultimately have "sentFrom sent ok S w2 \<and> set (sent w1) \<subseteq> set (sent w2) \<and> (0 < k \<longrightarrow> tx \<in> set (sent w2))"
    using Cons.IH m Cons.prems(4) by blast
  then show ?case using Cons.prems(2) c m w1 by auto
qed auto

lemma send_sent:
  assumes "recordsSends m sent" "sentFrom sent ok S w" "ok tx"
    "(if mev then sendToMEVRPCs m tx w else callSendTransaction m tx w) = (r, w')"
  shows "sentFrom sent ok S w' \<and> set (sent w) \<subseteq> set (sent w') \<and> tx \<in> set (sent w')"
proof (cases mev)
  case False
  then show ?thesis
    using assms recordsSends_send [OF assms(1), of tx w r w'] sentFrom_snoc [OF assms(2)] by auto
next
  case True
  obtain n w1 where m: "mevAccepted (mevClients m) tx w = (n, w1)" by fastforce
  have c: "\<forall>c \<in> set (mevClients m). \<forall>tx w. sent (snd (c tx w)) = sent w @ [tx]"
    using assms(1) by (simp add: recordsSends_def)
  note a = mevAccepted_sent [OF c m assms(2,3)]
  show ?thesis
  proof (cases "0 < n")
    case True
    then show ?thesis using a assms(4) m \<open>mev\<close> by (simp add: sendToMEVRPCs_def)
  next
    case False
    then have "callSendTransaction m tx w1 = (r, w')" using assms(4) m \<open>mev\<close> by (simp add: sendToMEVRPCs_def)
    from recordsSends_send [OF assms(1) this] show ?thesis using a assms(3) sentFrom_snoc by fastforce
  qed
qed

lemma giveUpTx_sent:
  assumes "recordsSends m sent" "sentFrom sent (sendable m opts n) S w" "policyOk (policy m)" "feesOk m tip fee"
    "giveUpTx fuel m n fee err w = Some (res, w')"
  shows "sentFrom sent (sendable m opts n) S w' \<and> set (sent w) \<subseteq> set (sent w') \<and> res = (None, Some err)"
proof -
  let ?f = "cancelFeeCap m fee"
  let ?tx = "\<lparr>Tx_Nonce = n, Tx_GasTipCap = ?f, Tx_GasFeeCap = ?f, Tx_Gas = txGas, Tx_To = signerAddress m,
    Tx_Value = 0, Tx_Data = []\<rparr>"
  have "0 \<le> fee" using assms(4) by (auto simp: feesOk_def minTipCap_def gweiWei_def)
  then have f: "feesOk m ?f ?f"
    using assms(4) applyBumpPercent_ge(2) [OF assms(3), of fee] policyOk_D(4) [OF assms(3)]
    by (auto simp: feesOk_def cancelFeeCap_def Let_def)
  obtain r1 w1 where c: "cancelTx fuel m n fee w = Some (r1, w')" and res: "res = (None, Some err)"
    using assms(5) by (auto simp: giveUpTx_def split: option.splits prod.splits)
  obtain q w1 where s: "signTx m ?tx w = (q, w1)" by fastforce
  have w1: "sent w1 = sent w" using quiet_D [OF recordsSends_D(1) [OF assms(1)] s] .
  show ?thesis
  proof (cases q)
    case (Inl e)
    then show ?thesis using c s w1 res assms(2) by (auto simp: cancelTx_def wrapS_def Let_def intro: sentFrom_same)
  next
    case (Inr stx)
    then have stx: "Signed_Tx stx = ?tx" using recordsSends_sign [OF assms(1)] s by blast
    obtain p w2 where p: "callSendTransaction m stx w1 = (p, w2)" by fastforce
    have w2: "sent w2 = sent w @ [stx]" using recordsSends_send [OF assms(1) p] w1 by simp
    have "sendable m opts n stx" using f stx by (simp add: sendable_def)
    then have ok: "sentFrom sent (sendable m opts n) S w2" using sentFrom_snoc [OF assms(2) w2] by blast
    have "sent w' = sent w2"
      using c s p Inr waitForReceipt_sent [OF assms(1), of fuel stx w2]
      by (cases p) (auto simp: cancelTx_def wrapS_def Let_def split: option.splits sum.splits)
    then show ?thesis using ok w2 res by (auto intro: sentFrom_same)
  qed
qed

text \<open>A result with a receipt is about a transaction that asked for what the caller asked and was
  sent; it has no error exactly if the receipt reports success.\<close>

definition resultOk :: "TxOpts \<Rightarrow> signedTx list \<Rightarrow> txResult \<Rightarrow> bool" where
  "resultOk opts txs res \<longleftrightarrow>
     (case res of
        (None, e) \<Rightarrow> e \<noteq> None
      | (Some r, e) \<Rightarrow> (e = None \<longleftrightarrow> Receipt_Status r = 1) \<and>
          (\<exists>tx\<in>set txs. requested opts (Signed_Tx tx) \<and> Signed_Hash tx = Receipt_TxHash r))"

definition publishedOk :: "TxOpts \<Rightarrow> signedTx list \<Rightarrow> signedTx list \<Rightarrow> bool" where
  "publishedOk opts txs published \<longleftrightarrow>
     (\<forall>tx\<in>set published. requested opts (Signed_Tx tx) \<and> tx \<in> set txs)"

lemma resultOk_noReceipt [simp]: "resultOk opts txs (None, Some e)"
  by (simp add: resultOk_def)

lemma publishedOk_mono: "publishedOk opts txs ps \<Longrightarrow> set txs \<subseteq> set txs' \<Longrightarrow> publishedOk opts txs' ps"
  by (auto simp: publishedOk_def)

lemma handleReceipt_result:
  assumes "recordsSends m sent" "handleReceipt m opts tx r w = (res, w')"
    "requested opts (Signed_Tx tx)" "tx \<in> set (sent w)" "Receipt_TxHash r = Signed_Hash tx"
  shows "sent w' = sent w \<and> resultOk opts (sent w) res"
proof -
  have "\<exists>tx\<in>set (sent w). requested opts (Signed_Tx tx) \<and> Signed_Hash tx = Receipt_TxHash r"
    using assms(3-5) by auto
  moreover obtain e where "res = (Some r, e)" "e = None \<longleftrightarrow> Receipt_Status r = 1"
    using assms(2) by (cases "Receipt_Status r = 1") (auto simp: handleReceipt_def split: prod.splits)
  ultimately have "resultOk opts (sent w) res" by (simp add: resultOk_def)
  then show ?thesis using quiet_D [OF quiet_handleReceipt [OF assms(1)] assms(2)] by simp
qed

lemma findMinedReceipt_result:
  assumes "recordsSends m sent"
  shows "publishedOk opts (sent w) ps \<Longrightarrow> findMinedReceipt m opts ps w = (q, w') \<Longrightarrow>
    sent w' = sent w \<and> (\<forall>res. q = Some res \<longrightarrow> resultOk opts (sent w) res)"
proof (induction ps arbitrary: w)
  case (Cons tx ps)
  obtain a w1 where a: "callTransactionReceipt m (Signed_Hash tx) w = (a, w1)" by fastforce
  have w1: "sent w1 = sent w" using quiet_D [OF recordsSends_D(6) [OF assms] a] .
  show ?case
  proof (cases a)
    case (Inl e)
    have "publishedOk opts (sent w1) ps" using Cons.prems(1) w1 by (simp add: publishedOk_def)
    then show ?thesis using Cons.IH [of w1] Cons.prems(2) a Inl w1 by simp
  next
    case (Inr r)
    obtain res w2 where h: "handleReceipt m opts tx r w1 = (res, w2)" by fastforce
    have "Receipt_TxHash r = Signed_Hash tx" using recordsSends_receipt [OF assms] a Inr by blast
    moreover have "requested opts (Signed_Tx tx)" "tx \<in> set (sent w1)"
      using Cons.prems(1) w1 by (simp_all add: publishedOk_def)
    ultimately have "sent w2 = sent w1 \<and> resultOk opts (sent w1) res"
      using handleReceipt_result [OF assms h] by blast
    then show ?thesis using Cons.prems(2) a Inr h w1 by auto
  qed
qed simp

definition loopOk ::
    "'w TxManager \<Rightarrow> TxOpts \<Rightarrow> u64 \<Rightarrow> ('w \<Rightarrow> signedTx list) \<Rightarrow> (txResult \<times> 'w) option \<Rightarrow> bool" where
  "loopOk m opts n sent out \<longleftrightarrow>
     (\<forall>res w'. out = Some (res, w') \<longrightarrow>
        sentFrom sent (sendable m opts n) [] w' \<and> resultOk opts (sent w') res)"

lemma loopOk_I:
  "(\<And>res w'. out = Some (res, w') \<Longrightarrow> sentFrom sent (sendable m opts n) [] w' \<and> resultOk opts (sent w') res) \<Longrightarrow>
   loopOk m opts n sent out"
  by (simp add: loopOk_def)

lemma loopOk_error: "sentFrom sent (sendable m opts n) [] w \<Longrightarrow> loopOk m opts n sent (Some ((None, Some e), w))"
  by (simp add: loopOk_def)

lemma giveUpTx_loopOk:
  assumes "recordsSends m sent" "sentFrom sent (sendable m opts n) [] w" "policyOk (policy m)" "feesOk m tip fee"
  shows "loopOk m opts n sent (giveUpTx fuel m n fee err w)"
proof (rule loopOk_I)
  fix res w'
  assume "giveUpTx fuel m n fee err w = Some (res, w')"
  from giveUpTx_sent [OF assms this]
  show "sentFrom sent (sendable m opts n) [] w' \<and> resultOk opts (sent w') res" by simp
qed

lemma sendWait_loopOk:
  assumes R: "recordsSends m sent" and P: "policyOk (policy m)" and B: "baseFeeOk m"
    and s: "sentFrom sent (sendable m opts n) [] w" and f: "feesOk m tip fee"
    and tx: "requested opts (Signed_Tx tx)" "tx \<in> set (sent w)"
    and retry: "\<And>t f w'. feesOk m t f \<Longrightarrow> sent w' = sent w \<Longrightarrow> loopOk m opts n sent (retry t f w')"
  shows "loopOk m opts n sent (sendWait fuel m opts n left tip fee tx retry w)"
proof (cases "waitForReceipt fuel m tx w")
  case None
  then show ?thesis by (simp add: sendWait_def loopOk_def)
next
  case (Some x)
  obtain r w1 where x: "x = (r, w1)" by fastforce
  note w = waitForReceipt_sent [OF R Some [unfolded x]]
  have s1: "sentFrom sent (sendable m opts n) [] w1" using sentFrom_same [OF s] w by blast
  obtain q w2 where b: "bumpOrResuggest m tip fee w1 = (q, w2)" by fastforce
  have w2: "sent w2 = sent w" using quiet_D [OF quiet_bump [OF R] b] w by simp
  have s2: "sentFrom sent (sendable m opts n) [] w2" using sentFrom_same [OF s w2] .
  show ?thesis
  proof (cases r)
    case (Inl e)
    have "loopOk m opts n sent (case q of None \<Rightarrow> giveUpTx fuel m n fee errMaxGasReached w2
        | Some (nt, nf) \<Rightarrow> retry nt nf w2)"
      using giveUpTx_loopOk [OF R s2 P f] retry [OF _ w2] bumpOrResuggest_Some [OF _ f P B] b
      by (auto split: option.splits)
    then show ?thesis using Some x Inl b giveUpTx_loopOk [OF R s1 P f] loopOk_error [OF s1]
      by (auto simp: sendWait_def split: option.splits)
  next
    case (Inr rc)
    obtain res w3 where h: "handleReceipt m opts tx rc w1 = (res, w3)" by fastforce
    have "sent w3 = sent w1 \<and> resultOk opts (sent w1) res"
      using handleReceipt_result [OF R h tx(1)] tx(2) w Inr by simp
    then have "sent w3 = sent w1" "resultOk opts (sent w3) res" by simp_all
    then show ?thesis using Some x Inr h sentFrom_same [OF s1] by (simp add: sendWait_def loopOk_def)
  qed
qed

lemma sendLoop_loopOk:
  assumes R: "recordsSends m sent" and P: "policyOk (policy m)" and B: "baseFeeOk m"
  shows "sentFrom sent (sendable m opts n) [] w \<Longrightarrow> feesOk m tip fee \<Longrightarrow> publishedOk opts (sent w) ps \<Longrightarrow>
    loopOk m opts n sent (sendLoop fuel m opts n gas left tip fee mev ps w)"
proof (induction left arbitrary: tip fee mev ps w)
  case 0
  then show ?case using giveUpTx_loopOk [OF R _ P] by simp
next
  case (Suc left)
  note s = Suc.prems(1) and f = Suc.prems(2) and ps = Suc.prems(3)
  let ?v = "case Opts_Value opts of None \<Rightarrow> 0 | Some v \<Rightarrow> v"
  obtain q w1 where q: "buildAndSignTx m opts n gas tip fee ?v w = (q, w1)" by fastforce
  have w1: "sent w1 = sent w"
    using quiet_D [OF quiet_wrapS [OF recordsSends_D(1) [OF R]] q [unfolded buildAndSignTx_def]] .
  have s1: "sentFrom sent (sendable m opts n) [] w1" using sentFrom_same [OF s w1] .
  show ?case
  proof (cases q)
    case (Inl e)
    then show ?thesis using q loopOk_error [OF s1] by simp
  next
    case (Inr tx)
    then have tx: "Signed_Tx tx = \<lparr>Tx_Nonce = n, Tx_GasTipCap = tip, Tx_GasFeeCap = fee, Tx_Gas = gas,
        Tx_To = Opts_To opts, Tx_Value = ?v, Tx_Data = Opts_Data opts\<rparr>"
      using q recordsSends_sign [OF R] by (simp add: buildAndSignTx_def)
    then have ok: "sendable m opts n tx" "requested opts (Signed_Tx tx)"
      using f by (simp_all add: sendable_def requested_def)
    obtain r w2 where snd: "(if mev then sendToMEVRPCs m tx w1 else callSendTransaction m tx w1) = (r, w2)"
      by fastforce
    note s2 = send_sent [OF R s1 ok(1) snd]
    have keep: "sentFrom sent (sendable m opts n) [] w'" if "sent w' = sent w2" for w'
      using sentFrom_same [OF conjunct1 [OF s2] that] .
    have ps2: "publishedOk opts (sent w2) ps" using publishedOk_mono [OF ps] s2 w1 by simp
    have wait: "loopOk m opts n sent (sendWait fuel m opts n left tip fee tx
        (\<lambda>t f. sendLoop fuel m opts n gas left t f False (ps @ [tx])) w2)"
    proof (rule sendWait_loopOk [OF R P B _ f ok(2)])
      fix t f w'
      assume "feesOk m t f" and w': "sent w' = sent w2"
      moreover have "publishedOk opts (sent w') (ps @ [tx])"
        using ps2 w' ok(2) s2 by (auto simp: publishedOk_def)
      moreover note keep [OF w']
      ultimately show "loopOk m opts n sent (sendLoop fuel m opts n gas left t f False (ps @ [tx]) w')"
        using Suc.IH by blast
    qed (use s2 in simp_all)
    obtain mr w3 where mr: "findMinedReceipt m opts ps w2 = (mr, w3)" by fastforce
    note fm = findMinedReceipt_result [OF R ps2 mr]
    have found: "loopOk m opts n sent (Some (res, w3))" if "mr = Some res" for res
      using fm that keep [of w3] by (simp add: loopOk_def)
    obtain bq w4 where bq: "bumpOrResuggest m tip fee w2 = (bq, w4)" by fastforce
    have w4: "sent w4 = sent w2" using quiet_D [OF quiet_bump [OF R] bq] .
    have s4: "sentFrom sent (sendable m opts n) [] w4" using keep [OF w4] .
    have bump: "loopOk m opts n sent (sendLoop fuel m opts n gas left t f' mev ps w4)"
      if "bq = Some (t, f')" for t f'
      using Suc.IH [OF s4] bumpOrResuggest_Some [OF _ f P B] bq that ps2 w4 by simp
    obtain sl w5 where sl: "sleepFor (clock m) (RetryDelay (policy m)) w2 = (sl, w5)" by fastforce
    have w5: "sent w5 = sent w2" using quiet_D [OF recordsSends_D(9) [OF R] sl] .
    have s5: "sentFrom sent (sendable m opts n) [] w5" using keep [OF w5] .
    have again: "loopOk m opts n sent (sendLoop fuel m opts n gas left tip fee mev ps w5)"
      using Suc.IH [OF s5 f] ps2 w5 by simp
    have s3: "sentFrom sent (sendable m opts n) [] w3" using keep [of w3] fm by blast
    show ?thesis
    proof (cases r)
      case (Inr u)
      then show ?thesis using q \<open>q = Inr tx\<close> snd wait by simp
    next
      case (Inl err)
      then show ?thesis
        using q \<open>q = Inr tx\<close> snd wait mr found bq bump sl again
          loopOk_error [OF s3] loopOk_error [OF conjunct1 [OF s2]] loopOk_error [OF s5]
          giveUpTx_loopOk [OF R s4 P f]
        by (auto split: option.splits bool.splits)
    qed
  qed
qed

lemma SendTransaction_ok:
  assumes R: "recordsSends m sent" and P: "policyOk (policy m)" and B: "baseFeeOk m" and e: "sent w = []"
    and run: "SendTransaction fuel m opts w = Some (res, w')"
  shows "\<exists>n. sentFrom sent (sendable m opts n) [] w' \<and> resultOk opts (sent w') res"
proof -
  obtain g w1 where g: "estimateGas m opts w = (g, w1)" by fastforce
  obtain f w2 where f: "suggestGasFees m w1 = (f, w2)" by fastforce
  obtain nn w3 where nn: "callPendingNonceAt m (signerAddress m) w2 = (nn, w3)" by fastforce
  have w: "sent w1 = []" "sent w2 = []" "sent w3 = []"
    using e quiet_D [OF quiet_estimateGas [OF R] g] quiet_D [OF quiet_suggestGasFees [OF R] f]
      quiet_D [OF recordsSends_D(5) [OF R] nn] by simp_all
  have none: "sentFrom sent ok [] v" if "sent v = []" for v ok using that by (simp add: sentFrom_def)
  show ?thesis
  proof (cases "\<exists>gas tip fee n. g = Inr gas \<and> f = Inr (tip, fee) \<and> nn = Inr n")
    case True
    then obtain gas tip fee n where v: "g = Inr gas" "f = Inr (tip, fee)" "nn = Inr n" by blast
    have "feesOk m tip fee" using suggestGasFees_Inr [OF _ P B] f v by blast
    from sendLoop_loopOk [OF R P B none [OF w(3)] this, of opts "[]"]
    have lo: "loopOk m opts n sent (sendLoop fuel m opts n gas left tip fee mev [] w3)" for left mev
      by (simp add: publishedOk_def)
    have "sendLoop fuel m opts n gas (nat (MaxAttempts (policy m))) tip fee
        (Opts_MEVProtected opts \<and> mevClients m \<noteq> []) [] w3 = Some (res, w')"
      using run g f nn v by (simp add: SendTransaction_def wrapS_def)
    then show ?thesis using lo unfolding loopOk_def by blast
  next
    case False
    then have "\<exists>e. res = (None, Some e)" "sent w' = []"
      using run g f nn w by (auto simp: SendTransaction_def wrapS_def split: sum.splits prod.splits)
    then show ?thesis using none by auto
  qed
qed

text \<open>C8: in one call of \<open>SendTransaction\<close> every transaction handed to the node or to an MEV
  endpoint uses one and the same nonce, has a tip of at least one gwei, a tip not above its
  fee cap, and a fee cap not above the configured maximum; and it is either the requested
  call or the zero-value transfer to the signer itself.\<close>

theorem every_submission_bounded:
  assumes "recordsSends m sent" "policyOk (policy m)" "baseFeeOk m" "sent w = []"
    "SendTransaction fuel m opts w = Some (res, w')"
  shows "\<exists>n. list_all (\<lambda>stx. let tx = Signed_Tx stx in Tx_Nonce tx = n \<and> gweiWei \<le> Tx_GasTipCap tx \<and>
      Tx_GasTipCap tx \<le> Tx_GasFeeCap tx \<and> Tx_GasFeeCap tx \<le> MaxFeePerGasWei (policy m) \<and>
      (requested opts tx \<or> Tx_To tx = signerAddress m \<and> Tx_Value tx = 0 \<and> Tx_Data tx = [])) (sent w')"
  using SendTransaction_ok [OF assms]
  by (auto simp: list_all_iff sentFrom_def sendable_def feesOk_def minTipCap_def Let_def)

text \<open>C13: the result of \<open>SendTransaction\<close> is truthful when it has a receipt: the receipt is that
  of a transaction this call sent with the requested target, data and value, and there is
  no error exactly if the receipt's status is success. Without a receipt there is an error.\<close>

theorem send_result_truthful:
  assumes "recordsSends m sent" "policyOk (policy m)" "baseFeeOk m" "sent w = []"
    "SendTransaction fuel m opts w = Some (res, w')"
  shows "case res of
      (None, e) \<Rightarrow> e \<noteq> None
    | (Some r, e) \<Rightarrow> (e = None \<longleftrightarrow> Receipt_Status r = 1) \<and>
        (\<exists>tx\<in>set (sent w'). requested opts (Signed_Tx tx) \<and> Signed_Hash tx = Receipt_TxHash r)"
  using SendTransaction_ok [OF assms] by (auto simp: resultOk_def)

section \<open>Waiting\<close>

text \<open>
  A chain that moves, as a node shows it. \<open>ck_head t\<close> is the number of the head block at time \<open>t\<close>: it
  never falls, and within any \<open>ck_gap\<close> of time at least one block is added; a gap of several slots allows for
  missed ones. \<open>ck_now\<close> is the clock: it never goes back, and a poll that is not cancelled takes at least
  \<open>ck_tick\<close> (the interval of four seconds, or less if a tick was late). The node may fail at any time; a head
  that it reports has existed by the end of the call and is at most \<open>ck_lag\<close> old.
\<close>

record 'w chainClock =
  ck_now :: "'w \<Rightarrow> nat"
  ck_head :: "nat \<Rightarrow> nat"
  ck_gap :: nat
  ck_lag :: nat
  ck_tick :: nat

definition chainMoves :: "'w TxManager \<Rightarrow> 'w chainClock \<Rightarrow> bool" where
  "chainMoves m k \<longleftrightarrow> 0 < ck_tick k \<and>
     (\<forall>t t'. t \<le> t' \<longrightarrow> ck_head k t \<le> ck_head k t') \<and> (\<forall>t. ck_head k t < ck_head k (t + ck_gap k)) \<and>
     (\<forall>w w'. sleepFor (clock m) receiptPollInterval w = (True, w') \<longrightarrow> ck_now k w + ck_tick k \<le> ck_now k w') \<and>
     (\<forall>h w. ck_now k w \<le> ck_now k (snd (callTransactionReceipt m h w))) \<and>
     (\<forall>w. ck_now k w \<le> ck_now k (snd (callBlockNumber m w))) \<and>
     (\<forall>w b w'. callBlockNumber m w = (Inr b, w') \<longrightarrow>
        ck_head k (ck_now k w - ck_lag k) \<le> unat b \<and> unat b \<le> ck_head k (ck_now k w'))"

lemma chainMoves_D:
  assumes "chainMoves m k"
  shows "0 < ck_tick k" "t \<le> t' \<Longrightarrow> ck_head k t \<le> ck_head k t'" "ck_head k t < ck_head k (t + ck_gap k)"
    "sleepFor (clock m) receiptPollInterval w = (True, w') \<Longrightarrow> ck_now k w + ck_tick k \<le> ck_now k w'"
    "callTransactionReceipt m h w = (a, w') \<Longrightarrow> ck_now k w \<le> ck_now k w'"
    "callBlockNumber m w = (c, w') \<Longrightarrow> ck_now k w \<le> ck_now k w'"
    "callBlockNumber m w = (Inr b, w') \<Longrightarrow> ck_head k (ck_now k w - ck_lag k) \<le> unat b \<and> unat b \<le> ck_head k (ck_now k w')"
  using assms unfolding chainMoves_def by (blast, blast, blast, blast, metis snd_conv, metis snd_conv, blast)

lemma chain_grows:
  assumes "chainMoves m k"
  shows "ck_head k t + n \<le> ck_head k (t + n * ck_gap k)"
proof (induction n)
  case (Suc n)
  with chainMoves_D(3) [OF assms, of "t + n * ck_gap k"] show ?case by (simp add: algebra_simps)
qed simp

text \<open>The time after which every reported head makes the wait time out, and the polls until then.\<close>

definition pollsLeft :: "'w chainClock \<Rightarrow> nat \<Rightarrow> 'w \<Rightarrow> nat" where
  "pollsLeft k deadline w = (deadline - ck_now k w + ck_tick k - 1) div ck_tick k"

lemma pollsLeft_0: "0 < ck_tick k \<Longrightarrow> pollsLeft k deadline w = 0 \<longleftrightarrow> deadline \<le> ck_now k w"
  by (auto simp: pollsLeft_def div_eq_0_iff)

lemma pollsLeft_step:
  assumes "0 < ck_tick k" "ck_now k w + ck_tick k \<le> ck_now k w'"
  shows "pollsLeft k deadline w' \<le> pollsLeft k deadline w - 1"
proof (cases "deadline \<le> ck_now k w'")
  case True
  then show ?thesis using assms(1) pollsLeft_0 by (metis zero_le)
next
  case False
  then have "deadline - ck_now k w' + ck_tick k - 1 + ck_tick k \<le> deadline - ck_now k w + ck_tick k - 1" using assms by simp
  then have "(deadline - ck_now k w' + ck_tick k - 1 + ck_tick k) div ck_tick k \<le> pollsLeft k deadline w"
    unfolding pollsLeft_def by (rule div_le_mono)
  moreover have "(deadline - ck_now k w' + ck_tick k - 1 + ck_tick k) div ck_tick k = pollsLeft k deadline w' + 1"
    using assms(1) by (simp only: pollsLeft_def div_add_self2)
  ultimately show ?thesis by simp
qed

lemma late_head_times_out:
  assumes mv: "chainMoves m k" and p: "0 \<le> P" "P < 2 ^ 63"
    and start: "unat start \<le> ck_head k t0" and late: "t0 + nat P * ck_gap k + ck_lag k \<le> ck_now k w"
    and b: "callBlockNumber m w = (Inr cur, w')"
  shows "(word_of_int P :: u64) \<le> cur - start"
proof -
  have P: "unat (word_of_int P :: u64) = nat P"
    using p by (simp add: unat_eq_nat_uint uint_word_of_int take_bit_int_eq_self)
  have "unat start + nat P \<le> ck_head k (t0 + nat P * ck_gap k)" using chain_grows [OF mv, of t0 "nat P"] start by simp
  also have "\<dots> \<le> ck_head k (ck_now k w - ck_lag k)" using late by (intro chainMoves_D(2) [OF mv]) simp
  also have "\<dots> \<le> unat cur" using chainMoves_D(7) [OF mv b] by simp
  finally have "start \<le> cur" "nat P \<le> unat cur - unat start" by (simp_all add: word_le_nat_alt)
  then show ?thesis using P by (simp add: word_le_nat_alt unat_sub_exact)
qed

lemma pollReceipt_returns:
  assumes mv: "chainMoves m k" and p: "0 \<le> PendingTimeoutBlocks (policy m)" "PendingTimeoutBlocks (policy m) < 2 ^ 63"
    and start: "unat start \<le> ck_head k t0"
    and deadline: "deadline = t0 + nat (PendingTimeoutBlocks (policy m)) * ck_gap k + ck_lag k"
  shows "f < blockNumberRetryLimit \<Longrightarrow>
    pollsLeft k deadline w + (if pollsLeft k deadline w = 0 then 3 - f else 3) \<le> fuel \<Longrightarrow>
    \<exists>r. pollReceipt fuel m tx start f w = Some r"
proof (induction fuel arbitrary: f w)
  case 0
  then show ?case by (simp add: blockNumberRetryLimit_def split: if_splits)
next
  case (Suc fuel)
  note tick = chainMoves_D(1) [OF mv]
  obtain c w1 where s: "sleepFor (clock m) receiptPollInterval w = (c, w1)" by fastforce
  obtain a w2 where a: "callTransactionReceipt m (Signed_Hash tx) w1 = (a, w2)" by fastforce
  obtain b w3 where b: "callBlockNumber m w2 = (b, w3)" by fastforce
  show ?case
  proof (cases "c \<and> isl a")
    case False
    then show ?thesis using s a by (cases c; cases a) simp_all
  next
    case go: True
    then obtain e where e: "a = Inl e" by (auto simp: isl_def)
    have t: "ck_now k w + ck_tick k \<le> ck_now k w2" "ck_now k w2 \<le> ck_now k w3"
      using chainMoves_D(4) [OF mv, of w w1] chainMoves_D(5) [OF mv a] chainMoves_D(6) [OF mv b] s go by simp_all
    have left: "pollsLeft k deadline w3 \<le> pollsLeft k deadline w - 1"
      by (rule pollsLeft_step [OF tick]) (use t in simp)
    show ?thesis
    proof (cases b)
      case (Inl e')
      show ?thesis
      proof (cases "blockNumberRetryLimit \<le> Suc f")
        case True
        then show ?thesis using s a b e Inl go by simp
      next
        case False
        then have "\<exists>r. pollReceipt fuel m tx start (Suc f) w3 = Some r"
          using Suc.prems left by (intro Suc.IH) (auto simp: blockNumberRetryLimit_def split: if_splits)
        then show ?thesis using s a b e Inl False go by simp
      qed
    next
      case (Inr cur)
      show ?thesis
      proof (cases "(word_of_int (PendingTimeoutBlocks (policy m)) :: u64) \<le> cur - start")
        case True
        then show ?thesis using s a b e Inr go by simp
      next
        case False
        then have "\<not> deadline \<le> ck_now k w2"
          using late_head_times_out [OF mv p start] b Inr deadline by blast
        then have "pollsLeft k deadline w \<noteq> 0" using pollsLeft_0 [OF tick] t(1) by simp
        then have "\<exists>r. pollReceipt fuel m tx start 0 w3 = Some r"
          using Suc.prems left by (intro Suc.IH) (auto simp: blockNumberRetryLimit_def)
        then show ?thesis using s a b e Inr False go by simp
      qed
    qed
  qed
qed

lemma waitForReceipt_returns:
  assumes "chainMoves m k" "0 \<le> PendingTimeoutBlocks (policy m)" "PendingTimeoutBlocks (policy m) < 2 ^ 63"
    "(nat (PendingTimeoutBlocks (policy m)) * ck_gap k + ck_lag k) div ck_tick k + 4 \<le> fuel"
  shows "\<exists>r. waitForReceipt fuel m tx w = Some r"
proof -
  obtain b w1 where b: "callBlockNumber m w = (b, w1)" by fastforce
  show ?thesis
  proof (cases b)
    case (Inl e)
    then show ?thesis using b by (simp add: waitForReceipt_def wrapS_def)
  next
    case (Inr start)
    let ?d = "nat (PendingTimeoutBlocks (policy m)) * ck_gap k + ck_lag k"
    have "pollsLeft k (ck_now k w1 + ?d) w1 \<le> (?d + ck_tick k) div ck_tick k"
      unfolding pollsLeft_def by (rule div_le_mono) simp
    also have "\<dots> = ?d div ck_tick k + 1" using chainMoves_D(1) [OF assms(1)] by (simp only: div_add_self2)
    finally have "pollsLeft k (ck_now k w1 + ?d) w1 + 3 \<le> fuel" using assms(4) by simp
    moreover have "unat start \<le> ck_head k (ck_now k w1)" using chainMoves_D(7) [OF assms(1)] b Inr by blast
    ultimately have "\<exists>r. pollReceipt fuel m tx start 0 w1 = Some r"
      by (intro pollReceipt_returns [OF assms(1-3), where deadline = "ck_now k w1 + ?d"])
         (auto simp: blockNumberRetryLimit_def)
    then show ?thesis using b Inr by (simp add: waitForReceipt_def wrapS_def)
  qed
qed

text \<open>An operation returns on every branch.\<close>

lemma returns_rules:
  "Some y \<noteq> None" "(c \<Longrightarrow> p \<noteq> None) \<Longrightarrow> (\<not> c \<Longrightarrow> q \<noteq> None) \<Longrightarrow> (if c then p else q) \<noteq> None"
  "(\<And>a b. f a b \<noteq> None) \<Longrightarrow> (case z of (a, b) \<Rightarrow> f a b) \<noteq> None"
  "(\<And>a. g a \<noteq> None) \<Longrightarrow> (\<And>b. h b \<noteq> None) \<Longrightarrow> (case s of Inl a \<Rightarrow> g a | Inr b \<Rightarrow> h b) \<noteq> None"
  "p \<noteq> None \<Longrightarrow> (\<And>b. h b \<noteq> None) \<Longrightarrow> (case v of None \<Rightarrow> p | Some b \<Rightarrow> h b) \<noteq> None"
  "p \<noteq> None \<Longrightarrow> q \<noteq> None \<Longrightarrow> (case t of True \<Rightarrow> p | False \<Rightarrow> q) \<noteq> None"
  by (auto split: prod.splits sum.splits option.splits bool.splits)

lemma returns_after: "m \<noteq> None \<Longrightarrow> (\<And>b. h b \<noteq> None) \<Longrightarrow> (case m of None \<Rightarrow> None | Some b \<Rightarrow> h b) \<noteq> None"
  by auto

lemma giveUpTx_returns:
  assumes "\<And>tx w. waitForReceipt fuel m tx w \<noteq> None"
  shows "giveUpTx fuel m nonce fee err w \<noteq> None"
  unfolding giveUpTx_def cancelTx_def Let_def
  by (rule returns_after; intro returns_rules returns_after assms)

lemma sendWait_returns:
  assumes "\<And>tx w. waitForReceipt fuel m tx w \<noteq> None" "\<And>t f w. retry t f w \<noteq> None"
  shows "sendWait fuel m opts nonce left tip fee tx retry w \<noteq> None"
  unfolding sendWait_def
  by (rule returns_after [OF assms(1)]) (intro returns_rules giveUpTx_returns assms)

lemma sendLoop_returns:
  assumes "\<And>tx w. waitForReceipt fuel m tx w \<noteq> None"
  shows "sendLoop fuel m opts nonce gas left tip fee mev published w \<noteq> None"
proof (induction left arbitrary: tip fee mev published w)
  case 0
  show ?case unfolding sendLoop.simps by (rule giveUpTx_returns [OF assms])
next
  case (Suc left)
  show ?case unfolding sendLoop.simps by (intro returns_rules sendWait_returns giveUpTx_returns assms Suc.IH)
qed

text \<open>C35: waiting for a receipt ends, and with it every submission. If the chain adds a block at least
  once in any \<open>ck_gap\<close> of time and the heads that the node reports are at most \<open>ck_lag\<close> old, then, however often
  the node fails to answer, whatever receipts it has, and although many polls may see the same head, the wait ends
  after at most \<open>(pending_timeout_blocks * ck_gap + ck_lag) / ck_tick + 4\<close> polls; with that bound on each of its
  waits \<open>SendTransaction\<close> returns.\<close>

theorem wait_for_receipt_returns:
  assumes "chainMoves m k" "0 \<le> PendingTimeoutBlocks (policy m)" "PendingTimeoutBlocks (policy m) < 2 ^ 63"
    "(nat (PendingTimeoutBlocks (policy m)) * ck_gap k + ck_lag k) div ck_tick k + 4 \<le> fuel"
  shows "(\<exists>r. waitForReceipt fuel m tx w = Some r) \<and> (\<exists>r. SendTransaction fuel m opts w = Some r)"
proof
  have wait: "\<exists>r. waitForReceipt fuel m tx w = Some r" for tx w by (rule waitForReceipt_returns [OF assms])
  then show "\<exists>r. waitForReceipt fuel m tx w = Some r" .
  have "waitForReceipt fuel m tx w \<noteq> None" for tx w using wait [of tx w] by blast
  then have "SendTransaction fuel m opts w \<noteq> None"
    unfolding SendTransaction_def by (intro returns_rules sendLoop_returns)
  then show "\<exists>r. SendTransaction fuel m opts w = Some r" by blast
qed

section \<open>Sample worlds and what waiting misses\<close>

text \<open>
  A world is a block height and the transactions sent. The node reports the height, every
  poll takes one block, and transactions to others are mined at a given height, transfers
  to the signer never.
\<close>

type_synonym txWorld = "nat \<times> signedTx list"

definition samplePolicy :: TxPolicy where
  "samplePolicy = \<lparr>GasBufferPercent = 20, MaxFeePerGasGwei = 420, PendingTimeoutBlocks = 1,
     GasBumpPercent = 10, MaxAttempts = 1, RetryDelay = 0\<rparr>"

definition minedAt :: "nat \<Rightarrow> bytes \<Rightarrow> (txWorld, receipt) op" where
  "minedAt h hash w =
     (if h \<le> fst w \<and> hash = [1]
      then (Inr \<lparr>Receipt_Status = 1, Receipt_TxHash = hash, Receipt_BlockNumber = int h\<rparr>, w)
      else (Inl (LibErr ''not found''), w))"

definition sampleManager :: "nat \<Rightarrow> txWorld TxManager" where
  "sampleManager h = \<lparr>policy = samplePolicy, signerAddress = [9],
     signTx = (\<lambda>tx. retS \<lparr>Signed_Tx = tx, Signed_Hash = (if Tx_To tx = [9] then [0] else [1])\<rparr>),
     callEstimateGas = (\<lambda>_. retS 50000), callSuggestGasTipCap = retS 1, callBaseFee = retS (7 * gweiWei),
     callPendingNonceAt = (\<lambda>_. retS 3),
     callSendTransaction = (\<lambda>tx w. (Inr (), fst w, snd w @ [tx])),
     callTransactionReceipt = minedAt h,
     callBlockNumber = (\<lambda>w. (if fst w < 1000 then Inr (of_nat (fst w)) else Inl (LibErr ''down''), w)),
     callContractAt = (\<lambda>_ _. retS []), mevClients = [],
     clock = \<lparr>randInt63n = (\<lambda>n w. (0, w)), sleepFor = (\<lambda>d w. (True, Suc (fst w), snd w)), ctxDone = (\<lambda>w. False)\<rparr>,
     revertErrorData = (\<lambda>_. None), unpackRevert = (\<lambda>_. None), errorSelectors = Map.empty\<rparr>"

definition sampleOpts :: TxOpts where
  "sampleOpts = \<lparr>Opts_To = [5], Opts_Data = [1, 2], Opts_Value = None, Opts_GasLimit = 0,
     Opts_MEVProtected = False\<rparr>"

lemma sampleManager_ok:
  "recordsSends (sampleManager h) snd" "policyOk (policy (sampleManager h))" "baseFeeOk (sampleManager h)"
  by (auto simp: recordsSends_def quiet_def sampleManager_def retS_def minedAt_def policyOk_def
      ValidatePolicy_def samplePolicy_def baseFeeOk_def gweiWei_def split: if_splits)

lemma sampleSend_1:
  "\<exists>r txs. SendTransaction (Suc 0) (sampleManager 1) sampleOpts (0, []) = Some ((Some r, None), 1, txs)"
  by (simp add: SendTransaction_def estimateGas_def sampleManager_def sampleOpts_def retS_def bindS_def wrapS_def
      failS_def suggestGasFees_def samplePolicy_def minTipCap_def gweiWei_def MaxFeePerGasWei_def capFees_def
      buildAndSignTx_def sendWait_def waitForReceipt_def minedAt_def handleReceipt_def)

theorem every_submission_bounded_witness:
  "\<exists>res w' n. SendTransaction (Suc 0) (sampleManager 1) sampleOpts (0, []) = Some (res, w') \<and>
     list_all (\<lambda>stx. let tx = Signed_Tx stx in Tx_Nonce tx = n \<and> gweiWei \<le> Tx_GasTipCap tx \<and>
      Tx_GasTipCap tx \<le> Tx_GasFeeCap tx \<and> Tx_GasFeeCap tx \<le> MaxFeePerGasWei (policy (sampleManager 1)) \<and>
      (requested sampleOpts tx \<or> Tx_To tx = signerAddress (sampleManager 1) \<and> Tx_Value tx = 0 \<and> Tx_Data tx = []))
      (snd w')"
proof -
  obtain r txs where s: "SendTransaction (Suc 0) (sampleManager 1) sampleOpts (0, []) = Some ((Some r, None), 1, txs)"
    using sampleSend_1 by blast
  from every_submission_bounded [OF sampleManager_ok _ s] s show ?thesis by fastforce
qed

theorem send_result_truthful_witness:
  "\<exists>r w'. SendTransaction (Suc 0) (sampleManager 1) sampleOpts (0, []) = Some ((Some r, None), w') \<and>
     Receipt_Status r = 1 \<and>
     (\<exists>tx\<in>set (snd w'). requested sampleOpts (Signed_Tx tx) \<and> Signed_Hash tx = Receipt_TxHash r)"
proof -
  obtain r txs where s: "SendTransaction (Suc 0) (sampleManager 1) sampleOpts (0, []) = Some ((Some r, None), 1, txs)"
    using sampleSend_1 by blast
  from send_result_truthful [OF sampleManager_ok _ s] s show ?thesis by fastforce
qed

theorem replacement_fees_witness:
  "\<exists>tip' fee'. fst (bumpOrResuggest (sampleManager 1) gweiWei (10 * gweiWei) (0, [])) = Some (tip', fee') \<and>
     gweiWei * 110 div 100 \<le> tip' \<and> 11 * gweiWei \<le> fee' \<and> fee' \<le> 420 * gweiWei"
proof -
  obtain w' tip' fee' where b: "bumpOrResuggest (sampleManager 1) gweiWei (10 * gweiWei) (0, []) = (Some (tip', fee'), w')"
    by (simp add: bumpOrResuggest_def suggestGasFees_def sampleManager_def samplePolicy_def opS_simps
        applyBumpPercent_def wrap64_id MaxFeePerGasWei_def gweiWei_def capFees_def minTipCap_def)
  have f: "feesOk (sampleManager 1) gweiWei (10 * gweiWei)"
    by (simp add: feesOk_def sampleManager_def samplePolicy_def minTipCap_def gweiWei_def MaxFeePerGasWei_def)
  from replacement_fees [OF sampleManager_ok(2,3) f b] b show ?thesis
    by (simp add: sampleManager_def samplePolicy_def MaxFeePerGasWei_def gweiWei_def)
qed

theorem cancel_underpriced_at_cap_witness:
  "cancelFeeCap (sampleManager 1) (400 * gweiWei) = 420 * gweiWei \<and>
   applyBumpPercent (sampleManager 1) (400 * gweiWei) = 440 * gweiWei"
proof -
  have a: "applyBumpPercent (sampleManager 1) (400 * gweiWei) = 440 * gweiWei"
    by (simp add: applyBumpPercent_def sampleManager_def samplePolicy_def wrap64_id gweiWei_def)
  moreover have p: "MaxFeePerGasWei (policy (sampleManager 1)) = 420 * gweiWei"
    by (simp add: sampleManager_def samplePolicy_def MaxFeePerGasWei_def)
  ultimately show ?thesis
    using cancel_underpriced_at_cap [of "sampleManager 1" "400 * gweiWei" gweiWei "(0, [])"]
    by (simp add: gweiWei_def)
qed

definition sampleSigned :: signedTx where
  "sampleSigned = \<lparr>Signed_Tx = \<lparr>Tx_Nonce = 3, Tx_GasTipCap = gweiWei, Tx_GasFeeCap = 15 * gweiWei, Tx_Gas = 60000,
     Tx_To = [5], Tx_Value = 0, Tx_Data = [1, 2]\<rparr>, Signed_Hash = [1]\<rparr>"

text \<open>A world with slots of three polls: the head is every third number, and is known with a delay of two slots.\<close>

definition slotManager :: "txWorld TxManager" where
  "slotManager = (sampleManager 1000)\<lparr>policy := samplePolicy\<lparr>PendingTimeoutBlocks := 2\<rparr>,
     callBlockNumber := (\<lambda>w. (if fst w < 1000 then Inr (of_nat (fst w div 3 - 2)) else Inl (LibErr ''down''), w))\<rparr>"

definition slotClock :: "txWorld chainClock" where
  "slotClock = \<lparr>ck_now = (\<lambda>w. 4 * fst w), ck_head = (\<lambda>t. t div 12), ck_gap = 12, ck_lag = 24, ck_tick = 4\<rparr>"

lemma slotClock_moves: "chainMoves slotManager slotClock"
proof -
  have "unat (of_nat (n div 3 - 2) :: u64) = n div 3 - 2" if "n < 1000" for n
    using that by (simp add: unat_of_nat)
  moreover have "(4 * n - 24) div 12 = n div 3 - 2" "4 * n div 12 = n div 3" for n :: nat
  proof -
    show d: "4 * n div 12 = n div 3" for n :: nat using div_mult_mult1 [of 4 n 3] by simp
    show "(4 * n - 24) div 12 = n div 3 - 2" using d [of "n - 6"] by (simp add: right_diff_distrib')
  qed
  ultimately show ?thesis
    by (auto simp: chainMoves_def slotManager_def slotClock_def sampleManager_def minedAt_def div_le_mono
        split: if_splits)
qed

theorem wait_for_receipt_returns_witness:
  "(\<exists>r. waitForReceipt 16 slotManager sampleSigned (0, []) = Some r) \<and>
   (\<exists>r. SendTransaction 16 slotManager sampleOpts (0, []) = Some r)"
  by (rule wait_for_receipt_returns [OF slotClock_moves])
     (simp_all add: slotManager_def slotClock_def sampleManager_def samplePolicy_def)

text \<open>The timeout is computed with unsigned subtraction. If at the first poll the transaction
  has no receipt yet and the node reports any block number below the starting one (a node
  behind a load balancer that lags), the wait ends at once as timed out instead of waiting
  \<open>pending_timeout_blocks\<close> blocks.\<close>

theorem wait_gives_up_on_lagging_node:
  assumes "callBlockNumber m w = (Inr start, w1)" "sleepFor (clock m) receiptPollInterval w1 = (True, w2)"
    "callTransactionReceipt m (Signed_Hash tx) w2 = (Inl e, w3)" "callBlockNumber m w3 = (Inr cur, w4)"
    "cur < start" "unat start < 2 ^ 63" "0 \<le> PendingTimeoutBlocks (policy m)"
    "PendingTimeoutBlocks (policy m) < 2 ^ 63"
  shows "waitForReceipt (Suc fuel) m tx w = Some (Inl (Wrap (''timed out waiting for receipt after '' @
    decInt (PendingTimeoutBlocks (policy m)) @ '' blocks'') e), w4)"
proof -
  have "unat (word_of_int (PendingTimeoutBlocks (policy m)) :: u64) < 2 ^ 63"
    using assms(7,8) by (simp add: unat_eq_nat_uint uint_word_of_int take_bit_int_eq_self)
  moreover have "unat (cur - start) = 2 ^ 64 + unat cur - unat start"
    using assms(5) by (simp add: unat_sub_if_size size_word.rep_eq word_less_nat_alt)
  ultimately have "(word_of_int (PendingTimeoutBlocks (policy m)) :: u64) \<le> cur - start"
    using assms(6) by (simp add: word_le_nat_alt)
  then show ?thesis using assms(1-4) by (simp add: waitForReceipt_def wrapS_def)
qed

definition laggingManager :: "txWorld TxManager" where
  "laggingManager = (sampleManager 7)\<lparr>policy := samplePolicy\<lparr>PendingTimeoutBlocks := 10\<rparr>,
     callBlockNumber := (\<lambda>w. (Inr (if fst w = 0 then 100 else 99), w))\<rparr>"

theorem wait_gives_up_on_lagging_node_witness:
  "\<exists>e w'. waitForReceipt 1 laggingManager sampleSigned (0, []) = Some (Inl e, w') \<and>
     fst w' = 1"
proof -
  have "waitForReceipt (Suc 0) laggingManager sampleSigned (0, []) =
      Some (Inl (Wrap (''timed out waiting for receipt after '' @
        decInt (PendingTimeoutBlocks (policy laggingManager)) @ '' blocks'') (LibErr ''not found'')), (1, []))"
    by (rule wait_gives_up_on_lagging_node [of _ _ 100 "(0, [])" "(1, [])" _ _ "(1, [])" 99])
       (simp_all add: laggingManager_def sampleSigned_def sampleManager_def minedAt_def samplePolicy_def)
  then show ?thesis by simp
qed

text \<open>An example: a mined and successful transaction can be reported as a failure. After the wait of the
  last attempt times out, \<open>SendTransaction\<close> tries to cancel and returns "max attempts
  exhausted" without looking for a receipt of what it published: in the sample world the
  requested transaction is mined one block later, during the wait for the cancellation, and
  its receipt with status success is available when the error is returned.\<close>

lemma mined_but_reported_exhausted:
  "\<exists>w'. SendTransaction (Suc (Suc 0)) (sampleManager 2) sampleOpts (0, []) =
       Some ((None, Some errMaxAttemptsExhausted), w') \<and>
     (\<exists>tx\<in>set (snd w'). requested sampleOpts (Signed_Tx tx) \<and>
        (\<exists>r. callTransactionReceipt (sampleManager 2) (Signed_Hash tx) w' = (Inr r, w') \<and> Receipt_Status r = 1))"
  by (simp add: SendTransaction_def estimateGas_def sampleManager_def sampleOpts_def retS_def bindS_def
      wrapS_def failS_def suggestGasFees_def samplePolicy_def minTipCap_def gweiWei_def MaxFeePerGasWei_def
      capFees_def buildAndSignTx_def sendWait_def waitForReceipt_def minedAt_def handleReceipt_def giveUpTx_def
      cancelTx_def Let_def requested_def blockNumberRetryLimit_def)

end
