(* ===== verification/Beacon.thy ===== *)
theory Beacon
  imports Retry
begin

text \<open>
  The beacon client of \<^verbatim>\<open>eth/beacon/client.go\<close>. The HTTP client of go-eth2-client is a
  set of operations on the world. A 48-byte BLS key and a 32-byte root are byte lists.
\<close>

record FinalizedCheckpoint =
  CP_Epoch :: u64
  CP_BlockNum :: u64
  CP_BlockRoot :: bytes

record 'w beaconClient =
  apiFinality :: "('w, u64) op"
  apiBlockNumber :: "bytes \<Rightarrow> ('w, goerror + u64) op"
  apiFinalizedHeaderRoot :: "('w, bytes) op"
  apiValidators :: "bytes list \<Rightarrow> ('w, (bytes \<times> u64) list) op"
  beaconTimer :: "'w timer"
  beaconRetry :: RetryConfig

text \<open>\<open>errors.As\<close> for the library's HTTP error: the first one in the chain.\<close>

fun apiErrorCode :: "goerror \<Rightarrow> nat option" where
  "apiErrorCode (ApiError c s) = Some c"
| "apiErrorCode (Wrap p e) = apiErrorCode e"
| "apiErrorCode (Wrap2 a b) = (case apiErrorCode a of Some c \<Rightarrow> Some c | None \<Rightarrow> apiErrorCode b)"
| "apiErrorCode _ = None"

definition IsRetriable :: "goerror \<Rightarrow> bool" where
  "IsRetriable err =
     (case apiErrorCode err of
        Some code \<Rightarrow> \<not> (400 \<le> code \<and> code < 500 \<and> code \<noteq> 429)
      | None \<Rightarrow> True)"

definition beaconCall :: "'w beaconClient \<Rightarrow> ('w, 'a) op \<Rightarrow> ('w, 'a) op" where
  "beaconCall c fn = WithRetry (beaconTimer c) (beaconRetry c) fn (Some IsRetriable)"

definition GetFinalizedEpoch :: "'w beaconClient \<Rightarrow> ('w, u64) op" where
  "GetFinalizedEpoch c = beaconCall c (wrapS ''get finality'' (apiFinality c))"

text \<open>\<open>fetchCheckpoint\<close> of the event \<open>(epoch, block)\<close>; the inner result is
  \<open>ExecutionBlockNumber\<close>.\<close>

definition fetchCheckpoint :: "'w beaconClient \<Rightarrow> u64 \<Rightarrow> bytes \<Rightarrow> ('w, FinalizedCheckpoint) op" where
  "fetchCheckpoint c epoch block =
     bindS (wrapS ''get beacon block'' (apiBlockNumber c block)) (\<lambda>r.
       case r of
         Inl err \<Rightarrow> failS (Wrap ''get execution block number'' err)
       | Inr n \<Rightarrow> retS \<lparr>CP_Epoch = epoch, CP_BlockNum = n, CP_BlockRoot = block\<rparr>)"

definition checkFinalizedRoot :: "'w beaconClient \<Rightarrow> bytes \<Rightarrow> ('w, unit) op" where
  "checkFinalizedRoot c expected =
     bindS (wrapS ''get finalized block header'' (apiFinalizedHeaderRoot c)) (\<lambda>root.
       if root \<noteq> expected
       then failS (ErrNew (''finalized block root mismatch: expected 0x'' @ hex expected @ '', got 0x'' @ hex root))
       else retS ())"

definition VerifyFinalizedBlockRoot :: "'w beaconClient \<Rightarrow> bytes \<Rightarrow> ('w, unit) op" where
  "VerifyFinalizedBlockRoot c expected = beaconCall c (checkFinalizedRoot c expected)"

definition balanceFetchBatchSize :: nat where
  "balanceFetchBatchSize = 2000"

function keyBatches :: "bytes list \<Rightarrow> bytes list list" where
  "keyBatches pks =
     (if pks = [] then [] else take balanceFetchBatchSize pks # keyBatches (drop balanceFetchBatchSize pks))"
  by pat_completeness auto
termination
  by (relation "measure length") (auto simp: balanceFetchBatchSize_def)

declare keyBatches.simps [simp del]

definition mergeBalances :: "(bytes \<rightharpoonup> u64) \<Rightarrow> (bytes \<times> u64) list \<Rightarrow> (bytes \<rightharpoonup> u64)" where
  "mergeBalances merged vs = foldl (\<lambda>m v. m(fst v \<mapsto> snd v)) merged vs"

text \<open>
  The goroutines of \<open>GetValidatorBalances\<close>, one per batch, in one order of completion: the
  map is written under a mutex, and the first error makes the group fail.
\<close>

fun fetchBatches ::
    "'w beaconClient \<Rightarrow> bytes list list \<Rightarrow> (bytes \<rightharpoonup> u64) \<Rightarrow> ('w, bytes \<rightharpoonup> u64) op" where
  "fetchBatches c [] merged = retS merged"
| "fetchBatches c (b # bs) merged =
     bindS (beaconCall c (wrapS ''get validators'' (apiValidators c b)))
       (\<lambda>vs. fetchBatches c bs (mergeBalances merged vs))"

definition GetValidatorBalances :: "'w beaconClient \<Rightarrow> bytes list \<Rightarrow> ('w, bytes \<rightharpoonup> u64) op" where
  "GetValidatorBalances c pubkeys =
     (if pubkeys = [] then retS Map.empty
      else fetchBatches c (keyBatches (map (copyTo 48) pubkeys)) Map.empty)"

text \<open>The handler of a finalized checkpoint event: fetch it with retries and offer it to the
  channel of capacity 1; a checkpoint that cannot be fetched or does not fit is dropped.\<close>

definition onFinalizedEvent ::
    "'w beaconClient \<Rightarrow> u64 \<Rightarrow> bytes \<Rightarrow> FinalizedCheckpoint list \<Rightarrow> 'w \<Rightarrow> FinalizedCheckpoint list \<times> 'w" where
  "onFinalizedEvent c epoch block ch w =
     (case beaconCall c (fetchCheckpoint c epoch block) w of
        (Inl _, w') \<Rightarrow> (ch, w')
      | (Inr cp, w') \<Rightarrow> (if length ch < 1 then ch @ [cp] else ch, w'))"

section \<open>Lemmas\<close>

lemma beaconCall_Inr:
  "beaconCall c fn w = (Inr x, w') \<Longrightarrow> (\<And>w x w'. fn w = (Inr x, w') \<Longrightarrow> Q x) \<Longrightarrow> Q x"
  unfolding beaconCall_def by (rule WithRetry_Inr)

lemma keyBatches_concat: "concat (keyBatches pks) = pks"
proof (induction pks rule: keyBatches.induct)
  case (1 pks)
  then show ?case by (subst keyBatches.simps) auto
qed

lemma keyBatches_size: "b \<in> set (keyBatches pks) \<Longrightarrow> 0 < length b \<and> length b \<le> 2000"
proof (induction pks rule: keyBatches.induct)
  case (1 pks)
  show ?case
  proof (cases "pks = []")
    case True
    then show ?thesis using 1(2) by (simp add: keyBatches.simps)
  next
    case False
    then have "b = take balanceFetchBatchSize pks \<or> b \<in> set (keyBatches (drop balanceFetchBatchSize pks))"
      using 1(2) by (subst (asm) keyBatches.simps) simp
    then show ?thesis using 1(1) [OF False] False by (auto simp: balanceFetchBatchSize_def)
  qed
qed

text \<open>A beacon state answers with the balance of each queried key it knows, and only of those.\<close>

definition answersFrom :: "'w beaconClient \<Rightarrow> (bytes \<rightharpoonup> u64) \<Rightarrow> bool" where
  "answersFrom c state \<longleftrightarrow>
     (\<forall>ks w vs w'. apiValidators c ks w = (Inr vs, w') \<longrightarrow>
        (\<forall>k b. (k, b) \<in> set vs \<longleftrightarrow> k \<in> set ks \<and> state k = Some b))"

lemma answersFrom_D:
  "answersFrom c state \<Longrightarrow> apiValidators c ks w = (Inr vs, w') \<Longrightarrow>
   \<forall>k b. (k, b) \<in> set vs \<longleftrightarrow> k \<in> set ks \<and> state k = Some b"
  unfolding answersFrom_def by blast

lemma mergeBalances_answer:
  assumes "\<forall>k b. (k, b) \<in> set vs \<longleftrightarrow> k \<in> set ks \<and> state k = Some b"
  shows "mergeBalances merged vs k = (if k \<in> set ks \<and> state k \<noteq> None then state k else merged k)"
proof -
  have "(\<forall>k b. (k, b) \<in> set us \<longrightarrow> state k = Some b) \<Longrightarrow>
      mergeBalances merged us k = (if k \<in> fst ` set us then state k else merged k)" for us
  proof (induction us rule: rev_induct)
    case (snoc u us)
    obtain ku bu where u: "u = (ku, bu)" by fastforce
    then have "state ku = Some bu" using snoc.prems by simp
    with snoc u show ?case by (auto simp: mergeBalances_def)
  qed (simp add: mergeBalances_def)
  moreover have "k \<in> fst ` set vs \<longleftrightarrow> k \<in> set ks \<and> state k \<noteq> None"
    using assms by (force simp: image_iff)
  ultimately show ?thesis using assms by simp
qed

lemma fetchBatches_answer:
  assumes "answersFrom c state"
  shows "fetchBatches c bs merged w = (Inr r, w') \<Longrightarrow>
    r k = (if k \<in> set (concat bs) \<and> state k \<noteq> None then state k else merged k)"
proof (induction bs arbitrary: merged w)
  case Nil
  then show ?case by (simp add: retS_def)
next
  case (Cons b bs)
  obtain vs w1 where v: "beaconCall c (wrapS ''get validators'' (apiValidators c b)) w = (Inr vs, w1)"
    and r: "fetchBatches c bs (mergeBalances merged vs) w1 = (Inr r, w')"
    using Cons.prems unfolding fetchBatches.simps by (rule bindS_eq_InrE)
  have "\<forall>k b'. (k, b') \<in> set vs \<longleftrightarrow> k \<in> set b \<and> state k = Some b'"
    using v by (rule beaconCall_Inr) (rule answersFrom_D [OF assms], simp)
  from mergeBalances_answer [OF this] Cons.IH [OF r] show ?case by auto
qed

lemma GetValidatorBalances_answer:
  assumes "answersFrom c state" "GetValidatorBalances c pks w = (Inr r, w')"
  shows "r k = (if k \<in> copyTo 48 ` set pks then state k else None)"
proof (cases "pks = []")
  case True
  then show ?thesis using assms(2) by (auto simp: GetValidatorBalances_def retS_def)
next
  case False
  then have "fetchBatches c (keyBatches (map (copyTo 48) pks)) Map.empty w = (Inr r, w')"
    using assms(2) by (simp add: GetValidatorBalances_def)
  from fetchBatches_answer [OF assms(1) this, of k] show ?thesis
    unfolding keyBatches_concat by (cases "state k") auto
qed

lemma VerifyFinalizedBlockRoot_Inr:
  assumes "VerifyFinalizedBlockRoot c expected w = (Inr u, w')"
    "\<And>w r w'. apiFinalizedHeaderRoot c w = (Inr r, w') \<Longrightarrow> r = root"
  shows "root = expected"
  using assms(1) unfolding VerifyFinalizedBlockRoot_def
proof (rule beaconCall_Inr [where Q = "\<lambda>_. root = expected"])
  fix w x w'
  assume "checkFinalizedRoot c expected w = (Inr x, w')"
  then show "root = expected"
    using assms(2) by (auto simp: checkFinalizedRoot_def retS_def failS_def elim!: bindS_eq_InrE split: if_splits)
qed

section \<open>Properties\<close>

text \<open>Balances are fetched completely whatever the number of validators: if the node answers
  every query from one beacon state, a successful \<open>GetValidatorBalances\<close> returns exactly the
  balances of the requested keys that this state has, although it asks in batches of at most
  2000 keys.\<close>

theorem validator_balances_complete:
  assumes "answersFrom c state" "GetValidatorBalances c pks w = (Inr r, w')"
  shows "r = (\<lambda>k. if k \<in> copyTo 48 ` set pks then state k else None) \<and>
    list_all (\<lambda>b. length b \<le> 2000) (keyBatches (map (copyTo 48) pks))"
  using GetValidatorBalances_answer [OF assms] keyBatches_size by (auto simp: list_all_iff)

definition sampleBeacon :: "nat beaconClient" where
  "sampleBeacon = \<lparr>apiFinality = retS 9, apiBlockNumber = (\<lambda>_. retS (Inr 5)), apiFinalizedHeaderRoot = retS [7],
     apiValidators = (\<lambda>ks. retS (map (\<lambda>k. (k, 33000000000)) ks)), beaconTimer = sampleTimer,
     beaconRetry = DefaultRetryConfig\<rparr>"

lemma sampleBeacon_answers: "answersFrom sampleBeacon (\<lambda>k. Some 33000000000)"
  by (auto simp: answersFrom_def sampleBeacon_def retS_def)

lemma sampleBeacon_fetch: "\<exists>r. fetchBatches sampleBeacon bs m w = (Inr r, w)"
  by (induction bs arbitrary: m)
     (simp_all add: retS_def bindS_def beaconCall_def WithRetry_ok sampleBeacon_def)

theorem validator_balances_complete_witness:
  "\<exists>r w'. GetValidatorBalances sampleBeacon [replicate 48 1] 0 = (Inr r, w') \<and>
     r = (\<lambda>k. if k \<in> copyTo 48 ` set [replicate 48 1] then Some 33000000000 else None)"
proof -
  obtain r w' where g: "GetValidatorBalances sampleBeacon [replicate 48 1] 0 = (Inr r, w')"
    using sampleBeacon_fetch by (simp add: GetValidatorBalances_def) blast
  from validator_balances_complete [OF sampleBeacon_answers g] g show ?thesis by blast
qed

end
