(* ===== verification/Contract.thy ===== *)
theory Contract
  imports TxManager Syncer
begin

text \<open>
  The contract client of \<^verbatim>\<open>contract/client.go\<close> and the parsing of \<open>RootCommitted\<close> logs
  of \<^verbatim>\<open>contract/events.go\<close>. The ABI encoders and decoders of go-ethereum are
  parameters (an error is its text), a read-only call is an operation on the world.
\<close>

text \<open>The struct \<open>Cluster\<close> has the fields of the syncer's \<open>cluster\<close>.\<close>

record 'w contractClient =
  contractAddress :: bytes
  txManagerOf :: "'w TxManager"
  callViews :: "bytes \<Rightarrow> ('w, bytes) op"
  packCommitRoot :: "bytes \<Rightarrow> u64 \<Rightarrow> string + bytes"
  packGetCommittedRoot :: "u64 \<Rightarrow> string + bytes"
  unpackCommittedRoot :: "bytes \<Rightarrow> string + bytes"
  packGetEffectiveBalance :: "bytes \<Rightarrow> u64 list \<Rightarrow> cluster \<Rightarrow> string + bytes"
  unpackEffectiveBalance :: "bytes \<Rightarrow> string + u32"
  packUpdateClusterBalance ::
    "u64 \<Rightarrow> bytes \<Rightarrow> u64 list \<Rightarrow> cluster \<Rightarrow> u32 \<Rightarrow> bytes list \<Rightarrow> string + bytes"

definition abiResult :: "string \<Rightarrow> string + 'a \<Rightarrow> ('w, 'a) op" where
  "abiResult p r = (case r of Inl msg \<Rightarrow> failS (Wrap p (LibErr msg)) | Inr x \<Rightarrow> retS x)"

definition CommitRoot ::
    "nat \<Rightarrow> 'w contractClient \<Rightarrow> bytes \<Rightarrow> u64 \<Rightarrow> 'w \<Rightarrow> (txResult \<times> 'w) option" where
  "CommitRoot fuel c merkleRoot blockNum w =
     (case packCommitRoot c merkleRoot blockNum of
        Inl msg \<Rightarrow> Some ((None, Some (Wrap ''pack commitRoot'' (LibErr msg))), w)
      | Inr data \<Rightarrow> SendTransaction fuel (txManagerOf c)
          \<lparr>Opts_To = contractAddress c, Opts_Data = data, Opts_Value = None, Opts_GasLimit = 0,
           Opts_MEVProtected = False\<rparr> w)"

definition GetCommittedRoot :: "'w contractClient \<Rightarrow> u64 \<Rightarrow> ('w, bytes) op" where
  "GetCommittedRoot c blockNum =
     bindS (abiResult ''pack getCommittedRoot'' (packGetCommittedRoot c blockNum)) (\<lambda>data.
     bindS (wrapS ''call getCommittedRoot'' (callViews c data)) (\<lambda>result.
     abiResult ''unpack getCommittedRoot'' (unpackCommittedRoot c result)))"

definition callEffectiveBalance :: "'w contractClient \<Rightarrow> bytes \<Rightarrow> ('w, bytes) op" where
  "callEffectiveBalance c data w =
     (case callViews c data w of
        (Inl err, w') \<Rightarrow>
          if IsContractRevert (txManagerOf c) err
          then (Inl (RevertError (ExtractRevertReason (txManagerOf c) err) True ''''), w')
          else (Inl (Wrap ''call getEffectiveBalance'' err), w')
      | (Inr x, w') \<Rightarrow> (Inr x, w'))"

definition GetClusterEffectiveBalance ::
    "'w contractClient \<Rightarrow> bytes \<Rightarrow> u64 list \<Rightarrow> cluster \<Rightarrow> ('w, u32) op" where
  "GetClusterEffectiveBalance c owner operatorIDs cl =
     bindS (abiResult ''pack getEffectiveBalance'' (packGetEffectiveBalance c owner operatorIDs cl)) (\<lambda>data.
     bindS (callEffectiveBalance c data) (\<lambda>result.
     abiResult ''unpack getEffectiveBalance'' (unpackEffectiveBalance c result)))"

definition UpdateClusterBalance ::
    "nat \<Rightarrow> 'w contractClient \<Rightarrow> u64 \<Rightarrow> bytes \<Rightarrow> u64 list \<Rightarrow> cluster \<Rightarrow> u32 \<Rightarrow> bytes list \<Rightarrow> 'w \<Rightarrow>
     (txResult \<times> 'w) option" where
  "UpdateClusterBalance fuel c blockNum owner operatorIds cl effectiveBalance merkleProof w =
     (case packUpdateClusterBalance c blockNum owner operatorIds cl effectiveBalance merkleProof of
        Inl msg \<Rightarrow> Some ((None, Some (Wrap ''pack updateClusterBalance'' (LibErr msg))), w)
      | Inr data \<Rightarrow> SendTransaction fuel (txManagerOf c)
          \<lparr>Opts_To = contractAddress c, Opts_Data = data, Opts_Value = None, Opts_GasLimit = 0,
           Opts_MEVProtected = True\<rparr> w)"

section \<open>RootCommitted events\<close>

record RootCommittedEvent =
  RC_MerkleRoot :: bytes
  RC_BlockNum :: u64
  RC_TxHash :: bytes

definition parseRootCommittedEvent :: "Log \<Rightarrow> goerror + RootCommittedEvent" where
  "parseRootCommittedEvent log =
     (case Log_Topics log of
        _ # t1 # t2 # _ \<Rightarrow>
          Inr \<lparr>RC_MerkleRoot = copyTo 32 t1, RC_BlockNum = bigUint64 t2, RC_TxHash = Log_TxHash log\<rparr>
      | ts \<Rightarrow> Inl (ErrNew (''invalid log: expected 3 topics, got '' @ dec (length ts))))"

text \<open>The loop of \<open>processRootCommittedLogs\<close> over the logs of the subscription, each with its
  \<open>Removed\<close> flag: the events it forwards.\<close>

fun processRootCommittedLogs :: "(bool \<times> Log) list \<Rightarrow> RootCommittedEvent list" where
  "processRootCommittedLogs [] = []"
| "processRootCommittedLogs ((removed, log) # logs) =
     (if removed then processRootCommittedLogs logs
      else case parseRootCommittedEvent log of
        Inl _ \<Rightarrow> processRootCommittedLogs logs
      | Inr ev \<Rightarrow> ev # processRootCommittedLogs logs)"

end
