(* ===== verification/Oracle.thy ===== *)
theory Oracle
  imports Contract Beacon Schedule Merkle
begin

text \<open>
  The oracle of \<^verbatim>\<open>oracle/oracle.go\<close>: aggregation of validator balances by cluster, the
  commit of one target, and the main loop over finalized checkpoints. Its state is the
  storage, the batch size of the execution client and the world.
\<close>

section \<open>Balances\<close>

definition gweiPerETH :: u64 where
  "gweiPerETH = 1000000000"

definition balanceFloor :: u64 where
  "balanceFloor = 32000000000"

text \<open>The loop of \<open>deduplicatePubkeys\<close>; \<open>seen\<close> holds the 48-byte keys.\<close>

fun dedupFrom :: "bytes list \<Rightarrow> ActiveValidator list \<Rightarrow> bytes list" where
  "dedupFrom seen [] = []"
| "dedupFrom seen (v # vs) =
     (let pk = copyTo 48 (AV_ValidatorPubkey v) in
      if pk \<in> set seen then dedupFrom seen vs
      else AV_ValidatorPubkey v # dedupFrom (pk # seen) vs)"

definition deduplicatePubkeys :: "ActiveValidator list \<Rightarrow> bytes list" where
  "deduplicatePubkeys vals = dedupFrom [] vals"

text \<open>A missing key reads as zero; every balance is raised to the floor.\<close>

definition flooredBalance :: "(bytes \<rightharpoonup> u64) \<Rightarrow> ActiveValidator \<Rightarrow> u64" where
  "flooredBalance balanceMap v =
     (let balance = (case balanceMap (copyTo 48 (AV_ValidatorPubkey v)) of None \<Rightarrow> 0 | Some b \<Rightarrow> b)
      in if balance < balanceFloor then balanceFloor else balance)"

text \<open>\<open>clusterTotals[id] += balance\<close> on the entries of the map.\<close>

fun addTotal :: "bytes \<Rightarrow> u64 \<Rightarrow> (bytes \<times> u64) list \<Rightarrow> (bytes \<times> u64) list" where
  "addTotal cid b [] = [(cid, b)]"
| "addTotal cid b ((k, t) # ts) = (if k = cid then (k, t + b) # ts else (k, t) # addTotal cid b ts)"

definition clusterTotals :: "(bytes \<rightharpoonup> u64) \<Rightarrow> ActiveValidator list \<Rightarrow> (bytes \<times> u64) list" where
  "clusterTotals balanceMap vals =
     foldl (\<lambda>ts v. addTotal (copyTo 32 (AV_ClusterID v)) (flooredBalance balanceMap v) ts) [] vals"

definition toClusterBalance :: "bytes \<times> u64 \<Rightarrow> ClusterBalance" where
  "toClusterBalance e =
     \<lparr>CB_ClusterID = fst e, CB_EffectiveBalance = ucast (snd e div gweiPerETH)\<rparr>"

text \<open>\<open>aggregateByCluster\<close>; \<open>order\<close> is the order in which \<open>range\<close> visits the map.\<close>

definition aggregateByCluster ::
    "((bytes \<times> u64) list \<Rightarrow> (bytes \<times> u64) list) \<Rightarrow> (bytes \<rightharpoonup> u64) \<Rightarrow> ActiveValidator list \<Rightarrow>
     ClusterBalance list \<times> nat" where
  "aggregateByCluster order balanceMap vals =
     (map toClusterBalance (order (clusterTotals balanceMap vals)),
      length (filter (\<lambda>v. balanceMap (copyTo 48 (AV_ValidatorPubkey v)) = None) vals))"

definition fetchBalances ::
    "((bytes \<times> u64) list \<Rightarrow> (bytes \<times> u64) list) \<Rightarrow> 'w beaconClient \<Rightarrow> ActiveValidator list \<Rightarrow>
     ('w, ClusterBalance list \<times> nat) op" where
  "fetchBalances order c vals =
     (if vals = [] then retS ([], 0)
      else bindS (wrapS ''fetch validator balances'' (GetValidatorBalances c (deduplicatePubkeys vals)))
        (\<lambda>balanceMap. retS (fst (aggregateByCluster order balanceMap vals), length vals)))"

text \<open>\<open>buildTree\<close> (the same function is in \<^verbatim>\<open>updater/updater.go\<close>): the entries of the map
  it fills, which \<open>NewTree\<close> visits in the order \<open>order\<close>.\<close>

fun setEntry :: "bytes \<Rightarrow> u32 \<Rightarrow> clusterMap \<Rightarrow> clusterMap" where
  "setEntry cid b [] = [(cid, b)]"
| "setEntry cid b ((k, x) # m) = (if k = cid then (k, b) # m else (k, x) # setEntry cid b m)"

definition balanceMapOf :: "ClusterBalance list \<Rightarrow> clusterMap" where
  "balanceMapOf balances =
     foldl (\<lambda>m bal. setEntry (copyTo 32 (CB_ClusterID bal)) (CB_EffectiveBalance bal) m) [] balances"

definition buildTree ::
    "keccak \<Rightarrow> packer \<Rightarrow> (clusterMap \<Rightarrow> clusterMap) \<Rightarrow> ClusterBalance list \<Rightarrow> tree option" where
  "buildTree kc pk order balances = NewTree kc pk (order (balanceMapOf balances))"

section \<open>Commit\<close>

record 'w Oracle =
  or_syncer :: "'w EventSyncer"
  or_beacon :: "'w beaconClient"
  or_contract :: "'w contractClient"
  or_schedule :: CommitSchedule
  or_pack :: packer
  or_totalsOrder :: "(bytes \<times> u64) list \<Rightarrow> (bytes \<times> u64) list"
  or_mapOrder :: "clusterMap \<Rightarrow> clusterMap"

type_synonym 'w oracleState = "store \<times> AdaptiveBatchSize \<times> 'w"

text \<open>
  The first half of \<open>commit\<close>: sync, read the validators, verify the finalized block, fetch
  the balances, build the tree and store the pending commit. It returns the root. \<open>None\<close> is
  a call that has not returned (or a panic in \<open>buildTree\<close>).
\<close>

definition prepareCommit ::
    "nat \<Rightarrow> 'w Oracle \<Rightarrow> FinalizedCheckpoint \<Rightarrow> u64 \<Rightarrow> 'w oracleState \<Rightarrow>
     ((goerror + bytes) \<times> 'w oracleState) option" where
  "prepareCommit fuel o1 cp target x =
     (case SyncToBlock fuel (or_syncer o1) (CP_BlockNum cp) x of
        None \<Rightarrow> None
      | Some (Inl e, x1) \<Rightarrow> Some (Inl (Wrap (''sync to block '' @ dec (unat (CP_BlockNum cp))) e), x1)
      | Some (Inr _, s1, bs, w1) \<Rightarrow>
          (case wrapS ''get active validators'' GetActiveValidators s1 of
             (Inl e, s2) \<Rightarrow> Some (Inl e, s2, bs, w1)
           | (Inr vals, s2) \<Rightarrow>
               (case wrapS ''verify finalized block''
                       (VerifyFinalizedBlockRoot (or_beacon o1) (CP_BlockRoot cp)) w1 of
                  (Inl e, w2) \<Rightarrow> Some (Inl e, s2, bs, w2)
                | (Inr _, w2) \<Rightarrow>
                    (case wrapS ''fetch balances''
                            (fetchBalances (or_totalsOrder o1) (or_beacon o1) vals) w2 of
                       (Inl e, w3) \<Rightarrow> Some (Inl e, s2, bs, w3)
                     | (Inr (clusterBalances, n), w3) \<Rightarrow>
                         (case buildTree (keccakOf (or_syncer o1)) (or_pack o1) (or_mapOrder o1) clusterBalances of
                            None \<Rightarrow> None
                          | Some t \<Rightarrow>
                              (case wrapS ''store pending commit''
                                  (InsertPendingCommit target (Tree_Root t) (CP_BlockNum cp) clusterBalances) s2 of
                                 (Inl e, s3) \<Rightarrow> Some (Inl e, s3, bs, w3)
                               | (Inr _, s3) \<Rightarrow> Some (Inr (Tree_Root t), s3, bs, w3)))))))"

definition handleCommitError ::
    "u64 \<Rightarrow> receipt option \<Rightarrow> goerror \<Rightarrow> store \<Rightarrow> goerror option \<times> store" where
  "handleCommitError target rcpt err s =
     (let (_, s') = UpdateCommitStatus target CommitStatusFailed (map_option Receipt_TxHash rcpt) s
      in (if IsRevertError err then None else Some (Wrap ''commit failed'' err), s'))"

definition zeroRoot :: bytes where
  "zeroRoot = replicate 32 0"

text \<open>The second half of \<open>commit\<close>: ask the contract for the committed root, and commit. A
  failed update of the status is only logged.\<close>

definition submitCommit ::
    "nat \<Rightarrow> 'w Oracle \<Rightarrow> FinalizedCheckpoint \<Rightarrow> u64 \<Rightarrow> bytes \<Rightarrow> 'w oracleState \<Rightarrow>
     (goerror option \<times> 'w oracleState) option" where
  "submitCommit fuel o1 cp target merkleRoot x =
     (case x of (s, bs, w) \<Rightarrow>
       let (known, w1) = GetCommittedRoot (or_contract o1) (CP_BlockNum cp) w in
       (case (case known of Inr r \<Rightarrow> if r \<noteq> zeroRoot then Some r else None | Inl _ \<Rightarrow> None) of
          Some r \<Rightarrow>
            let (_, s1) = UpdateCommitStatus target
                  (if r = merkleRoot then CommitStatusConfirmed else CommitStatusFailed) None s
            in Some (None, s1, bs, w1)
        | None \<Rightarrow>
            (case CommitRoot fuel (or_contract o1) merkleRoot (CP_BlockNum cp) w1 of
               None \<Rightarrow> None
             | Some ((rcpt, Some err), w2) \<Rightarrow>
                 let (r, s1) = handleCommitError target rcpt err s in Some (r, s1, bs, w2)
             | Some ((Some rcpt, None), w2) \<Rightarrow>
                 let (_, s1) = UpdateCommitStatus target CommitStatusConfirmed (Some (Receipt_TxHash rcpt)) s
                 in Some (None, s1, bs, w2)
             | Some ((None, None), w2) \<Rightarrow> None)))"

definition commit ::
    "nat \<Rightarrow> 'w Oracle \<Rightarrow> FinalizedCheckpoint \<Rightarrow> u64 \<Rightarrow> 'w oracleState \<Rightarrow>
     (goerror option \<times> 'w oracleState) option" where
  "commit fuel o1 cp target x =
     (case prepareCommit fuel o1 cp target x of
        None \<Rightarrow> None
      | Some (Inl e, x1) \<Rightarrow> Some (Some e, x1)
      | Some (Inr root, x1) \<Rightarrow> submitCommit fuel o1 cp target root x1)"

section \<open>The main loop\<close>

text \<open>One received checkpoint: the new target, the target for which \<open>commit\<close> ran (if any),
  and the state. A \<open>None\<close> of the schedule is a panic.\<close>

definition handleCheckpoint ::
    "nat \<Rightarrow> 'w Oracle \<Rightarrow> FinalizedCheckpoint \<Rightarrow> u64 \<Rightarrow> 'w oracleState \<Rightarrow>
     (u64 \<times> u64 option \<times> 'w oracleState) option" where
  "handleCheckpoint fuel o1 cp nextTarget x =
     (if CP_Epoch cp = 0 then Some (nextTarget, None, x)
      else let fullyFinalized = CP_Epoch cp - 1 in
        if fullyFinalized < nextTarget then Some (nextTarget, None, x)
        else if nextTarget < fullyFinalized
        then map_option (\<lambda>t. (t, None, x)) (NextTarget (or_schedule o1) fullyFinalized)
        else (case commit fuel o1 cp nextTarget x of
            None \<Rightarrow> None
          | Some (err, x1) \<Rightarrow>
              map_option (\<lambda>t. (t, Some nextTarget, x1)) (NextTarget (or_schedule o1) fullyFinalized)))"

text \<open>The loop of \<open>Run\<close> over the checkpoints it receives, until the channel is closed; it
  returns the checkpoints and targets for which it ran \<open>commit\<close>, in order.\<close>

fun runLoop ::
    "nat \<Rightarrow> 'w Oracle \<Rightarrow> FinalizedCheckpoint list \<Rightarrow> u64 \<Rightarrow> 'w oracleState \<Rightarrow>
     ((FinalizedCheckpoint \<times> u64) list \<times> 'w oracleState) option" where
  "runLoop fuel o1 [] nextTarget x = Some ([], x)"
| "runLoop fuel o1 (cp # cps) nextTarget x =
     (case handleCheckpoint fuel o1 cp nextTarget x of
        None \<Rightarrow> None
      | Some (t, tried, x1) \<Rightarrow>
          (case runLoop fuel o1 cps t x1 of
             None \<Rightarrow> None
           | Some (ts, x2) \<Rightarrow> Some ((case tried of None \<Rightarrow> ts | Some d \<Rightarrow> (cp, d) # ts), x2)))"

text \<open>\<open>Run\<close> after its subscription: the first target follows the last fully finalized epoch.
  When the channel is closed the context's error or an error of its own is returned.\<close>

definition Run ::
    "nat \<Rightarrow> 'w Oracle \<Rightarrow> FinalizedCheckpoint list \<Rightarrow> 'w oracleState \<Rightarrow>
     (goerror \<times> (FinalizedCheckpoint \<times> u64) list \<times> 'w oracleState) option" where
  "Run fuel o1 cps x =
     (case x of (s, bs, w) \<Rightarrow>
       (case wrapS ''get finalized epoch'' (GetFinalizedEpoch (or_beacon o1)) w of
          (Inl e, w1) \<Rightarrow> Some (e, [], s, bs, w1)
        | (Inr finalizedEpoch, w1) \<Rightarrow>
            if finalizedEpoch = 0
            then Some (ErrNew ''cannot start at genesis (epoch 0): no fully finalized epoch exists'', [], s, bs, w1)
            else (case NextTarget (or_schedule o1) (finalizedEpoch - 1) of
                None \<Rightarrow> None
              | Some t \<Rightarrow>
                  (case runLoop fuel o1 cps t (s, bs, w1) of
                     None \<Rightarrow> None
                   | Some (ts, s2, bs2, w2) \<Rightarrow>
                       Some (if ctxDone (beaconTimer (or_beacon o1)) w2 then CtxErr
                             else ErrNew ''finalized checkpoint subscription closed'', ts, s2, bs2, w2)))))"

section \<open>Lemmas on balances\<close>

text \<open>The specification: the balance of a validator in a beacon state, raised to 32 ETH, and
  the sum over the validators of a cluster, in gwei.\<close>

definition validatorGwei :: "(bytes \<rightharpoonup> u64) \<Rightarrow> ActiveValidator \<Rightarrow> nat" where
  "validatorGwei bal v =
     max 32000000000 (case bal (copyTo 48 (AV_ValidatorPubkey v)) of None \<Rightarrow> 0 | Some b \<Rightarrow> unat b)"

definition clusterOf :: "ActiveValidator \<Rightarrow> bytes" where
  "clusterOf v = copyTo 32 (AV_ClusterID v)"

definition clusterGwei :: "(bytes \<rightharpoonup> u64) \<Rightarrow> ActiveValidator list \<Rightarrow> bytes \<Rightarrow> nat" where
  "clusterGwei bal vals cid = sum_list (map (validatorGwei bal) (filter (\<lambda>v. clusterOf v = cid) vals))"

lemma flooredBalance_gwei: "unat (flooredBalance bal v) = validatorGwei bal v"
  by (auto simp: flooredBalance_def validatorGwei_def balanceFloor_def word_less_nat_alt max_def
      split: option.splits)

lemma dedupFrom_keys:
  "copyTo 48 ` set (dedupFrom seen vals) \<union> set seen =
   (copyTo 48 \<circ> AV_ValidatorPubkey) ` set vals \<union> set seen"
proof (induction vals arbitrary: seen)
  case (Cons v vals)
  then show ?case using Cons [of seen] Cons [of "copyTo 48 (AV_ValidatorPubkey v) # seen"]
    by (auto simp: Let_def)
qed simp

lemma deduplicatePubkeys_keys:
  "copyTo 48 ` set (deduplicatePubkeys vals) = (copyTo 48 \<circ> AV_ValidatorPubkey) ` set vals"
  using dedupFrom_keys [of "[]" vals] by (simp add: deduplicatePubkeys_def)

lemma dedupFrom_distinct:
  "distinct (map (copyTo 48) (dedupFrom seen vals)) \<and>
   copyTo 48 ` set (dedupFrom seen vals) \<inter> set seen = {}"
proof (induction vals arbitrary: seen)
  case (Cons v vals)
  then show ?case using Cons [of seen] Cons [of "copyTo 48 (AV_ValidatorPubkey v) # seen"]
    by (auto simp: Let_def)
qed simp

lemma fst_addTotal:
  "fst ` set (addTotal c b ts) = insert c (fst ` set ts)"
  by (induction c b ts rule: addTotal.induct) auto

lemma distinct_addTotal:
  "distinct (map fst ts) \<Longrightarrow> distinct (map fst (addTotal c b ts))"
proof (induction c b ts rule: addTotal.induct)
  case (2 c b k t ts)
  then show ?case using fst_addTotal [of c b ts] by auto
qed simp

lemma map_of_addTotal:
  "map_of (addTotal c b ts) =
     (map_of ts)(c \<mapsto> (case map_of ts c of None \<Rightarrow> b | Some t \<Rightarrow> t + b))"
  by (induction c b ts rule: addTotal.induct) auto

lemma clusterTotals_snoc:
  "clusterTotals bal (vals @ [v]) = addTotal (clusterOf v) (flooredBalance bal v) (clusterTotals bal vals)"
  by (simp add: clusterTotals_def clusterOf_def)

lemma clusterTotals_keys:
  "distinct (map fst (clusterTotals bal vals)) \<and> fst ` set (clusterTotals bal vals) = clusterOf ` set vals"
proof (induction vals rule: rev_induct)
  case Nil
  show ?case by (simp add: clusterTotals_def)
qed (simp add: clusterTotals_snoc fst_addTotal distinct_addTotal)

lemma clusterGwei_snoc:
  "clusterGwei bal (vals @ [v]) cid =
     clusterGwei bal vals cid + (if clusterOf v = cid then validatorGwei bal v else 0)"
  by (simp add: clusterGwei_def)

lemma clusterTotals_sum:
  assumes "clusterGwei bal vals cid < 2 ^ 64"
  shows "case map_of (clusterTotals bal vals) cid of
      None \<Rightarrow> clusterGwei bal vals cid = 0
    | Some t \<Rightarrow> unat t = clusterGwei bal vals cid"
  using assms
proof (induction vals rule: rev_induct)
  case Nil
  show ?case by (simp add: clusterTotals_def clusterGwei_def)
next
  case (snoc v vals)
  show ?case
  proof (cases "clusterOf v = cid")
    case False
    with snoc show ?thesis
      by (simp add: clusterTotals_snoc map_of_addTotal clusterGwei_snoc split: option.splits)
  next
    case True
    have small: "clusterGwei bal vals cid + unat (flooredBalance bal v) < 2 ^ 64"
      using snoc.prems True by (simp add: clusterGwei_snoc flooredBalance_gwei)
    then have IH: "case map_of (clusterTotals bal vals) cid of
        None \<Rightarrow> clusterGwei bal vals cid = 0 | Some t \<Rightarrow> unat t = clusterGwei bal vals cid"
      using snoc.IH by simp
    show ?thesis
      using True IH small
      by (cases "map_of (clusterTotals bal vals) cid")
         (simp_all add: clusterTotals_snoc map_of_addTotal clusterGwei_snoc flooredBalance_gwei unat_add_exact)
  qed
qed

lemma clusterTotals_exact:
  assumes "(cid, t) \<in> set (clusterTotals bal vals)" "clusterGwei bal vals cid < 2 ^ 64"
  shows "unat t = clusterGwei bal vals cid"
proof -
  have "map_of (clusterTotals bal vals) cid = Some t"
    using assms(1) clusterTotals_keys by (metis map_of_is_SomeI)
  then show ?thesis using clusterTotals_sum [OF assms(2)] by simp
qed

lemma toClusterBalance_exact:
  assumes "unat t = g" "g < 2 ^ 32 * 1000000000"
  shows "unat (CB_EffectiveBalance (toClusterBalance (cid, t))) = g div 1000000000"
proof -
  have "unat (t div gweiPerETH) = g div 1000000000"
    using assms(1) by (simp add: gweiPerETH_def unat_div)
  moreover have "g div 1000000000 < 2 ^ 32"
    using assms(2) by (simp add: less_mult_imp_div_less)
  ultimately show ?thesis by (simp add: toClusterBalance_def unsigned_ucast_eq take_bit_eq_mod)
qed

lemma clusterGwei_floor:
  "32000000000 * length (filter (\<lambda>v. clusterOf v = cid) vals) \<le> clusterGwei bal vals cid"
  by (induction vals) (auto simp: clusterGwei_def validatorGwei_def)

lemma clusterGwei_cong:
  "(\<And>v. v \<in> set vals \<Longrightarrow> bal (copyTo 48 (AV_ValidatorPubkey v)) = bal' (copyTo 48 (AV_ValidatorPubkey v))) \<Longrightarrow>
   clusterGwei bal vals cid = clusterGwei bal' vals cid"
  by (auto simp: clusterGwei_def validatorGwei_def intro!: arg_cong [where f = sum_list])

text \<open>What the oracle stores for a list of validators and a beacon state.\<close>

definition balancesExact :: "(bytes \<rightharpoonup> u64) \<Rightarrow> ActiveValidator list \<Rightarrow> ClusterBalance list \<Rightarrow> bool" where
  "balancesExact state vals bals \<longleftrightarrow>
     distinct (map CB_ClusterID bals) \<and> CB_ClusterID ` set bals = clusterOf ` set vals \<and>
     (\<forall>b \<in> set bals. unat (CB_EffectiveBalance b) = clusterGwei state vals (CB_ClusterID b) div 1000000000)"

lemma aggregateByCluster_exact:
  assumes "\<And>ts. mset (order ts) = mset ts" "\<And>cid. clusterGwei bal vals cid < 2 ^ 32 * 1000000000"
  shows "balancesExact bal vals (fst (aggregateByCluster order bal vals))"
proof -
  let ?ts = "clusterTotals bal vals"
  have fst: "CB_ClusterID \<circ> toClusterBalance = fst" by (auto simp: toClusterBalance_def)
  have "distinct (map fst (order ?ts))"
    using clusterTotals_keys assms(1) by (metis mset_map mset_eq_imp_distinct_iff)
  moreover have "set (order ?ts) = set ?ts" using assms(1) by (metis mset_eq_setD)
  moreover have "unat (CB_EffectiveBalance (toClusterBalance e)) = clusterGwei bal vals (fst e) div 1000000000"
    if "e \<in> set ?ts" for e
  proof -
    obtain cid t where e: "e = (cid, t)" by fastforce
    have "unat t = clusterGwei bal vals cid"
      by (rule clusterTotals_exact) (use that e assms(2) [of cid] in simp_all)
    then show ?thesis using toClusterBalance_exact [OF _ assms(2)] e by simp
  qed
  ultimately show ?thesis
    using clusterTotals_keys [of bal vals] fst
    by (auto simp: balancesExact_def aggregateByCluster_def image_image toClusterBalance_def image_iff)
qed

lemma fetchBalances_exact:
  assumes "answersFrom c state" "\<And>ts. mset (order ts) = mset ts"
    "\<And>cid. clusterGwei state vals cid < 2 ^ 32 * 1000000000"
    "fetchBalances order c vals w = (Inr (bals, n), w')"
  shows "balancesExact state vals bals \<and> n = length vals"
proof (cases "vals = []")
  case True
  then show ?thesis using assms(4) by (auto simp: fetchBalances_def retS_def balancesExact_def)
next
  case False
  then obtain bm w1 where g: "GetValidatorBalances c (deduplicatePubkeys vals) w = (Inr bm, w1)"
    and b: "bals = fst (aggregateByCluster order bm vals)" "n = length vals"
    using assms(4) by (auto simp: fetchBalances_def retS_def elim!: bindS_eq_InrE)
  have "bm (copyTo 48 (AV_ValidatorPubkey v)) = state (copyTo 48 (AV_ValidatorPubkey v))"
    if "v \<in> set vals" for v
    using GetValidatorBalances_answer [OF assms(1) g] that
    by (simp add: deduplicatePubkeys_keys image_iff) blast
  then have same: "clusterGwei bm vals cid = clusterGwei state vals cid" for cid
    by (rule clusterGwei_cong)
  have "balancesExact bm vals bals"
    unfolding b by (rule aggregateByCluster_exact) (use assms(2,3) same in simp_all)
  then show ?thesis using b same by (simp add: balancesExact_def)
qed

section \<open>Lemmas on the commit\<close>

text \<open>The active validators of a network state: those whose cluster has an active row.\<close>

definition activeOf :: "netState \<Rightarrow> (bytes \<times> bytes) set" where
  "activeOf n = {v \<in> snd n. \<exists>r. fst n (fst v) = Some r \<and> Row_IsActive r}"

abbreviation pairOf :: "ActiveValidator \<Rightarrow> bytes \<times> bytes" where
  "pairOf v \<equiv> (AV_ClusterID v, AV_ValidatorPubkey v)"

lemma GetActiveValidators_active:
  assumes "db_wf (tbl s)" "GetActiveValidators s = (Inr vals, s')"
  shows "distinct vals \<and> pairOf ` set vals = activeOf (netOf (tbl s)) \<and> tbl s' = tbl s"
proof -
  have d: "distinct (map cluster_id (clusters (tbl s)))" using assms(1) by (simp add: db_wf_def)
  have vals: "vals = map (\<lambda>v. \<lparr>AV_ClusterID = fst v, AV_ValidatorPubkey = snd v\<rparr>) (activeRows (tbl s))"
    and t: "tbl s' = tbl s" using GetActiveValidators_Inr [OF assms(2)] by simp_all
  have "map pairOf vals = activeRows (tbl s)" unfolding vals by (simp add: comp_def)
  then have "distinct (map pairOf vals)" "pairOf ` set vals = set (activeRows (tbl s))"
    using activeRows_props(1) [OF assms(1)] by (simp, metis set_map)
  moreover have "set (activeRows (tbl s)) = activeOf (netOf (tbl s))"
    using activeRows_props(3) [OF assms(1)] assms(1) findRow_Some_iff [OF d]
    by (auto simp: activeOf_def netOf_def scanClusterRow_def intToBool_def db_wf_def)
  ultimately show ?thesis using t by (simp add: distinct_map)
qed

lemma prepareCommit_Inr:
  assumes "prepareCommit fuel o1 cp target (s, bs, w) = Some (Inr root, s', bs', w')"
  obtains s1 w1 vals s2 w2 bals n t where
    "SyncToBlock fuel (or_syncer o1) (CP_BlockNum cp) (s, bs, w) = Some (Inr (), s1, bs', w1)"
    "GetActiveValidators s1 = (Inr vals, s2)"
    "VerifyFinalizedBlockRoot (or_beacon o1) (CP_BlockRoot cp) w1 = (Inr (), w2)"
    "fetchBalances (or_totalsOrder o1) (or_beacon o1) vals w2 = (Inr (bals, n), w')"
    "buildTree (keccakOf (or_syncer o1)) (or_pack o1) (or_mapOrder o1) bals = Some t"
    "InsertPendingCommit target root (CP_BlockNum cp) bals s2 = (Inr (), s')"
    "root = Tree_Root t"
  using assms unfolding prepareCommit_def
  by (auto simp: wrapS_def split: option.splits prod.splits sum.splits)

text \<open>The specification of the committed balances, over the network state: per cluster, the sum
  over its active validators.\<close>

definition netGwei :: "(bytes \<rightharpoonup> u64) \<Rightarrow> netState \<Rightarrow> bytes \<Rightarrow> nat" where
  "netGwei state n cid = (\<Sum>v \<in> {v \<in> activeOf n. copyTo 32 (fst v) = cid}.
     max 32000000000 (case state (copyTo 48 (snd v)) of None \<Rightarrow> 0 | Some b \<Rightarrow> unat b))"

lemma clusterGwei_net:
  assumes "distinct vals" "pairOf ` set vals = activeOf n"
  shows "clusterGwei state vals cid = netGwei state n cid"
proof -
  let ?vs = "filter (\<lambda>v. clusterOf v = cid) vals"
  have inj: "inj_on pairOf A" for A by (auto simp: inj_on_def)
  have "clusterGwei state vals cid = sum (validatorGwei state) (set ?vs)"
    using assms(1) by (simp add: clusterGwei_def sum_list_distinct_conv_sum_set)
  also have "\<dots> = sum (\<lambda>v. max 32000000000 (case state (copyTo 48 (snd v)) of None \<Rightarrow> 0 | Some b \<Rightarrow> unat b))
      (pairOf ` set ?vs)"
    by (simp add: sum.reindex [OF inj] validatorGwei_def)
  also have "pairOf ` set ?vs = {v \<in> activeOf n. copyTo 32 (fst v) = cid}"
    unfolding assms(2) [symmetric] by (auto simp: clusterOf_def)
  finally show ?thesis by (simp add: netGwei_def)
qed

text \<open>The map that \<open>buildTree\<close> fills: one entry per identifier.\<close>

lemma fst_setEntry: "fst ` set (setEntry c b m) = insert c (fst ` set m)"
  by (induction c b m rule: setEntry.induct) auto

lemma setEntry_fresh: "c \<notin> fst ` set m \<Longrightarrow> setEntry c b m = m @ [(c, b)]"
  by (induction c b m rule: setEntry.induct) auto

lemma wfClusters_setEntry:
  "length c = 32 \<Longrightarrow> wfClusters m \<Longrightarrow> wfClusters (setEntry c b m)"
proof (induction c b m rule: setEntry.induct)
  case (2 c b k x m)
  then show ?case using fst_setEntry [of c b m] by (auto simp: wfClusters_def)
qed (simp add: wfClusters_def)

lemma balanceMapOf_snoc:
  "balanceMapOf (bals @ [b]) = setEntry (copyTo 32 (CB_ClusterID b)) (CB_EffectiveBalance b) (balanceMapOf bals)"
  by (simp add: balanceMapOf_def)

lemma balanceMapOf_wf: "wfClusters (balanceMapOf bals)"
proof (induction bals rule: rev_induct)
  case Nil
  show ?case by (simp add: balanceMapOf_def wfClusters_def)
qed (simp add: balanceMapOf_snoc wfClusters_setEntry)

lemma balanceMapOf_exact:
  assumes "distinct (map CB_ClusterID bals)" "\<forall>b \<in> set bals. length (CB_ClusterID b) = 32"
  shows "balanceMapOf bals = map (\<lambda>b. (CB_ClusterID b, CB_EffectiveBalance b)) bals"
  using assms
proof (induction bals rule: rev_induct)
  case Nil
  show ?case by (simp add: balanceMapOf_def)
next
  case (snoc b bals)
  then show ?case by (simp add: balanceMapOf_snoc) (subst setEntry_fresh, auto)
qed

lemma setEntry_mem: "e \<in> set (setEntry cid b m) \<Longrightarrow> e = (cid, b) \<or> e \<in> set m"
  by (induction cid b m rule: setEntry.induct) (auto split: if_splits)

lemma balanceMapOf_mem:
  "(cid, eb) \<in> set (balanceMapOf bals) \<Longrightarrow>
   \<exists>b \<in> set bals. copyTo 32 (CB_ClusterID b) = cid \<and> CB_EffectiveBalance b = eb"
proof (induction bals rule: rev_induct)
  case (snoc b bals)
  then show ?case by (auto simp: balanceMapOf_snoc dest!: setEntry_mem)
qed (simp add: balanceMapOf_def)

text \<open>The leaves of the tree of a commit.\<close>

lemma buildTree_leaves:
  assumes "pack_ok pk" "\<And>m. mset (order m) = mset m" "buildTree kc pk order bals = Some t"
    "lf \<in> set (Leaves t)"
  shows "\<exists>b \<in> set bals. copyTo 32 (CB_ClusterID b) = Leaf_ClusterID lf \<and>
      CB_EffectiveBalance b = Leaf_EffectiveBalance lf \<and>
      (\<exists>p h. GetProof t (Leaf_ClusterID lf) = Some (Inr p) \<and>
        HashLeaf kc pk (Leaf_ClusterID lf) (Leaf_EffectiveBalance lf) = Some h \<and> verifyProof kc h p = Tree_Root t)"
proof -
  let ?m = "order (balanceMapOf bals)"
  have wf: "wfClusters ?m" using balanceMapOf_wf assms(2) wfClusters_perm by metis
  have t: "NewTree kc pk ?m = Some t" using assms(3) by (simp add: buildTree_def)
  obtain e where e: "e \<in> set ?m" "lf = leafOf kc pk e"
    using assms(4) NewTree_leaves [OF assms(1) wf t] by (auto simp: Leaves_def)
  have "(fst e, snd e) \<in> set (balanceMapOf bals)" using e(1) assms(2) by (metis mset_eq_setD prod.collapse)
  from balanceMapOf_mem [OF this] e(2) have "\<exists>b \<in> set bals. copyTo 32 (CB_ClusterID b) = Leaf_ClusterID lf \<and>
      CB_EffectiveBalance b = Leaf_EffectiveBalance lf" by simp
  moreover have "map_of ?m (fst e) = Some (snd e)" using wf e(1) by (simp add: wfClusters_def)
  from GetProof_complete [OF assms(1) wf t this] have "\<exists>p h. GetProof t (Leaf_ClusterID lf) = Some (Inr p) \<and>
        HashLeaf kc pk (Leaf_ClusterID lf) (Leaf_EffectiveBalance lf) = Some h \<and> verifyProof kc h p = Tree_Root t"
    using e(2) by simp
  ultimately show ?thesis by blast
qed

section \<open>Lemmas on the main loop\<close>

text \<open>The specification of the main loop: the checkpoints whose fully finalized epoch is the
  first target after the fully finalized epoch before them.\<close>

fun dueFrom :: "CommitSchedule \<Rightarrow> u64 \<Rightarrow> FinalizedCheckpoint list \<Rightarrow> (FinalizedCheckpoint \<times> u64) list" where
  "dueFrom s prev [] = []"
| "dueFrom s prev (cp # cps) =
     (let ff = CP_Epoch cp - 1 in
      if prev < ff \<and> NextTarget s prev = Some ff then (cp, ff) # dueFrom s ff cps else dueFrom s ff cps)"

text \<open>A target that is attempted is the next one, the loop's target always is a target, and it
  never goes back.\<close>

lemma handleCheckpoint_cases:
  assumes "handleCheckpoint fuel o1 cp t x = Some (t', tried, x')"
  obtains (early) "CP_Epoch cp = 0 \<or> CP_Epoch cp - 1 < t" "t' = t" "tried = None" "x' = x"
    | (missed) "CP_Epoch cp \<noteq> 0" "t < CP_Epoch cp - 1"
        "NextTarget (or_schedule o1) (CP_Epoch cp - 1) = Some t'" "tried = None" "x' = x"
    | (due) err where "CP_Epoch cp \<noteq> 0" "CP_Epoch cp - 1 = t" "commit fuel o1 cp t x = Some (err, x')"
        "NextTarget (or_schedule o1) (CP_Epoch cp - 1) = Some t'" "tried = Some t"
proof (cases "CP_Epoch cp = 0 \<or> CP_Epoch cp - 1 < t")
  case True
  then have "handleCheckpoint fuel o1 cp t x = Some (t, None, x)"
    by (rule disjE) (simp_all add: handleCheckpoint_def)
  with assms have "t' = t" "tried = None" "x' = x" by simp_all
  with True show thesis by (rule early)
next
  case False
  then have cp: "CP_Epoch cp \<noteq> 0" "\<not> CP_Epoch cp - 1 < t" by simp_all
  note run = assms [unfolded handleCheckpoint_def Let_def if_not_P [OF cp(1)] if_not_P [OF cp(2)]]
  show thesis
  proof (cases "t < CP_Epoch cp - 1")
    case True
    with run obtain u where "NextTarget (or_schedule o1) (CP_Epoch cp - 1) = Some u"
      "u = t'" "tried = None" "x' = x" by auto
    with missed [OF cp(1) True] show thesis by blast
  next
    case ge: False
    obtain err x1 where c: "commit fuel o1 cp t x = Some (err, x1)"
      using run [unfolded if_not_P [OF ge]] by (cases "commit fuel o1 cp t x") auto
    have "CP_Epoch cp - 1 = t" using ge cp(2) by simp
    with run [unfolded if_not_P [OF ge] c option.case prod.case] c show thesis
      by (intro due [OF cp(1), of err]) auto
  qed
qed

lemma handleCheckpoint_target:
  assumes "Validate (or_schedule o1) = None" "CP_Epoch cp \<noteq> 0 \<Longrightarrow> roomAt (or_schedule o1) (CP_Epoch cp - 1)"
    "isTarget (or_schedule o1) t" "handleCheckpoint fuel o1 cp t x = Some (t', tried, x')"
  shows "isTarget (or_schedule o1) t' \<and> t \<le> t' \<and>
    (\<forall>d. tried = Some d \<longrightarrow> d = t \<and> CP_Epoch cp \<noteq> 0 \<and> CP_Epoch cp - 1 = t \<and> t < t')"
  using assms(4)
proof (cases rule: handleCheckpoint_cases)
  case early
  with assms(3) show ?thesis by simp
next
  case missed
  with clock.next_target [OF assms(1) assms(2)] clock.next_later [OF assms(1) assms(2)] show ?thesis
    by (metis option.distinct(1) order.strict_implies_order order.strict_trans)
next
  case (due err)
  with clock.next_target [OF assms(1,2)] clock.next_later [OF assms(1,2)] show ?thesis
    by (metis option.inject order.strict_implies_order)
qed

lemma runLoop_targets:
  assumes "Validate (or_schedule o1) = None"
  shows "\<forall>cp \<in> set cps. CP_Epoch cp \<noteq> 0 \<longrightarrow> roomAt (or_schedule o1) (CP_Epoch cp - 1) \<Longrightarrow>
    isTarget (or_schedule o1) t \<Longrightarrow> runLoop fuel o1 cps t x = Some (ts, x') \<Longrightarrow>
    sorted_wrt (<) (map snd ts) \<and>
    (\<forall>(cp, d) \<in> set ts. cp \<in> set cps \<and> CP_Epoch cp = d + 1 \<and> isTarget (or_schedule o1) d \<and> t \<le> d)"
proof (induction cps arbitrary: t x ts)
  case (Cons cp cps)
  obtain t1 tried x1 us where h: "handleCheckpoint fuel o1 cp t x = Some (t1, tried, x1)"
    and r: "runLoop fuel o1 cps t1 x1 = Some (us, x')"
    and ts: "ts = (case tried of None \<Rightarrow> us | Some d \<Rightarrow> (cp, d) # us)"
    using Cons.prems(3) by (auto split: option.splits prod.splits)
  have t: "isTarget (or_schedule o1) t1" "t \<le> t1"
    "\<forall>d. tried = Some d \<longrightarrow> d = t \<and> CP_Epoch cp \<noteq> 0 \<and> CP_Epoch cp - 1 = t \<and> t < t1"
    using handleCheckpoint_target [OF assms _ Cons.prems(2) h] Cons.prems(1) by auto
  have IH: "sorted_wrt (<) (map snd us) \<and> (\<forall>(cp, d) \<in> set us. cp \<in> set cps \<and> CP_Epoch cp = d + 1 \<and>
      isTarget (or_schedule o1) d \<and> t1 \<le> d)"
    by (rule Cons.IH [OF _ t(1) r]) (use Cons.prems(1) in simp)
  show ?case
  proof (cases tried)
    case None
    with IH ts t show ?thesis by fastforce
  next
    case (Some d)
    then have "d = t" "CP_Epoch cp = d + 1" "t < t1" using t(3) by auto
    with IH ts t Some Cons.prems(2) show ?thesis by fastforce
  qed
qed simp

lemma runLoop_due:
  assumes "Validate (or_schedule o1) = None"
  shows "sorted (prev # map (\<lambda>cp. CP_Epoch cp - 1) cps) \<Longrightarrow> \<forall>cp \<in> set cps. CP_Epoch cp \<noteq> 0 \<Longrightarrow>
    \<forall>e \<in> set (prev # map (\<lambda>cp. CP_Epoch cp - 1) cps). roomAt (or_schedule o1) e \<Longrightarrow>
    NextTarget (or_schedule o1) prev = Some t \<Longrightarrow>
    runLoop fuel o1 cps t x = Some (ts, x') \<Longrightarrow> ts = dueFrom (or_schedule o1) prev cps"
proof (induction cps arbitrary: prev t x ts)
  case (Cons cp cps)
  let ?s = "or_schedule o1" and ?ff = "CP_Epoch cp - 1"
  obtain t1 tried x1 us where h: "handleCheckpoint fuel o1 cp t x = Some (t1, tried, x1)"
    and r: "runLoop fuel o1 cps t1 x1 = Some (us, x')"
    and ts: "ts = (case tried of None \<Rightarrow> us | Some d \<Rightarrow> (cp, d) # us)"
    using Cons.prems(5) by (auto split: option.splits prod.splits)
  have room: "roomAt ?s prev" "roomAt ?s ?ff" "prev \<le> ?ff" using Cons.prems by auto
  have later: "prev < t" using clock.next_later [OF assms room(1) Cons.prems(4)] .
  have t1: "NextTarget ?s ?ff = Some t1"
    using h
  proof (cases rule: handleCheckpoint_cases)
    case early
    then show ?thesis
      using clock.next_const_in_gap [OF assms room(1,2) Cons.prems(4) room(3)] Cons.prems(2) by auto
  qed simp_all
  have us: "us = dueFrom ?s ?ff cps" by (rule Cons.IH [OF _ _ _ t1 r]) (use Cons.prems in auto)
  have "tried = (if ?ff = t then Some t else None)"
    using h by (cases rule: handleCheckpoint_cases) (use Cons.prems(2) in auto)
  with ts us Cons.prems(4) later show ?case by (auto simp: Let_def)
qed simp

lemma UpdateCommitStatus_settles:
  assumes "commitOf s e = Some c" "status c = CommitStatusPending" "faults s = []"
  shows "commitOf (snd (UpdateCommitStatus e st h s)) e =
    Some (c\<lparr>status := st, tx_hash := (case h of None \<Rightarrow> tx_hash c | Some x \<Rightarrow> Some x)\<rparr>)"
proof -
  have "target_epoch c = e" using assms(1) by (auto simp: commitOf_def find_Some_iff)
  moreover have "fst (UpdateCommitStatus e st h s) = Inr ()"
    using assms(3) by (simp add: UpdateCommitStatus_def wrapS_def)
  ultimately show ?thesis using assms(1,2) by (simp add: UpdateCommitStatus_row setStatus_def)
qed

lemma prepareCommit_Inl:
  assumes "prepareCommit fuel o1 cp target (s, bs, w) = Some (Inl e, s', bs', w')"
  shows "commitOf s' = commitOf s"
proof -
  have v: "commitOf s2 = commitOf s1" if "GetActiveValidators s1 = (r, s2)" for r s1 s2
  proof -
    have "tbl (snd (GetActiveValidators s1)) = tbl s1" by (simp add: GetActiveValidators_def)
    with that show ?thesis by (auto simp: commitOf_def)
  qed
  have s: "commitOf s1 = commitOf s" if "SyncToBlock fuel (or_syncer o1) b (s, bs, w) = Some (r, s1, bs1, w1)" for b r s1 bs1 w1
    using SyncToBlock_commits [OF that] by (auto simp: commitOf_def)
  have i: "commitOf s2 = commitOf s1" if "InsertPendingCommit target root b bals s1 = (Inl er, s2)" for root b bals s1 er s2
    using log.insert_err [OF that] .
  from assms show ?thesis
    unfolding prepareCommit_def
    by (auto simp: wrapS_def split: option.splits prod.splits sum.splits dest!: v s i)
qed

lemma submitCommit_row:
  assumes "submitCommit fuel o1 cp target root (s, bs, w) = Some (err, s', bs', w')"
  shows "\<exists>st h. s' = snd (UpdateCommitStatus target st h s)"
  using assms unfolding submitCommit_def handleCommitError_def Let_def case_prod_beta
  by (auto split: option.splits sum.splits prod.splits if_splits)

lemma prepared_row:
  assumes "prepareCommit fuel o1 cp target (s, bs, w) = Some (Inr root, s', bs', w')" "commitOf s target = None"
  shows "\<exists>bals t. commitOf s' target = Some (pendingRow target root (CP_BlockNum cp) bals) \<and>
    buildTree (keccakOf (or_syncer o1)) (or_pack o1) (or_mapOrder o1) bals = Some t \<and> root = Tree_Root t"
proof -
  obtain s2 bals t where t: "buildTree (keccakOf (or_syncer o1)) (or_pack o1) (or_mapOrder o1) bals = Some t"
      "InsertPendingCommit target root (CP_BlockNum cp) bals s2 = (Inr (), s')" "root = Tree_Root t" "commitOf s2 target = None"
    using assms(1)
    by (rule prepareCommit_Inr) (use assms(2) SyncToBlock_commits GetActiveValidators_Inr in \<open>fastforce simp: commitOf_def\<close>)
  with log.insert_ok [OF t(2)] show ?thesis by auto
qed

text \<open>The row that \<open>commit\<close> leaves for a fresh target carries a root of its own balances.\<close>

lemma commit_row:
  assumes "commit fuel o1 cp target (s, bs, w) = Some (err, s', bs', w')" "commitOf s target = None"
    "commitOf s' target = Some row"
  shows "\<exists>t. buildTree (keccakOf (or_syncer o1)) (or_pack o1) (or_mapOrder o1)
      (Commit_ClusterBalances (scanCommit row)) = Some t \<and> Tree_Root t = Commit_MerkleRoot (scanCommit row)"
proof -
  obtain r s1 bs1 w1 where p: "prepareCommit fuel o1 cp target (s, bs, w) = Some (r, s1, bs1, w1)"
    using assms(1) by (auto simp: commit_def split: option.splits)
  obtain root where r: "r = Inr root"
    using p assms prepareCommit_Inl [of fuel o1 cp target s bs w] by (cases r) (auto simp: commit_def)
  obtain bals t where t: "commitOf s1 target = Some (pendingRow target root (CP_BlockNum cp) bals)"
      "buildTree (keccakOf (or_syncer o1)) (or_pack o1) (or_mapOrder o1) bals = Some t" "root = Tree_Root t"
    using prepared_row [OF p [unfolded r] assms(2)] by blast
  obtain st h where "s' = snd (UpdateCommitStatus target st h s1)"
    using submitCommit_row assms(1) p r by (fastforce simp: commit_def)
  with t have "merkle_root row = root" "cluster_balances row = Some bals"
    using assms(3) by (auto simp: UpdateCommitStatus_row pendingRow_def split: if_splits)
  with t show ?thesis by (simp add: scanCommit_def)
qed

lemma balanceMapOf_keys: "fst ` set (balanceMapOf bals) = (\<lambda>b. copyTo 32 (CB_ClusterID b)) ` set bals"
proof (induction bals rule: rev_induct)
  case (snoc b bals)
  then show ?case by (simp add: balanceMapOf_snoc fst_setEntry)
qed (simp add: balanceMapOf_def)

section \<open>Samples\<close>

text \<open>A manager whose transactions are mined at once, and an oracle over the sample chain.\<close>

definition quickManager :: "nat TxManager" where
  "quickManager = \<lparr>policy = samplePolicy, signerAddress = [9],
     signTx = (\<lambda>tx. retS \<lparr>Signed_Tx = tx, Signed_Hash = [1]\<rparr>),
     callEstimateGas = (\<lambda>_. retS 50000), callSuggestGasTipCap = retS 1, callBaseFee = retS (7 * gweiWei),
     callPendingNonceAt = (\<lambda>_. retS 3), callSendTransaction = (\<lambda>tx. retS ()),
     callTransactionReceipt = (\<lambda>h. retS \<lparr>Receipt_Status = 1, Receipt_TxHash = h, Receipt_BlockNumber = 6\<rparr>),
     callBlockNumber = retS 5, callContractAt = (\<lambda>_ _. retS []), mevClients = [], clock = sampleTimer,
     revertErrorData = (\<lambda>_. None), unpackRevert = (\<lambda>_. None), errorSelectors = Map.empty\<rparr>"

definition sampleContract :: "nat contractClient" where
  "sampleContract = \<lparr>contractAddress = [5], txManagerOf = quickManager, callViews = (\<lambda>_. retS zeroRoot),
     packCommitRoot = (\<lambda>r b. Inr r), packGetCommittedRoot = (\<lambda>b. Inr []),
     unpackCommittedRoot = Inr, packGetEffectiveBalance = (\<lambda>_ _ _. Inr []),
     unpackEffectiveBalance = (\<lambda>_. Inr 0), packUpdateClusterBalance = (\<lambda>_ _ _ _ _ _. Inr [])\<rparr>"

definition sampleOracle :: "nat Oracle" where
  "sampleOracle = \<lparr>or_syncer = toySyncer, or_beacon = sampleBeacon, or_contract = sampleContract,
     or_schedule = sampleSchedule, or_pack = samplePack, or_totalsOrder = (\<lambda>ts. ts), or_mapOrder = (\<lambda>m. m)\<rparr>"

definition sampleCheckpoint :: FinalizedCheckpoint where
  "sampleCheckpoint = \<lparr>CP_Epoch = 151, CP_BlockNum = 5, CP_BlockRoot = [7]\<rparr>"

section \<open>Properties\<close>

lemma unat_minus_one_exact: "0 < a \<Longrightarrow> unat (a - 1) = unat (a :: u64) - 1"
  by (simp add: unat_minus_one word_gt_0)

lemma roomAt_pred: "0 < e \<Longrightarrow> roomAt s e \<Longrightarrow> roomAt s (e - 1)"
  by (fastforce simp: roomAt_def unat_minus_one_exact)

text \<open>C10: whatever finalized checkpoints arrive, of epoch 0 too, in whatever order, and whatever
  becomes of the commits, the targets for which \<open>Run\<close> tries to commit strictly increase, every one of them is
  a target of the schedule, and it is tried with a checkpoint under which it is the last fully
  finalized epoch. No target is tried twice, and on a chain whose finalized epoch is 0 nothing is tried. All that is asked
  of the epochs is a bound below which one more interval of the schedule fits into 64 bits.\<close>

theorem run_targets:
  assumes "Validate (or_schedule o1) = None" "\<forall>e. e \<le> maxEpoch \<longrightarrow> roomAt (or_schedule o1) e"
    "\<forall>cp \<in> set cps. CP_Epoch cp \<le> maxEpoch"
    "\<And>w e w'. GetFinalizedEpoch (or_beacon o1) w = (Inr e, w') \<Longrightarrow> e \<le> maxEpoch"
    "Run fuel o1 cps x = Some (err, ts, x')"
  shows "sorted_wrt (<) (map snd ts) \<and>
    (\<forall>(cp, d) \<in> set ts. cp \<in> set cps \<and> CP_Epoch cp = d + 1 \<and> isTarget (or_schedule o1) d) \<and>
    ((\<exists>w'. GetFinalizedEpoch (or_beacon o1) (snd (snd x)) = (Inr 0, w')) \<longrightarrow> ts = [])"
proof (cases "ts = []")
  case False
  obtain s bs w where x: "x = (s, bs, w)" by (cases x)
  from assms(5) False obtain e w1 t s2 bs2 w2 where
    e: "GetFinalizedEpoch (or_beacon o1) w = (Inr e, w1)" "e \<noteq> 0"
    and t: "NextTarget (or_schedule o1) (e - 1) = Some t"
    and r: "runLoop fuel o1 cps t (s, bs, w1) = Some (ts, s2, bs2, w2)"
    unfolding Run_def x wrapS_def by (auto split: prod.splits sum.splits option.splits if_splits)
  have room: "roomAt (or_schedule o1) (f - 1)" if "f \<noteq> 0" "f \<le> maxEpoch" for f
    using that assms(2) by (intro roomAt_pred) (auto simp: word_gt_0)
  have "isTarget (or_schedule o1) t" using clock.next_target [OF assms(1) _ t] room assms(4) e by blast
  from runLoop_targets [OF assms(1) _ this r] room assms(3) e x show ?thesis by auto
qed simp

lemma sampleOracle_facts:
  "Validate (or_schedule sampleOracle) = None" "e \<le> 1000 \<Longrightarrow> roomAt sampleSchedule e"
  "GetFinalizedEpoch (or_beacon sampleOracle) w = (Inr 9, w)" "or_schedule sampleOracle = sampleSchedule"
proof -
  show "Validate (or_schedule sampleOracle) = None" unfolding sampleOracle_def by code_simp
  show "e \<le> 1000 \<Longrightarrow> roomAt sampleSchedule e"
    by (simp add: roomAt_def sampleSchedule_def word_le_nat_alt)
  show "GetFinalizedEpoch (or_beacon sampleOracle) w = (Inr 9, w)"
    by (simp add: GetFinalizedEpoch_def beaconCall_def WithRetry_ok sampleOracle_def sampleBeacon_def wrapS_def retS_def)
  show "or_schedule sampleOracle = sampleSchedule" by (simp add: sampleOracle_def)
qed

text \<open>A database that fails: the commit of target 130 is tried and gives up.\<close>

lemma sampleOracle_fails:
  "\<exists>err x'. commit fuel sampleOracle cp t (toyStore\<lparr>faults := [Some CtxErr]\<rparr>, bs, w) = Some (err, x')"
  by (simp add: commit_def prepareCommit_def SyncToBlock_def GetLastSyncedBlock_def wrapS_def query_def stmt_def)

definition sampleCheckpoints :: "FinalizedCheckpoint list" where
  "sampleCheckpoints = map (\<lambda>e. \<lparr>CP_Epoch = e, CP_BlockNum = 5, CP_BlockRoot = [7]\<rparr>) [50, 121, 131]"

lemma sampleOracle_next:
  "NextTarget sampleSchedule 8 = Some 100" "NextTarget sampleSchedule 120 = Some 130"
  "NextTarget sampleSchedule 130 = Some 140" "NextTarget sampleSchedule 49 = Some 100"
  by code_simp+

lemma sampleRun:
  "\<exists>err x'. Run (Suc 0) sampleOracle sampleCheckpoints
     (toyStore\<lparr>faults := [Some CtxErr]\<rparr>, NewAdaptiveBatchSize 2 2, 0) =
     Some (err, [(\<lparr>CP_Epoch = 131, CP_BlockNum = 5, CP_BlockRoot = [7]\<rparr>, 130)], x')"
proof -
  let ?cp = "\<lambda>e. \<lparr>CP_Epoch = e, CP_BlockNum = 5, CP_BlockRoot = [7]\<rparr>"
  let ?x = "(toyStore\<lparr>faults := [Some CtxErr]\<rparr>, NewAdaptiveBatchSize 2 2, 0)"
  obtain err x1 where c: "commit (Suc 0) sampleOracle (?cp 131) 130 ?x = Some (err, x1)"
    using sampleOracle_fails by blast
  have h: "handleCheckpoint (Suc 0) sampleOracle (?cp 50) 100 ?x = Some (100, None, ?x)"
    "handleCheckpoint (Suc 0) sampleOracle (?cp 121) 100 ?x = Some (130, None, ?x)"
    "handleCheckpoint (Suc 0) sampleOracle (?cp 131) 130 ?x = Some (140, Some 130, x1)"
    by (simp_all add: handleCheckpoint_def sampleOracle_facts sampleOracle_next c)
  obtain s1 bs1 w1 where x1: "x1 = (s1, bs1, w1)" by (cases x1)
  then have r: "runLoop (Suc 0) sampleOracle sampleCheckpoints 100 ?x = Some ([(?cp 131, 130)], s1, bs1, w1)"
    by (simp add: sampleCheckpoints_def h)
  show ?thesis by (simp add: Run_def wrapS_def sampleOracle_facts sampleOracle_next r)
qed

lemma sampleRun_early:
  "Run (Suc 0) sampleOracle (\<lparr>CP_Epoch = 0, CP_BlockNum = 5, CP_BlockRoot = [7]\<rparr> # sampleCheckpoints) x =
   Run (Suc 0) sampleOracle sampleCheckpoints x"
proof -
  have "runLoop (Suc 0) sampleOracle (\<lparr>CP_Epoch = 0, CP_BlockNum = 5, CP_BlockRoot = [7]\<rparr> # cps) t y =
      runLoop (Suc 0) sampleOracle cps t y" for cps t y
    by (cases "runLoop (Suc 0) sampleOracle cps t y") (auto simp: handleCheckpoint_def)
  then show ?thesis by (simp only: Run_def)
qed

theorem run_targets_witness:
  "\<exists>err ts x'. Run (Suc 0) sampleOracle (\<lparr>CP_Epoch = 0, CP_BlockNum = 5, CP_BlockRoot = [7]\<rparr> # sampleCheckpoints)
     (toyStore\<lparr>faults := [Some CtxErr]\<rparr>, NewAdaptiveBatchSize 2 2, 0) = Some (err, ts, x') \<and>
     length ts = 1 \<and> list_all (\<lambda>(cp, d). isTarget sampleSchedule d) ts"
proof -
  obtain err x' where r: "Run (Suc 0) sampleOracle (\<lparr>CP_Epoch = 0, CP_BlockNum = 5, CP_BlockRoot = [7]\<rparr> # sampleCheckpoints)
      (toyStore\<lparr>faults := [Some CtxErr]\<rparr>, NewAdaptiveBatchSize 2 2, 0) =
      Some (err, [(\<lparr>CP_Epoch = 131, CP_BlockNum = 5, CP_BlockRoot = [7]\<rparr>, 130)], x')"
    using sampleRun unfolding sampleRun_early by blast
  have "isTarget sampleSchedule 130"
    using run_targets [OF sampleOracle_facts(1), where maxEpoch = 1000, OF _ _ _ r]
    by (auto simp: sampleOracle_facts sampleCheckpoints_def)
  then show ?thesis by (intro exI conjI) (rule r, simp_all)
qed

lemma sorted_map_pred:
  assumes "sorted xs" "\<And>x. x \<in> set xs \<Longrightarrow> 0 < (x :: u64)"
  shows "sorted (map (\<lambda>x. x - 1) xs)"
proof -
  have "a - 1 \<le> b - 1" if "a \<le> b" "0 < a" "0 < b" for a b :: u64
    using that by (simp add: word_le_nat_alt unat_minus_one_exact)
  then show ?thesis
    using assms by (auto simp: sorted_map intro!: sorted_wrt_mono_rel [OF _ assms(1)])
qed

text \<open>C11: while the finalized epochs only grow, \<open>Run\<close> tries exactly the checkpoints that are
  due: those under which the last fully finalized epoch is the first target after the fully
  finalized epoch known before. In particular every target whose checkpoint directly follows
  an epoch at or after the previous target is tried, whether or not earlier commits failed; a
  target is passed over only if the finalized epoch jumped over another target before it.\<close>

theorem run_commits_due:
  assumes "Validate (or_schedule o1) = None"
    "GetFinalizedEpoch (or_beacon o1) w = (Inr e, w1)" "e \<noteq> 0"
    "sorted (e # map CP_Epoch cps)" "\<forall>f \<in> set (e # map CP_Epoch cps). roomAt (or_schedule o1) f"
    "Run fuel o1 cps (s, bs, w) = Some (err, ts, x')"
  shows "ts = dueFrom (or_schedule o1) (e - 1) cps"
proof -
  obtain t s2 bs2 w2 where t: "NextTarget (or_schedule o1) (e - 1) = Some t"
    and r: "runLoop fuel o1 cps t (s, bs, w1) = Some (ts, s2, bs2, w2)"
    using assms(2,3,6) unfolding Run_def wrapS_def
    by (auto split: option.splits)
  have pos: "0 < f" if "f \<in> set (e # map CP_Epoch cps)" for f
    using that assms(3,4) word_gt_0 by (auto intro: order.strict_trans2)
  have "sorted ((e - 1) # map (\<lambda>cp. CP_Epoch cp - 1) cps)"
    using sorted_map_pred [OF assms(4) pos] by (simp add: comp_def)
  moreover have "roomAt (or_schedule o1) (f - 1)" if "f \<in> set (e # map CP_Epoch cps)" for f
    by (rule roomAt_pred) (use assms(5) that pos [OF that] in auto)
  moreover have "CP_Epoch cp \<noteq> 0" if "cp \<in> set cps" for cp using pos [of "CP_Epoch cp"] that by auto
  ultimately show ?thesis by (intro runLoop_due [OF assms(1) _ _ _ t r]) auto
qed

theorem run_commits_due_witness:
  "\<exists>err ts x'. Run (Suc 0) sampleOracle sampleCheckpoints
     (toyStore\<lparr>faults := [Some CtxErr]\<rparr>, NewAdaptiveBatchSize 2 2, 0) = Some (err, ts, x') \<and>
     ts = dueFrom sampleSchedule 8 sampleCheckpoints"
proof -
  obtain err x' where r: "Run (Suc 0) sampleOracle sampleCheckpoints
      (toyStore\<lparr>faults := [Some CtxErr]\<rparr>, NewAdaptiveBatchSize 2 2, 0) =
      Some (err, [(\<lparr>CP_Epoch = 131, CP_BlockNum = 5, CP_BlockRoot = [7]\<rparr>, 130)], x')"
    using sampleRun by blast
  have due: "[(\<lparr>CP_Epoch = 131, CP_BlockNum = 5, CP_BlockRoot = [7]\<rparr>, 130)] =
      dueFrom (or_schedule sampleOracle) (9 - 1) sampleCheckpoints"
    by (rule run_commits_due [OF sampleOracle_facts(1,3) _ _ _ r])
       (auto simp: sampleCheckpoints_def sampleOracle_facts)
  show ?thesis by (intro exI conjI) (rule r, use due in \<open>simp add: sampleOracle_facts\<close>)
qed

text \<open>C12: the pending commit is settled truthfully. Unless the storage fails, the second half of
  \<open>commit\<close> leaves the row of its target confirmed or failed and otherwise as it was inserted;
  it is confirmed exactly if the contract already holds this very root for the block, or holds
  none (or could not be asked) and the transaction was mined successfully; and an error is
  returned only with a failed row.\<close>

theorem submit_settles:
  assumes "commitOf s target = Some (pendingRow target root block bals)" "faults s = []"
    "GetCommittedRoot (or_contract o1) (CP_BlockNum cp) w = (known, w1)"
    "submitCommit fuel o1 cp target root (s, bs, w) = Some (err, s', bs', w')"
  shows "\<exists>st h. commitOf s' target = Some ((pendingRow target root block bals)\<lparr>status := st, tx_hash := h\<rparr>) \<and>
    st \<noteq> CommitStatusPending \<and>
    (st = CommitStatusConfirmed \<longleftrightarrow>
       (if \<exists>r. known = Inr r \<and> r \<noteq> zeroRoot then known = Inr root
        else \<exists>rcpt. CommitRoot fuel (or_contract o1) root (CP_BlockNum cp) w1 = Some ((Some rcpt, None), w'))) \<and>
    (err \<noteq> None \<longrightarrow> st = CommitStatusFailed)"
proof -
  have row: "commitOf (snd (UpdateCommitStatus target st h s)) target =
      Some ((pendingRow target root block bals)\<lparr>status := st, tx_hash := h\<rparr>)" for st h
    using UpdateCommitStatus_settles [OF assms(1) _ assms(2)]
    by (simp add: pendingRow_def split: option.splits)
  show ?thesis
  proof (cases "\<exists>r. known = Inr r \<and> r \<noteq> zeroRoot")
    case True
    then obtain r where r: "known = Inr r" "r \<noteq> zeroRoot" by blast
    with assms(3,4) have "err = None" "s' = snd (UpdateCommitStatus target
        (if r = root then CommitStatusConfirmed else CommitStatusFailed) None s)"
      by (auto simp: submitCommit_def split: prod.splits)
    with r row show ?thesis by (cases "r = root") auto
  next
    case False
    then have none: "(case known of Inr r \<Rightarrow> if r \<noteq> zeroRoot then Some r else None | Inl _ \<Rightarrow> None) = None"
      by (auto split: sum.splits)
    obtain rc e w2 where c: "CommitRoot fuel (or_contract o1) root (CP_BlockNum cp) w1 = Some ((rc, e), w2)"
      using assms(3,4) none by (auto simp: submitCommit_def split: option.splits prod.splits)
    show ?thesis
    proof (cases e)
      case None
      then obtain rcpt where rc: "rc = Some rcpt" "err = None" "w' = w2"
        "s' = snd (UpdateCommitStatus target CommitStatusConfirmed (Some (Receipt_TxHash rcpt)) s)"
        using assms(3,4) none c by (auto simp: submitCommit_def split: option.splits prod.splits)
      with row c None False show ?thesis by auto
    next
      case (Some e')
      then have "s' = snd (UpdateCommitStatus target CommitStatusFailed (map_option Receipt_TxHash rc) s)"
        using assms(3,4) none c
        by (auto simp: submitCommit_def handleCommitError_def split: option.splits prod.splits)
      with row c Some False show ?thesis by auto
    qed
  qed
qed

theorem submit_settles_witness:
  "\<exists>s' bs' w' st h. submitCommit 1 sampleOracle sampleCheckpoint 150 [3]
     (snd (InsertPendingCommit 150 [3] 5 [] toyStore), NewAdaptiveBatchSize 2 2, 0) = Some (None, s', bs', w') \<and>
     commitOf s' 150 = Some ((pendingRow 150 [3] 5 [])\<lparr>status := CommitStatusConfirmed, tx_hash := h\<rparr>)"
proof -
  let ?s = "snd (InsertPendingCommit 150 [3] 5 [] toyStore)"
  have c: "commitOf ?s 150 = Some (pendingRow 150 [3] 5 [])" "faults ?s = []"
    by (simp_all add: InsertPendingCommit_row)
       (simp_all add: InsertPendingCommit_def toyStore_def stmt_def insertCommitTbl_def emptyTables_def
         commitOf_def wrapS_def)
  have k: "GetCommittedRoot (or_contract sampleOracle) (CP_BlockNum sampleCheckpoint) 0 = (Inr zeroRoot, 0)"
    by (simp add: GetCommittedRoot_def abiResult_def opS_simps sampleOracle_def sampleContract_def)
  obtain rcpt where r: "CommitRoot 1 (or_contract sampleOracle) [3] (CP_BlockNum sampleCheckpoint) 0 =
      Some ((Some rcpt, None), 0)"
    by (simp add: CommitRoot_def SendTransaction_def estimateGas_def quickManager_def sampleOracle_def
      sampleContract_def opS_simps suggestGasFees_def samplePolicy_def minTipCap_def gweiWei_def
      MaxFeePerGasWei_def capFees_def buildAndSignTx_def sendWait_def waitForReceipt_def handleReceipt_def
      sampleTimer_def)
  obtain u s' where u: "UpdateCommitStatus 150 CommitStatusConfirmed (Some (Receipt_TxHash rcpt)) ?s = (u, s')"
    by fastforce
  have s: "submitCommit 1 sampleOracle sampleCheckpoint 150 [3] (?s, NewAdaptiveBatchSize 2 2, 0) =
      Some (None, s', NewAdaptiveBatchSize 2 2, 0)"
    using k r u by (simp add: submitCommit_def)
  from submit_settles [OF c k s] r s show ?thesis by auto
qed

text \<open>C5: the stored commit is exactly what the chain and the beacon state say. If the execution
  node answers truthfully about a chain, the beacon node answers from one state and keeps one
  finalized block, the first half of \<open>commit\<close> for a fresh target succeeds only if the
  checkpoint's block is that finalized block, and then the pending row of the target holds the
  root of the tree over balances that list every cluster with an active validator after the
  checkpoint's block exactly once, with the sum over its active validators of the effective
  balance, raised to 32 ETH for each, in whole ETH.\<close>

theorem prepared_commit_exact:
  assumes "honestNode (or_syncer o1) chain" "answersFrom (or_beacon o1) state"
    "\<And>w r w'. apiFinalizedHeaderRoot (or_beacon o1) w = (Inr r, w') \<Longrightarrow> r = finalizedRoot"
    "\<And>ts. mset (or_totalsOrder o1 ts) = mset ts"
    "db_wf (tbl s)" "batch_ok bs" "unat (CP_BlockNum cp) + unat (maxSize bs) < 2 ^ 64"
    "last_synced_block (tbl s) < CP_BlockNum cp" "commitOf s target = None"
    "n = replay (keccakOf (or_syncer o1)) (abiOf (or_syncer o1))
       (logsIn chain (unat (last_synced_block (tbl s)) + 1) (unat (CP_BlockNum cp) + 1)) (netOf (tbl s))"
    "\<And>cid. netGwei state n cid < 2 ^ 32 * 1000000000"
    "prepareCommit fuel o1 cp target (s, bs, w) = Some (Inr root, s', bs', w')"
  shows "CP_BlockRoot cp = finalizedRoot \<and> (\<exists>bals t.
    commitOf s' target = Some (pendingRow target root (CP_BlockNum cp) bals) \<and>
    buildTree (keccakOf (or_syncer o1)) (or_pack o1) (or_mapOrder o1) bals = Some t \<and> root = Tree_Root t \<and>
    distinct (map CB_ClusterID bals) \<and> CB_ClusterID ` set bals = (\<lambda>v. copyTo 32 (fst v)) ` activeOf n \<and>
    (\<forall>b \<in> set bals. unat (CB_EffectiveBalance b) = netGwei state n (CB_ClusterID b) div 1000000000))"
proof -
  obtain s1 w1 vals s2 w2 bals m t where
    sync: "SyncToBlock fuel (or_syncer o1) (CP_BlockNum cp) (s, bs, w) = Some (Inr (), s1, bs', w1)"
    and act: "GetActiveValidators s1 = (Inr vals, s2)"
    and ver: "VerifyFinalizedBlockRoot (or_beacon o1) (CP_BlockRoot cp) w1 = (Inr (), w2)"
    and bal: "fetchBalances (or_totalsOrder o1) (or_beacon o1) vals w2 = (Inr (bals, m), w')"
    and tree: "buildTree (keccakOf (or_syncer o1)) (or_pack o1) (or_mapOrder o1) bals = Some t"
    and ins: "InsertPendingCommit target root (CP_BlockNum cp) bals s2 = (Inr (), s')" and root: "root = Tree_Root t"
    using assms(12) by (rule prepareCommit_Inr)
  have n: "netOf (tbl s1) = n"
    using SyncToBlock_exact [OF sync assms(8,1,6,7)] assms(10) by simp
  have vals: "distinct vals" "pairOf ` set vals = activeOf n" "tbl s2 = tbl s1"
    using GetActiveValidators_active [OF SyncToBlock_wf [OF sync assms(5)] act] n by simp_all
  have gwei: "clusterGwei state vals cid = netGwei state n cid" for cid
    by (rule clusterGwei_net [OF vals(1,2)])
  have "balancesExact state vals bals"
    using fetchBalances_exact [OF assms(2,4) _ bal] assms(11) gwei by simp
  moreover have "clusterOf ` set vals = (\<lambda>v. copyTo 32 (fst v)) ` activeOf n"
    unfolding vals(2) [symmetric] image_image clusterOf_def by simp
  moreover have "commitOf s2 target = None"
    using assms(9) SyncToBlock_commits [OF sync] vals(3) by (simp add: commitOf_def)
  then have "commitOf s' target = Some (pendingRow target root (CP_BlockNum cp) bals)"
    using InsertPendingCommit_row [of target root "CP_BlockNum cp" bals s2 target] ins by simp
  moreover have "CP_BlockRoot cp = finalizedRoot"
    using VerifyFinalizedBlockRoot_Inr [OF ver assms(3)] by simp
  ultimately show ?thesis using tree root gwei by (auto simp: balancesExact_def)
qed

text \<open>After the sample chain there is one validator.\<close>

lemma toy_net:
  "snd (replay toyHash toyAbi (logsIn [toyLog] (unat (4::u64) + 1) (unat (5::u64) + 1)) (netOf (tbl toyStore))) =
     {(toyID, replicate 48 9)}"
proof -
  have "logsIn [toyLog] (unat (4::u64) + 1) (unat (5::u64) + 1) = [toyLog]"
    by (simp add: logsIn_def toyLog_def sampleLog_def)
  then show ?thesis
    by (simp add: replay_def applyLog_def eventOf_def toy_parse eventRow_def rowOfEvent_def toyID_def Let_def
        netOf_def toyStore_def emptyTables_def)
qed

lemma netGwei_one:
  assumes "snd n = {v}" "\<And>k b. state k = Some b \<Longrightarrow> unat b \<le> 2048000000000"
  shows "netGwei state n cid \<le> 2048000000000"
proof -
  let ?S = "{u \<in> activeOf n. copyTo 32 (fst u) = cid}"
  have "?S \<subseteq> {v}" using assms(1) by (auto simp: activeOf_def)
  then consider "?S = {}" | "?S = {v}" by blast
  then show ?thesis
  proof cases
    case 1
    show ?thesis unfolding netGwei_def 1 by simp
  next
    case 2
    show ?thesis unfolding netGwei_def 2 using assms(2) [of "copyTo 48 (snd v)"]
      by (simp split: option.splits)
  qed
qed

lemma samplePrepare_on:
  "\<exists>root s' bs' w'. prepareCommit (Suc (Suc 0)) sampleOracle
     \<lparr>CP_Epoch = e, CP_BlockNum = 5, CP_BlockRoot = [7]\<rparr> target
     (toyStoreOn c, NewAdaptiveBatchSize 2 2, 0) = Some (Inr root, s', bs', w')"
proof -
  obtain s1 bs' w1 where s: "SyncToBlock (Suc (Suc 0)) toySyncer 5 (toyStoreOn c, NewAdaptiveBatchSize 2 2, 0) =
      Some (Inr (), s1, bs', w1)" and f: "faults s1 = []" using toy_sync_on by blast
  obtain vals where v: "GetActiveValidators s1 = (Inr vals, s1)"
    using f by (simp add: GetActiveValidators_def wrapS_def)
  have ver: "VerifyFinalizedBlockRoot sampleBeacon [7] w1 = (Inr (), w1)"
    by (simp add: VerifyFinalizedBlockRoot_def beaconCall_def checkFinalizedRoot_def WithRetry_ok opS_simps
        sampleBeacon_def)
  obtain bals m where b: "fetchBalances (\<lambda>ts. ts) sampleBeacon vals w1 = (Inr (bals, m), w1)"
  proof (cases "vals = []")
    case True
    show thesis by (rule that) (simp add: True fetchBalances_def opS_simps)
  next
    case False
    obtain r where "GetValidatorBalances sampleBeacon (deduplicatePubkeys vals) w1 = (Inr r, w1)"
      using sampleBeacon_fetch [of _ Map.empty w1]
      by (cases "deduplicatePubkeys vals = []") (auto simp: GetValidatorBalances_def retS_def)
    with False show thesis by (intro that) (simp add: fetchBalances_def opS_simps)
  qed
  obtain t where t: "buildTree toyHash samplePack (\<lambda>m. m) bals = Some t"
    using NewTree_total [OF samplePack_ok balanceMapOf_wf] by (auto simp: buildTree_def)
  have "oracle_commits (tbl s1) = []"
    using SyncToBlock_commits [OF s] by (simp add: toyStoreOn_def emptyTables_def)
  then obtain s3 where i: "InsertPendingCommit target (Tree_Root t) 5 bals s1 = (Inr (), s3)"
    using f by (simp add: InsertPendingCommit_def wrapS_def stmt_def insertCommitTbl_def)
  have k: "keccakOf toySyncer = toyHash" by (simp add: toySyncer_def)
  show ?thesis
    by (simp add: prepareCommit_def sampleOracle_def s v ver b t i k wrapS_def)
qed

lemma samplePrepare:
  "\<exists>root s' bs' w'. prepareCommit (Suc (Suc 0)) sampleOracle sampleCheckpoint 150
     (toyStore, NewAdaptiveBatchSize 2 2, 0) = Some (Inr root, s', bs', w')"
  using samplePrepare_on [of 151 150 None] by (simp add: toyStore_on sampleCheckpoint_def)

theorem prepared_commit_exact_witness:
  "\<exists>root s' bs' w' bals. prepareCommit (Suc (Suc 0)) sampleOracle sampleCheckpoint 150
     (toyStore, NewAdaptiveBatchSize 2 2, 0) = Some (Inr root, s', bs', w') \<and>
     commitOf s' 150 = Some (pendingRow 150 root 5 bals) \<and> distinct (map CB_ClusterID bals)"
proof -
  obtain root s' bs' w' where p: "prepareCommit (Suc (Suc 0)) sampleOracle sampleCheckpoint 150
      (toyStore, NewAdaptiveBatchSize 2 2, 0) = Some (Inr root, s', bs', w')" using samplePrepare by blast
  let ?n = "replay toyHash toyAbi (logsIn [toyLog] (unat (4::u64) + 1) (unat (5::u64) + 1)) (netOf (tbl toyStore))"
  have f: "or_syncer sampleOracle = toySyncer" "or_beacon sampleOracle = sampleBeacon"
    "or_totalsOrder sampleOracle = (\<lambda>ts. ts)" "CP_BlockNum sampleCheckpoint = 5"
    "keccakOf toySyncer = toyHash" "abiOf toySyncer = toyAbi"
    by (simp_all add: sampleOracle_def sampleCheckpoint_def toySyncer_def)
  have "netGwei (\<lambda>k. Some 33000000000) ?n cid \<le> 2048000000000" for cid
    by (rule netGwei_one [OF toy_net]) simp
  then have g: "netGwei (\<lambda>k. Some 33000000000) ?n cid < 2 ^ 32 * 1000000000" for cid
    by (rule le_less_trans) simp
  have c: "commitOf toyStore 150 = None" by (simp add: commitOf_def toyStore_def emptyTables_def)
  have a: "answersFrom sampleBeacon (\<lambda>k. Some 33000000000)" by (rule sampleBeacon_answers)
  from prepared_commit_exact [of sampleOracle, unfolded f, OF toy_honest a _ _ toy_bounds(4,1) _ _ c _ g p,
      of "[7]"] p
  show ?thesis using toy_bounds by (auto simp: f(4) sampleBeacon_def retS_def)
qed

lemma sampleCommitRoot:
  "\<exists>rcpt w'. CommitRoot (Suc (Suc 0)) (or_contract sampleOracle) root block w = Some ((Some rcpt, None), w')"
  by (simp add: CommitRoot_def SendTransaction_def estimateGas_def quickManager_def sampleOracle_def
      sampleContract_def opS_simps suggestGasFees_def samplePolicy_def minTipCap_def gweiWei_def
      MaxFeePerGasWei_def capFees_def buildAndSignTx_def sendWait_def waitForReceipt_def handleReceipt_def
      sampleTimer_def)

lemma sampleSubmit:
  "\<exists>err s' bs' w'. submitCommit (Suc (Suc 0)) sampleOracle cp target root (s, bs, w) = Some (err, s', bs', w')"
proof -
  have k: "GetCommittedRoot (or_contract sampleOracle) (CP_BlockNum cp) w = (Inr zeroRoot, w)"
    by (simp add: GetCommittedRoot_def abiResult_def opS_simps sampleOracle_def sampleContract_def)
  obtain rcpt w' where r: "CommitRoot (Suc (Suc 0)) (or_contract sampleOracle) root (CP_BlockNum cp) w =
      Some ((Some rcpt, None), w')" using sampleCommitRoot by blast
  show ?thesis by (simp add: submitCommit_def k r split: prod.splits)
qed

end
