(* ===== verification/Updater.thy ===== *)
theory Updater
  imports Oracle
begin

text \<open>
  The updater of \<^verbatim>\<open>updater/updater.go\<close>: for every \<open>RootCommitted\<close> event whose root is that
  of the local commit, it proves each cluster's balance to the contract, first with the
  finalized cluster rows and then, for clusters whose row is out of date, with the rows at the
  chain head. Its state is that of the oracle and the last processed block.
\<close>

section \<open>One cluster\<close>

type_synonym clusterLookup = "bytes \<Rightarrow> (store, ClusterRow option) op"

text \<open>A row that is not there is \<open>None\<close>, which stands for \<open>ok == false\<close>.\<close>

definition storageLookup :: clusterLookup where
  "storageLookup cid = GetCluster cid"

definition overlayLookup :: "overlay \<Rightarrow> clusterLookup" where
  "overlayLookup ov cid = retS (ov (copyTo 32 cid))"

record processStats =
  st_updated :: nat
  st_skipped :: nat
  st_failed :: nat

definition noStats :: processStats where
  "noStats = \<lparr>st_updated = 0, st_skipped = 0, st_failed = 0\<rparr>"

definition toContractCluster :: "ClusterRow \<Rightarrow> cluster" where
  "toContractCluster c = \<lparr>C_ValidatorCount = Row_ValidatorCount c, C_NetworkFeeIndex = Row_NetworkFeeIndex c,
     C_Index = Row_Index c, C_Active = Row_IsActive c, C_Balance = Row_Balance c\<rparr>"

text \<open>\<open>None\<close> is a call that has not returned, or a panic. The result says whether the balance
  was updated.\<close>

definition processCluster ::
    "nat \<Rightarrow> 'w contractClient \<Rightarrow> u64 \<Rightarrow> tree \<Rightarrow> clusterLookup \<Rightarrow> leaf \<Rightarrow> store \<times> 'w \<Rightarrow>
     ((goerror + bool) \<times> store \<times> 'w) option" where
  "processCluster fuel c blockNum t lookup lf x =
     (case wrapS ''lookup cluster'' (lookup (Leaf_ClusterID lf)) (fst x) of
        (Inl e, s) \<Rightarrow> Some (Inl e, s, snd x)
      | (Inr None, s) \<Rightarrow> Some (Inr False, s, snd x)
      | (Inr (Some row), s) \<Rightarrow>
          (case GetProof t (Leaf_ClusterID lf) of
             None \<Rightarrow> None
           | Some (Inl e) \<Rightarrow> Some (Inl (Wrap ''get proof'' e), s, snd x)
           | Some (Inr proof) \<Rightarrow>
               (let owner = bytesToAddress (Row_OwnerAddress row) in
                case wrapS ''get current balance'' (GetClusterEffectiveBalance c owner
                       (Row_OperatorIDs row) (toContractCluster row)) (snd x) of
                  (Inl e, w) \<Rightarrow> Some (Inl e, s, w)
                | (Inr currentBalance, w) \<Rightarrow>
                    if currentBalance = Leaf_EffectiveBalance lf then Some (Inr False, s, w)
                    else (case UpdateClusterBalance fuel c blockNum owner (Row_OperatorIDs row)
                                 (toContractCluster row) (Leaf_EffectiveBalance lf) proof w of
                        None \<Rightarrow> None
                      | Some ((_, Some err), w') \<Rightarrow> Some (Inl (Wrap ''update cluster balance'' err), s, w')
                      | Some ((Some rcpt, None), w') \<Rightarrow> Some (Inr True, s, w')
                      | Some ((None, None), w') \<Rightarrow> None))))"

section \<open>All clusters of a commit\<close>

text \<open>The reason of the \<open>RevertError\<close> that \<open>IsRevertError\<close> finds.\<close>

fun revertReason :: "goerror \<Rightarrow> string option" where
  "revertReason (RevertError r s t) = Some r"
| "revertReason (Wrap p e) = revertReason e"
| "revertReason (Wrap2 a b) = (case revertReason a of Some r \<Rightarrow> Some r | None \<Rightarrow> revertReason b)"
| "revertReason _ = None"

text \<open>What the loop of \<open>processAllClusters\<close> does with the result for one leaf: count it, keep
  it for the second pass, or stop because the root is no longer the latest.\<close>

datatype leafOutcome = Updated | Skipped | Failed | Stale | RootGone

definition outcomeOf :: "goerror + bool \<Rightarrow> leafOutcome" where
  "outcomeOf r =
     (case r of
        Inr ok \<Rightarrow> if ok then Updated else Skipped
      | Inl err \<Rightarrow>
          (case revertReason err of
             None \<Rightarrow> Failed
           | Some reason \<Rightarrow>
               if reason = ''IncorrectClusterState'' \<or> reason = ''ClusterIsLiquidated'' then Stale
               else if reason = ''MustUseLatestRoot'' \<or> reason = ''RootNotFound'' then RootGone
               else Skipped))"

definition incUpdated :: "processStats \<Rightarrow> processStats" where
  "incUpdated st = st\<lparr>st_updated := st_updated st + 1\<rparr>"

definition incSkipped :: "processStats \<Rightarrow> processStats" where
  "incSkipped st = st\<lparr>st_skipped := st_skipped st + 1\<rparr>"

definition incFailed :: "nat \<Rightarrow> processStats \<Rightarrow> processStats" where
  "incFailed k st = st\<lparr>st_failed := st_failed st + k\<rparr>"

fun clustersLoop ::
    "nat \<Rightarrow> 'w contractClient \<Rightarrow> u64 \<Rightarrow> tree \<Rightarrow> clusterLookup \<Rightarrow> leaf list \<Rightarrow> processStats \<Rightarrow>
     leaf list \<Rightarrow> store \<times> 'w \<Rightarrow> ((processStats \<times> leaf list) \<times> store \<times> 'w) option" where
  "clustersLoop fuel c blockNum t lookup [] st stale x = Some ((st, stale), x)"
| "clustersLoop fuel c blockNum t lookup (lf # lfs) st stale x =
     (if ctxDone (clock (txManagerOf c)) (snd x) then Some ((st, stale), x)
      else case processCluster fuel c blockNum t lookup lf x of
        None \<Rightarrow> None
      | Some (r, x') \<Rightarrow>
          (case outcomeOf r of
             Updated \<Rightarrow> clustersLoop fuel c blockNum t lookup lfs (incUpdated st) stale x'
           | Skipped \<Rightarrow> clustersLoop fuel c blockNum t lookup lfs (incSkipped st) stale x'
           | Failed \<Rightarrow> clustersLoop fuel c blockNum t lookup lfs (incFailed 1 st) stale x'
           | Stale \<Rightarrow> clustersLoop fuel c blockNum t lookup lfs st (stale @ [lf]) x'
           | RootGone \<Rightarrow> Some ((incSkipped st, []), x')))"

definition processAllClusters ::
    "nat \<Rightarrow> 'w contractClient \<Rightarrow> u64 \<Rightarrow> tree \<Rightarrow> clusterLookup \<Rightarrow> store \<times> 'w \<Rightarrow>
     ((processStats \<times> leaf list) \<times> store \<times> 'w) option" where
  "processAllClusters fuel c blockNum t lookup x =
     clustersLoop fuel c blockNum t lookup (Leaves t) noStats [] x"

text \<open>The second pass of \<open>processCommit\<close> over the stale leaves.\<close>

fun staleLoop ::
    "nat \<Rightarrow> 'w contractClient \<Rightarrow> u64 \<Rightarrow> tree \<Rightarrow> clusterLookup \<Rightarrow> leaf list \<Rightarrow> processStats \<Rightarrow>
     store \<times> 'w \<Rightarrow> (processStats \<times> store \<times> 'w) option" where
  "staleLoop fuel c blockNum t lookup [] st x = Some (st, x)"
| "staleLoop fuel c blockNum t lookup (lf # lfs) st x =
     (if ctxDone (clock (txManagerOf c)) (snd x) then Some (st, x)
      else case processCluster fuel c blockNum t lookup lf x of
        None \<Rightarrow> None
      | Some (Inl err, x') \<Rightarrow> staleLoop fuel c blockNum t lookup lfs (incFailed 1 st) x'
      | Some (Inr ok, x') \<Rightarrow>
          staleLoop fuel c blockNum t lookup lfs (if ok then incUpdated st else incSkipped st) x')"

record 'w Updater =
  up_contract :: "'w contractClient"
  up_syncer :: "'w EventSyncer"
  up_pack :: packer
  up_mapOrder :: "clusterMap \<Rightarrow> clusterMap"

definition processStale ::
    "nat \<Rightarrow> 'w Updater \<Rightarrow> u64 \<Rightarrow> tree \<Rightarrow> leaf list \<Rightarrow> processStats \<Rightarrow> 'w oracleState \<Rightarrow>
     (processStats \<times> 'w oracleState) option" where
  "processStale fuel u blockNum t stale st x =
     (if stale = [] then Some (st, x)
      else case BuildHeadStateSnapshot fuel (up_syncer u) (map Leaf_ClusterID stale) x of
        None \<Rightarrow> None
      | Some (Inl err, x1) \<Rightarrow> Some (incFailed (length stale) st, x1)
      | Some (Inr ov, s1, bs1, w1) \<Rightarrow>
          (case staleLoop fuel (up_contract u) blockNum t (overlayLookup ov) stale st (s1, w1) of
             None \<Rightarrow> None
           | Some (st', s2, w2) \<Rightarrow> Some (st', s2, bs1, w2)))"

definition processCommit ::
    "nat \<Rightarrow> 'w Updater \<Rightarrow> OracleCommit \<Rightarrow> 'w oracleState \<Rightarrow>
     ((goerror + processStats) \<times> 'w oracleState) option" where
  "processCommit fuel u cm x =
     (if Commit_ClusterBalances cm = [] then Some (Inr noStats, x)
      else case buildTree (keccakOf (up_syncer u)) (up_pack u) (up_mapOrder u) (Commit_ClusterBalances cm) of
        None \<Rightarrow> None
      | Some t \<Rightarrow>
          if Tree_Root t \<noteq> Commit_MerkleRoot cm
          then Some (Inl (ErrNew (''root mismatch: computed=0x'' @ hex (Tree_Root t) @ '', committed=0x'' @
                 hex (Commit_MerkleRoot cm))), x)
          else (case x of (s, bs, w) \<Rightarrow>
            (case processAllClusters fuel (up_contract u) (Commit_ReferenceBlock cm) t storageLookup (s, w) of
               None \<Rightarrow> None
             | Some ((st, stale), s1, w1) \<Rightarrow>
                 map_option (\<lambda>(st', x'). (Inr st', x'))
                   (processStale fuel u (Commit_ReferenceBlock cm) t stale st (s1, bs, w1)))))"

section \<open>Events\<close>

definition commitLookupRetryDelay :: int where
  "commitLookupRetryDelay = 10 * 10 ^ 9"

definition subscriptionRetryDelay :: int where
  "subscriptionRetryDelay = 5 * 10 ^ 9"

text \<open>The lookup of \<open>handleEvent\<close>: once more after a delay if there is no commit yet.
  \<open>None\<close> is every case in which the event is dropped.\<close>

definition lookupCommit :: "'w Updater \<Rightarrow> u64 \<Rightarrow> store \<times> 'w \<Rightarrow> OracleCommit option \<times> store \<times> 'w" where
  "lookupCommit u blockNum x =
     (case GetCommitByBlock blockNum (fst x) of
        (Inl e, s) \<Rightarrow> (None, s, snd x)
      | (Inr (Some cm), s) \<Rightarrow> (Some cm, s, snd x)
      | (Inr None, s) \<Rightarrow>
          (case sleepFor (clock (txManagerOf (up_contract u))) commitLookupRetryDelay (snd x) of
             (False, w) \<Rightarrow> (None, s, w)
           | (True, w) \<Rightarrow>
               (case GetCommitByBlock blockNum s of
                  (Inl e, s') \<Rightarrow> (None, s', w)
                | (Inr r, s') \<Rightarrow> (r, s', w))))"

text \<open>\<open>handleEvent\<close>: the new \<open>lastProcessedBlock\<close>, and the commit that was processed (if
  any).\<close>

definition handleEvent ::
    "nat \<Rightarrow> 'w Updater \<Rightarrow> RootCommittedEvent \<Rightarrow> u64 \<Rightarrow> 'w oracleState \<Rightarrow>
     (u64 \<times> OracleCommit option \<times> 'w oracleState) option" where
  "handleEvent fuel u ev lastProcessed x =
     (if RC_BlockNum ev \<le> lastProcessed then Some (lastProcessed, None, x)
      else case x of (s, bs, w) \<Rightarrow>
        (case lookupCommit u (RC_BlockNum ev) (s, w) of
           (None, s1, w1) \<Rightarrow> Some (lastProcessed, None, s1, bs, w1)
         | (Some cm, s1, w1) \<Rightarrow>
             if Commit_MerkleRoot cm \<noteq> RC_MerkleRoot ev then Some (lastProcessed, None, s1, bs, w1)
             else (case processCommit fuel u cm (s1, bs, w1) of
                 None \<Rightarrow> None
               | Some (Inl err, x') \<Rightarrow> Some (lastProcessed, None, x')
               | Some (Inr st, x') \<Rightarrow> Some (RC_BlockNum ev, Some cm, x'))))"

text \<open>
  What the select of \<open>subscribeAndProcess\<close> receives: an event, a value of the error channel,
  the end of one of the channels, or the cancellation of the context.
\<close>

datatype updaterInput =
    EventIn RootCommittedEvent
  | ErrorIn "goerror option"
  | ErrorsClosed
  | EventsClosed
  | ContextDone

text \<open>The loop of \<open>subscribeAndProcess\<close> over what it receives: its error (\<open>None\<close> while it is
  still waiting), the commits it processed, the last processed block and the state.\<close>

fun subscribeLoop ::
    "nat \<Rightarrow> 'w Updater \<Rightarrow> updaterInput list \<Rightarrow> u64 \<Rightarrow> 'w oracleState \<Rightarrow>
     (goerror option \<times> OracleCommit list \<times> u64 \<times> 'w oracleState) option" where
  "subscribeLoop fuel u [] lastProcessed x = Some (None, [], lastProcessed, x)"
| "subscribeLoop fuel u (inp # inps) lastProcessed x =
     (let ended = (\<lambda>msg. Some (Some (if ctxDone (clock (txManagerOf (up_contract u))) (snd (snd x))
            then CtxErr else ErrNew msg), [], lastProcessed, x)) in
      case inp of
        ContextDone \<Rightarrow> Some (Some CtxErr, [], lastProcessed, x)
      | ErrorsClosed \<Rightarrow> ended ''error channel closed unexpectedly''
      | EventsClosed \<Rightarrow> ended ''event channel closed unexpectedly''
      | ErrorIn (Some e) \<Rightarrow> Some (Some (Wrap ''subscription error'' e), [], lastProcessed, x)
      | ErrorIn None \<Rightarrow> subscribeLoop fuel u inps lastProcessed x
      | EventIn ev \<Rightarrow>
          (case handleEvent fuel u ev lastProcessed x of
             None \<Rightarrow> None
           | Some (lastProcessed', done, x') \<Rightarrow>
               map_option (\<lambda>(r, cms, rest). (r, (case done of None \<Rightarrow> cms | Some cm \<Rightarrow> cm # cms), rest))
                 (subscribeLoop fuel u inps lastProcessed' x')))"

text \<open>\<open>Run\<close> over its subscriptions, each with what it receives or the error of subscribing; it
  returns when the context is done.\<close>

fun updaterRun ::
    "nat \<Rightarrow> 'w Updater \<Rightarrow> (goerror + updaterInput list) list \<Rightarrow> u64 \<Rightarrow> 'w oracleState \<Rightarrow>
     (OracleCommit list \<times> u64 \<times> 'w oracleState) option" where
  "updaterRun fuel u [] lastProcessed x = Some ([], lastProcessed, x)"
| "updaterRun fuel u (sub # subs) lastProcessed x =
     (case (case sub of
              Inl e \<Rightarrow> Some (Some (Wrap ''subscribe'' e), [], lastProcessed, x)
            | Inr inps \<Rightarrow> subscribeLoop fuel u inps lastProcessed x) of
        None \<Rightarrow> None
      | Some (err, cms, lastProcessed', s, bs, w) \<Rightarrow>
          if ctxDone (clock (txManagerOf (up_contract u))) w then Some (cms, lastProcessed', s, bs, w)
          else (case sleepFor (clock (txManagerOf (up_contract u))) subscriptionRetryDelay w of
              (False, w') \<Rightarrow> Some (cms, lastProcessed', s, bs, w')
            | (True, w') \<Rightarrow>
                map_option (\<lambda>(cms', rest). (cms @ cms', rest))
                  (updaterRun fuel u subs lastProcessed' (s, bs, w'))))"

section \<open>Where cluster rows come from\<close>

text \<open>A row belongs to an identifier when the identifier is that of its owner and operators.
  Every row of the storage and of the overlay belongs to the identifier it is found under.\<close>

definition rowGenuine :: "keccak \<Rightarrow> bytes \<Rightarrow> ClusterRow \<Rightarrow> bool" where
  "rowGenuine kc cid row \<longleftrightarrow> computeClusterID kc (bytesToAddress (Row_OwnerAddress row)) (Row_OperatorIDs row) = cid"

definition tableGenuine :: "keccak \<Rightarrow> tables \<Rightarrow> bool" where
  "tableGenuine kc t \<longleftrightarrow> (\<forall>c \<in> set (clusters t). rowGenuine kc (cluster_id c) (scanClusterRow c))"

definition overlayGenuine :: "keccak \<Rightarrow> overlay \<Rightarrow> bool" where
  "overlayGenuine kc ov \<longleftrightarrow> (\<forall>k row. ov k = Some row \<longrightarrow> rowGenuine kc k row)"

lemma bytesToAddress_20 [simp]:
  "length (bytesToAddress b) = 20" "length b = 20 \<Longrightarrow> bytesToAddress b = b"
  by (simp_all add: bytesToAddress_def)

lemma parseLog_owner: "parseLog keccak a log = Inr (nm, e) \<Longrightarrow> length (Owner e) = 20"
  by (auto simp: parseLog_def withName_def ownerTopic_def bindE_def parseValidatorAdded_def
      parseValidatorRemoved_def parseClusterLiquidated_def parseClusterReactivated_def
      parseClusterWithdrawn_def parseClusterDeposited_def parseClusterMigratedToETH_def
      parseClusterBalanceUpdated_def split: list.splits sum.splits if_splits option.splits prod.splits)

lemma rowOfEvent_genuine:
  "length owner = 20 \<Longrightarrow> rowGenuine kc (computeClusterID kc owner ids)
     (rowOfEvent owner ids (computeClusterID kc owner ids) c)"
  by (simp add: rowGenuine_def rowOfEvent_def)

text \<open>The contract between the updater and the places it reads rows from.\<close>

locale cluster_source =
  fixes lookup :: "'o \<Rightarrow> clusterLookup" and ok :: "keccak \<Rightarrow> 'o \<Rightarrow> tables \<Rightarrow> bool"
  assumes found: "ok kc src (tbl s) \<Longrightarrow> length cid = 32 \<Longrightarrow> lookup src cid s = (Inr (Some row), s') \<Longrightarrow>
      rowGenuine kc cid row"
    and frame: "tbl (snd (lookup src cid s)) = tbl s"
begin

lemma processCluster_tbl:
  assumes "processCluster fuel c b t (lookup src) lf (s, w) = Some (r, s', w')"
  shows "tbl s' = tbl s"
proof -
  obtain q s1 where q: "lookup src (Leaf_ClusterID lf) s = (q, s1)" by fastforce
  then have "tbl s1 = tbl s" using frame [of src "Leaf_ClusterID lf" s] by simp
  moreover have "s' = s1"
    using assms unfolding processCluster_def wrapS_def fst_conv snd_conv q prod.case
    by (auto split: sum.splits option.splits prod.splits if_splits simp: Let_def)
  ultimately show ?thesis by simp
qed

end

interpretation finalized: cluster_source "\<lambda>_ :: unit. storageLookup" "\<lambda>kc _. tableGenuine kc"
proof
  fix kc s cid row s'
  assume "tableGenuine kc (tbl s)" "storageLookup cid s = (Inr (Some row), s')"
  moreover from this have "findRow (tbl s) cid = Some row" using ct.get_ok [of cid s] by (simp add: storageLookup_def)
  ultimately show "rowGenuine kc cid row"
    by (auto simp: tableGenuine_def findRow_def find_Some_iff)
next
  fix cid s
  show "tbl (snd (storageLookup cid s)) = tbl s"
    unfolding storageLookup_def GetCluster_def
    by (auto simp: wrapS_def dest!: query_Inr query_Inl split: prod.splits sum.splits)
qed

interpretation head: cluster_source overlayLookup "\<lambda>kc ov _. overlayGenuine kc ov"
  by unfold_locales (auto simp: overlayLookup_def retS_def overlayGenuine_def)

section \<open>The rows stay genuine\<close>

lemma upsertRec_genuine:
  "c' \<in> set (upsertRec c cs) \<Longrightarrow> c' = c \<or> c' \<in> set cs"
  by (induction c cs rule: upsertRec.induct) (auto split: if_splits)

lemma upsertCluster_genuine:
  assumes "rowGenuine kc (Row_ClusterID row) row"
  shows "tblInv (tableGenuine kc) (upsertCluster row)"
  unfolding upsertCluster_def
proof (intro inv_rules)
  fix t assume "tableGenuine kc t"
  moreover have "scanClusterRow (rowToRec row) = row" "cluster_id (rowToRec row) = Row_ClusterID row"
    by (simp_all add: scanClusterRow_def rowToRec_def boolToInt_def intToBool_def)
  ultimately show "tableGenuine kc (t\<lparr>clusters := upsertRec (rowToRec row) (clusters t)\<rparr>)"
    using assms by (auto simp: tableGenuine_def dest!: upsertRec_genuine)
qed

lemma genuine_frame:
  "tblInv (tableGenuine kc) (insertEvent ev)" "tblInv (tableGenuine kc) (insertValidator cid k)"
  "tblInv (tableGenuine kc) (deleteValidator cid k)" "tblInv (tableGenuine kc) (UpdateLastSyncedBlock b)"
  by (auto simp: insertEvent_def insertValidator_def deleteValidator_def insertValidatorTbl_def
      UpdateLastSyncedBlock_def tableGenuine_def intro!: inv_rules split: if_splits)

lemma applyEvent_genuine:
  assumes "length (Owner e) = 20"
  shows "tblInv (tableGenuine kc) (applyEvent nm e (computeClusterIDFromEvent kc e))"
proof -
  have "tblInv (tableGenuine kc)
      (upsertCluster (rowOfEvent (Owner e) (OperatorIDs e) (computeClusterIDFromEvent kc e) (Cluster e)))"
    using rowOfEvent_genuine [OF assms, of kc "OperatorIDs e"]
    by (intro upsertCluster_genuine) (simp add: computeClusterIDFromEvent_def clusterKey_def rowOfEvent_def)
  then show ?thesis
    by (auto simp: applyEvent_def handleValidatorAdded_def handleValidatorRemoved_def handleClusterEvent_def
        upsertClusterFromEvent_def intro!: inv_rules genuine_frame)
qed

lemma processLog_genuine: "tblInv (tableGenuine kc) (processLog kc a log bl)"
proof (cases "parseLog kc a log")
  case (Inl err)
  then show ?thesis by (auto simp: processLog_def storeRawEvent_def intro!: inv_rules genuine_frame)
next
  case (Inr p)
  then obtain nm e where p: "parseLog kc a log = Inr (nm, e)" by (cases p) simp
  from applyEvent_genuine [OF parseLog_owner [OF p]] show ?thesis
    by (auto simp: processLog_def p Let_def intro!: inv_rules genuine_frame)
qed

lemma processBatch_genuine: "tblInv (tableGenuine kc) (processBatch kc a e bls)"
  unfolding processBatch_def
  by (auto intro!: inv_rules genuine_frame processBlocks_inv processLog_genuine)

lemmas SyncToBlock_genuine =
  SyncToBlock_inv [where P = "tableGenuine kc" for kc, OF _ _ processBatch_genuine]

text \<open>Whatever the node answers, the loop of \<open>FetchLogs\<close> changes the callback's state only
  through the callback.\<close>

lemma FetchLogs_state:
  assumes "\<And>e ls w st r w' st'. P st \<Longrightarrow> cb e ls (w, st) = (r, w', st') \<Longrightarrow> P st'"
  shows "FetchLogs fuel c addr topics cb cur to (bs, w, st) = Some (r, bs', w', st') \<Longrightarrow> P st \<Longrightarrow> P st'"
proof (induction fuel arbitrary: cur bs w st)
  case (Suc fuel)
  show ?case
  proof (cases "cur \<le> to")
    case False
    with Suc.prems show ?thesis by simp
  next
    case True
    obtain f w1 where f: "fetchLogsBatch c addr cur (batchEndOf bs cur to) topics w = (f, w1)" by fastforce
    show ?thesis
    proof (cases f)
      case (Inl err)
      with Suc True f show ?thesis by (auto split: if_splits)
    next
      case (Inr logs)
      obtain p w2 where p: "packLogs c logs w1 = (p, w2)" by fastforce
      show ?thesis
      proof (cases p)
        case (Inl err)
        with Suc.prems True f Inr p show ?thesis by simp
      next
        case pk: (Inr bl)
        obtain q w3 st3 where q: "cb (batchEndOf bs cur to) bl (w2, st) = (q, w3, st3)" by (metis prod.collapse)
        have "P st3" using assms [OF Suc.prems(2) q] .
        with Suc.prems(1) Suc.IH True f Inr p pk q show ?thesis
          by (cases q) (auto split: if_splits)
      qed
    qed
  qed
qed simp

lemma overlayLogs_genuine:
  "overlayLogs kc a req logs ov = (r, ov') \<Longrightarrow> overlayGenuine kc ov \<Longrightarrow> overlayGenuine kc ov'"
proof (induction logs arbitrary: ov)
  case (Cons log logs)
  show ?case
  proof (cases "parseLog kc a log")
    case (Inl err)
    with Cons show ?thesis by (auto split: if_splits)
  next
    case (Inr p)
    then obtain nm e where p: "parseLog kc a log = Inr (nm, e)" by (cases p) simp
    have "overlayGenuine kc (applyClusterEventToOverlay kc ov req e)"
      using Cons.prems(2) rowOfEvent_genuine [OF parseLog_owner [OF p], of kc "OperatorIDs e" "Cluster e"]
      by (auto simp: applyClusterEventToOverlay_def clusterKey_def Let_def overlayGenuine_def)
    with Cons p show ?thesis by simp
  qed
qed simp

lemma seedOverlay_genuine:
  assumes "\<And>x. length (kc x) = 32"
  shows "\<forall>row \<in> set rows. rowGenuine kc (Row_ClusterID row) row \<Longrightarrow> overlayGenuine kc (seedOverlay rows)"
proof (induction rows rule: rev_induct)
  case Nil
  show ?case by (simp add: seedOverlay_def overlayGenuine_def)
next
  case (snoc row rows)
  then have g: "rowGenuine kc (Row_ClusterID row) row" by simp
  then have "length (Row_ClusterID row) = 32"
    unfolding rowGenuine_def computeClusterID_def using assms by (metis (lifting))
  with snoc g show ?case by (simp add: seedOverlay_def overlayGenuine_def)
qed

lemma BuildHeadStateSnapshot_genuine:
  assumes "BuildHeadStateSnapshot fuel sy ids (s, bs, w) = Some (Inr ov, s', bs', w')"
    "tableGenuine (keccakOf sy) (tbl s)" "keccak_ok (keccakOf sy)"
  shows "overlayGenuine (keccakOf sy) ov"
proof -
  obtain g s1 where g: "GetFinalizedClusters ids s = (g, s1)" by fastforce
  show ?thesis
  proof (cases g)
    case (Inl e)
    with assms(1) g show ?thesis by (simp add: BuildHeadStateSnapshot_def wrapS_def)
  next
    case (Inr q)
    then obtain rows l where g: "GetFinalizedClusters ids s = (Inr (rows, l), s1)" using g by (cases q) simp
    have "set rows = scanClusterRow ` {c \<in> set (clusters (tbl s)). cluster_id c \<in> set ids}"
      using GetFinalizedClusters_Inr [OF g] by simp
    then have seed: "overlayGenuine (keccakOf sy) (seedOverlay rows)"
      using assms(2,3) by (intro seedOverlay_genuine)
        (auto simp: keccak_ok_def tableGenuine_def scanClusterRow_def)
    have fetched: "overlayGenuine (keccakOf sy) ov'"
      if "FetchLogs fuel c addr topics (overlayCallback (keccakOf sy) (abiOf sy) req) cur to (bs, w, seedOverlay rows) =
        Some (r, bs', w', ov')" for c addr topics req cur to bs w r bs' w' ov'
      by (rule FetchLogs_state [OF _ that, where P = "overlayGenuine (keccakOf sy)"])
         (auto simp: overlayCallback_def seed split: prod.splits intro: overlayLogs_genuine)
    note run = assms(1) [unfolded BuildHeadStateSnapshot_def wrapS_def g prod.case sum.case Let_def]
    show ?thesis
      using run seed by (auto split: option.splits prod.splits sum.splits if_splits dest: fetched)
  qed
qed

section \<open>Only provable updates are packed\<close>

text \<open>
  The calls that the contract accepts for a commit: they name the commit's block, and the
  proof shows for the cluster of the given owner and operators the balance that the commit
  has for it. \<open>checkedContract\<close> refuses to encode any other call.
\<close>

definition validUpdate ::
    "keccak \<Rightarrow> packer \<Rightarrow> OracleCommit \<Rightarrow> u64 \<Rightarrow> bytes \<Rightarrow> u64 list \<Rightarrow> u32 \<Rightarrow> bytes list \<Rightarrow> bool" where
  "validUpdate kc pk cm blockNum owner ids eb proof \<longleftrightarrow>
     blockNum = Commit_ReferenceBlock cm \<and>
     (\<exists>b \<in> set (Commit_ClusterBalances cm).
        computeClusterID kc owner ids = copyTo 32 (CB_ClusterID b) \<and> CB_EffectiveBalance b = eb \<and>
        (\<exists>h. HashLeaf kc pk (copyTo 32 (CB_ClusterID b)) eb = Some h \<and> verifyProof kc h proof = Commit_MerkleRoot cm))"

definition checkedContract ::
    "keccak \<Rightarrow> packer \<Rightarrow> OracleCommit \<Rightarrow> 'w contractClient \<Rightarrow> 'w contractClient" where
  "checkedContract kc pk cm c = c\<lparr>packUpdateClusterBalance := (\<lambda>blockNum owner ids cl eb proof.
     if validUpdate kc pk cm blockNum owner ids eb proof
     then packUpdateClusterBalance c blockNum owner ids cl eb proof else Inl ''refused'')\<rparr>"

lemma checkedContract_fields [simp]:
  "txManagerOf (checkedContract kc pk cm c) = txManagerOf c"
  "contractAddress (checkedContract kc pk cm c) = contractAddress c"
  "callViews (checkedContract kc pk cm c) = callViews c"
  "packGetEffectiveBalance (checkedContract kc pk cm c) = packGetEffectiveBalance c"
  "unpackEffectiveBalance (checkedContract kc pk cm c) = unpackEffectiveBalance c"
  by (simp_all add: checkedContract_def)

lemma checkedContract_balance [simp]:
  "GetClusterEffectiveBalance (checkedContract kc pk cm c) = GetClusterEffectiveBalance c"
proof -
  have "callEffectiveBalance (checkedContract kc pk cm c) = callEffectiveBalance c"
    by (intro ext) (simp only: callEffectiveBalance_def checkedContract_fields)
  then show ?thesis by (intro ext) (simp only: GetClusterEffectiveBalance_def checkedContract_fields)
qed

lemma UpdateClusterBalance_checked:
  "validUpdate kc pk cm blockNum owner ids eb proof \<Longrightarrow>
   UpdateClusterBalance fuel (checkedContract kc pk cm c) blockNum owner ids cl eb proof w =
   UpdateClusterBalance fuel c blockNum owner ids cl eb proof w"
  unfolding UpdateClusterBalance_def checkedContract_fields
  by (simp add: checkedContract_def)

text \<open>A leaf whose proofs are valid for the commit.\<close>

definition leafOfCommit :: "keccak \<Rightarrow> packer \<Rightarrow> OracleCommit \<Rightarrow> tree \<Rightarrow> leaf \<Rightarrow> bool" where
  "leafOfCommit kc pk cm t lf \<longleftrightarrow> length (Leaf_ClusterID lf) = 32 \<and>
     (\<forall>owner ids proof. computeClusterID kc owner ids = Leaf_ClusterID lf \<longrightarrow>
        GetProof t (Leaf_ClusterID lf) = Some (Inr proof) \<longrightarrow>
        validUpdate kc pk cm (Commit_ReferenceBlock cm) owner ids (Leaf_EffectiveBalance lf) proof)"

context cluster_source
begin

lemma processCluster_checked:
  assumes "ok kc src (tbl s)" "leafOfCommit kc pk cm t lf"
  shows "processCluster fuel (checkedContract kc pk cm c) (Commit_ReferenceBlock cm) t (lookup src) lf (s, w) =
    processCluster fuel c (Commit_ReferenceBlock cm) t (lookup src) lf (s, w)"
proof -
  obtain q s1 where q: "lookup src (Leaf_ClusterID lf) s = (q, s1)" by fastforce
  show ?thesis
  proof (cases "\<exists>row. q = Inr (Some row)")
    case False
    with q show ?thesis
      by (cases q) (auto simp: processCluster_def wrapS_def split: option.splits)
  next
    case True
    then obtain row where row: "lookup src (Leaf_ClusterID lf) s = (Inr (Some row), s1)" using q by auto
    have "rowGenuine kc (Leaf_ClusterID lf) row"
      using found [OF assms(1) _ row] assms(2) by (simp add: leafOfCommit_def)
    then have upd: "UpdateClusterBalance fuel (checkedContract kc pk cm c) (Commit_ReferenceBlock cm)
        (bytesToAddress (Row_OwnerAddress row)) (Row_OperatorIDs row) cl (Leaf_EffectiveBalance lf) pf =
      UpdateClusterBalance fuel c (Commit_ReferenceBlock cm)
        (bytesToAddress (Row_OwnerAddress row)) (Row_OperatorIDs row) cl (Leaf_EffectiveBalance lf) pf"
      if "GetProof t (Leaf_ClusterID lf) = Some (Inr pf)" for pf cl
      using assms(2) that by (intro ext UpdateClusterBalance_checked) (simp add: leafOfCommit_def rowGenuine_def)
    show ?thesis
    proof (cases "\<exists>pf. GetProof t (Leaf_ClusterID lf) = Some (Inr pf)")
      case True
      then obtain pf where pf: "GetProof t (Leaf_ClusterID lf) = Some (Inr pf)" by blast
      show ?thesis
        unfolding processCluster_def wrapS_def fst_conv snd_conv row prod.case sum.case option.case pf
          Let_def upd [OF pf] checkedContract_balance ..
    next
      case False
      then show ?thesis
        unfolding processCluster_def wrapS_def fst_conv snd_conv row prod.case sum.case option.case
        by (auto split: option.splits sum.splits)
    qed
  qed
qed

lemma clustersLoop_checked:
  assumes "\<forall>lf \<in> set lfs. leafOfCommit kc pk cm t lf" "ok kc src (tbl s)"
  shows "clustersLoop fuel (checkedContract kc pk cm c) (Commit_ReferenceBlock cm) t (lookup src) lfs st stale (s, w) =
    clustersLoop fuel c (Commit_ReferenceBlock cm) t (lookup src) lfs st stale (s, w)"
  using assms
proof (induction lfs arbitrary: st stale s w)
  case (Cons lf lfs)
  have same: "processCluster fuel (checkedContract kc pk cm c) (Commit_ReferenceBlock cm) t (lookup src) lf (s, w) =
      processCluster fuel c (Commit_ReferenceBlock cm) t (lookup src) lf (s, w)"
    by (rule processCluster_checked) (use Cons.prems in auto)
  show ?case
  proof (cases "processCluster fuel c (Commit_ReferenceBlock cm) t (lookup src) lf (s, w)")
    case None
    then show ?thesis by (simp add: same)
  next
    case (Some y)
    obtain r s' w' where p: "processCluster fuel c (Commit_ReferenceBlock cm) t (lookup src) lf (s, w) = Some (r, s', w')"
      using Some by (cases y) auto
    have "ok kc src (tbl s')" using processCluster_tbl [OF p] Cons.prems(2) by simp
    with Cons.IH Cons.prems(1) show ?thesis by (simp add: same p split: leafOutcome.splits)
  qed
qed simp

lemma staleLoop_checked:
  assumes "\<forall>lf \<in> set lfs. leafOfCommit kc pk cm t lf" "ok kc src (tbl s)"
  shows "staleLoop fuel (checkedContract kc pk cm c) (Commit_ReferenceBlock cm) t (lookup src) lfs st (s, w) =
    staleLoop fuel c (Commit_ReferenceBlock cm) t (lookup src) lfs st (s, w)"
  using assms
proof (induction lfs arbitrary: st s w)
  case (Cons lf lfs)
  have same: "processCluster fuel (checkedContract kc pk cm c) (Commit_ReferenceBlock cm) t (lookup src) lf (s, w) =
      processCluster fuel c (Commit_ReferenceBlock cm) t (lookup src) lf (s, w)"
    by (rule processCluster_checked) (use Cons.prems in auto)
  show ?case
  proof (cases "processCluster fuel c (Commit_ReferenceBlock cm) t (lookup src) lf (s, w)")
    case None
    then show ?thesis by (simp add: same)
  next
    case (Some y)
    obtain r s' w' where p: "processCluster fuel c (Commit_ReferenceBlock cm) t (lookup src) lf (s, w) = Some (r, s', w')"
      using Some by (cases y) auto
    have "ok kc src (tbl s')" using processCluster_tbl [OF p] Cons.prems(2) by simp
    with Cons.IH Cons.prems(1) show ?thesis by (simp add: same p split: sum.splits)
  qed
qed simp

lemma clustersLoop_frame:
  "clustersLoop fuel c b t (lookup src) lfs st stale (s, w) = Some ((st', stale'), s', w') \<Longrightarrow>
   tbl s' = tbl s \<and> set stale' \<subseteq> set stale \<union> set lfs"
proof (induction lfs arbitrary: st stale s w)
  case (Cons lf lfs)
  show ?case
  proof (cases "ctxDone (clock (txManagerOf c)) w")
    case True
    with Cons.prems show ?thesis by auto
  next
    case False
    with Cons.prems obtain r s1 w1 where
      p: "processCluster fuel c b t (lookup src) lf (s, w) = Some (r, s1, w1)"
      by (auto split: option.splits)
    have "tbl s1 = tbl s" by (rule processCluster_tbl [OF p])
    with Cons.prems False p show ?thesis
      by (cases "outcomeOf r") (auto dest!: Cons.IH)
  qed
qed simp

end

lemma buildTree_leafOfCommit:
  assumes "pack_ok pk" "\<And>m. mset (order m) = mset m"
    "buildTree kc pk order (Commit_ClusterBalances cm) = Some t" "Tree_Root t = Commit_MerkleRoot cm"
    "lf \<in> set (Leaves t)"
  shows "leafOfCommit kc pk cm t lf"
proof -
  obtain b p h where b: "b \<in> set (Commit_ClusterBalances cm)" "copyTo 32 (CB_ClusterID b) = Leaf_ClusterID lf"
    "CB_EffectiveBalance b = Leaf_EffectiveBalance lf" "GetProof t (Leaf_ClusterID lf) = Some (Inr p)"
    "HashLeaf kc pk (Leaf_ClusterID lf) (Leaf_EffectiveBalance lf) = Some h" "verifyProof kc h p = Tree_Root t"
    using buildTree_leaves [OF assms(1-3,5)] by blast
  have "length (Leaf_ClusterID lf) = 32" using b(2) by (metis length_copyTo)
  with b assms(4) show ?thesis
    by (auto simp: leafOfCommit_def validUpdate_def intro!: bexI [of _ b])
qed

lemma processStale_checked:
  assumes "keccak_ok (keccakOf (up_syncer u))" "tableGenuine (keccakOf (up_syncer u)) (tbl s)"
    "\<forall>lf \<in> set stale. leafOfCommit (keccakOf (up_syncer u)) (up_pack u) cm t lf"
  shows "processStale fuel (u\<lparr>up_contract :=
      checkedContract (keccakOf (up_syncer u)) (up_pack u) cm (up_contract u)\<rparr>) (Commit_ReferenceBlock cm) t stale st (s, bs, w) =
    processStale fuel u (Commit_ReferenceBlock cm) t stale st (s, bs, w)"
proof (cases "BuildHeadStateSnapshot fuel (up_syncer u) (map Leaf_ClusterID stale) (s, bs, w)")
  case None
  then show ?thesis by (simp add: processStale_def)
next
  case (Some y)
  obtain r s2 bs2 w2 where b: "BuildHeadStateSnapshot fuel (up_syncer u) (map Leaf_ClusterID stale) (s, bs, w) =
      Some (r, s2, bs2, w2)" using Some by (cases y) auto
  show ?thesis
  proof (cases r)
    case (Inl err)
    with b show ?thesis by (simp add: processStale_def)
  next
    case (Inr ov)
    then have gen: "overlayGenuine (keccakOf (up_syncer u)) ov"
      using BuildHeadStateSnapshot_genuine [OF _ assms(2,1)] b by simp
    from b Inr show ?thesis
      by (simp add: processStale_def head.staleLoop_checked [OF assms(3) gen])
  qed
qed

section \<open>Properties\<close>

text \<open>C9: the updater only makes calls that the contract can verify. Processing a commit gives
  the same result, whatever happens on the way, if every encoding of
  \<open>updateClusterBalance\<close> is refused unless it names the commit's block and carries, for the
  cluster of the owner and operators it names, the balance of that cluster in the commit and a
  Merkle proof of it that checks against the committed root; so no other call is ever made, in
  the first pass over the stored rows or in the second over the rows at the chain head.\<close>

theorem updates_provable:
  assumes "pack_ok (up_pack u)" "\<And>m. mset (up_mapOrder u m) = mset m" "keccak_ok (keccakOf (up_syncer u))"
    "tableGenuine (keccakOf (up_syncer u)) (tbl s)"
  shows "processCommit fuel (u\<lparr>up_contract :=
      checkedContract (keccakOf (up_syncer u)) (up_pack u) cm (up_contract u)\<rparr>) cm (s, bs, w) =
    processCommit fuel u cm (s, bs, w)"
proof -
  let ?kc = "keccakOf (up_syncer u)"
  let ?u' = "u\<lparr>up_contract := checkedContract ?kc (up_pack u) cm (up_contract u)\<rparr>"
  have same: "up_syncer ?u' = up_syncer u" "up_pack ?u' = up_pack u" "up_mapOrder ?u' = up_mapOrder u" by simp_all
  have fin: "processAllClusters fuel (up_contract ?u') (Commit_ReferenceBlock cm) t storageLookup (s, w) =
      processAllClusters fuel (up_contract u) (Commit_ReferenceBlock cm) t storageLookup (s, w)"
    if "\<forall>lf \<in> set (Leaves t). leafOfCommit ?kc (up_pack u) cm t lf" for t
    using finalized.clustersLoop_checked [OF that assms(4)] by (simp add: processAllClusters_def)
  show ?thesis
  proof (cases "buildTree ?kc (up_pack u) (up_mapOrder u) (Commit_ClusterBalances cm)")
    case None
    then show ?thesis by (simp add: processCommit_def)
  next
    case (Some t)
    show ?thesis
    proof (cases "Tree_Root t = Commit_MerkleRoot cm")
      case False
      with Some show ?thesis by (simp add: processCommit_def)
    next
      case True
      have lfs: "\<forall>lf \<in> set (Leaves t). leafOfCommit ?kc (up_pack u) cm t lf"
        using buildTree_leafOfCommit [OF assms(1,2) Some True] by blast
      show ?thesis
      proof (cases "processAllClusters fuel (up_contract u) (Commit_ReferenceBlock cm) t storageLookup (s, w)")
        case None
        with Some True fin [OF lfs] show ?thesis by (simp add: processCommit_def)
      next
        case (Some z)
        then obtain st stale s1 w1 where p: "processAllClusters fuel (up_contract u) (Commit_ReferenceBlock cm) t
            storageLookup (s, w) = Some ((st, stale), s1, w1)" by (cases z) auto
        have "tbl s1 = tbl s \<and> set stale \<subseteq> set (Leaves t)"
          using finalized.clustersLoop_frame p [unfolded processAllClusters_def] by fastforce
        with processStale_checked [OF assms(3), of s1 stale cm t] assms(4) lfs fin [OF lfs] p True
          \<open>buildTree ?kc (up_pack u) (up_mapOrder u) (Commit_ClusterBalances cm) = Some t\<close>
        show ?thesis by (simp add: processCommit_def subset_iff)
      qed
    qed
  qed
qed

definition sampleUpdater :: "nat Updater" where
  "sampleUpdater = \<lparr>up_contract = sampleContract, up_syncer = toySyncer, up_pack = samplePack,
     up_mapOrder = (\<lambda>m. m)\<rparr>"

definition sampleLeaf :: leaf where
  "sampleLeaf = leafOf toyHash samplePack (toyID, 64)"

definition sampleCommit :: OracleCommit where
  "sampleCommit = \<lparr>Commit_TargetEpoch = 150, Commit_MerkleRoot = Leaf_Hash sampleLeaf, Commit_ReferenceBlock = 5,
     Commit_ClusterBalances = [\<lparr>CB_ClusterID = toyID, CB_EffectiveBalance = 64\<rparr>],
     Commit_Status = CommitStatusConfirmed, Commit_TxHash = None\<rparr>"

definition sampleRows :: store where
  "sampleRows = toyStore\<lparr>tbl := (tbl toyStore)\<lparr>
     clusters := [rowToRec (rowOfEvent (replicate 20 1) [1, 2] toyID toyCluster)]\<rparr>\<rparr>"

lemma sampleUpdater_fields:
  "up_contract sampleUpdater = sampleContract" "up_syncer sampleUpdater = toySyncer"
  "up_pack sampleUpdater = samplePack" "up_mapOrder sampleUpdater = (\<lambda>m. m)" "keccakOf toySyncer = toyHash"
  by (simp_all add: sampleUpdater_def toySyncer_def)

lemma sample_keccak_ok: "keccak_ok toyHash"
  by (simp add: keccak_ok_def toyHash_def)

lemma toyID_length: "length toyID = 32"
  by (simp add: toyID_def computeClusterID_def toyHash_def)

lemma sampleTree:
  "buildTree toyHash samplePack (\<lambda>m. m) [\<lparr>CB_ClusterID = toyID, CB_EffectiveBalance = 64\<rparr>] =
     Some \<lparr>Tree_Root = Leaf_Hash sampleLeaf, Tree_leaves = [sampleLeaf], Tree_layers = []\<rparr>"
proof -
  have "makeLeaves toyHash samplePack [(toyID, 64)] = Some [sampleLeaf]"
    using makeLeaves_ok [OF samplePack_ok, of "[(toyID, 64)]" toyHash] toyID_length
    by (simp add: wfClusters_def sampleLeaf_def)
  then show ?thesis
    by (simp add: buildTree_def balanceMapOf_def toyID_length NewTree_def)
qed

lemma sampleProcess:
  assumes "clusters (tbl s) = clusters (tbl sampleRows)" "faults s = []"
  shows "processCommit 1 sampleUpdater sampleCommit (s, bs, 0) =
     Some (Inr \<lparr>st_updated = 1, st_skipped = 0, st_failed = 0\<rparr>, s, bs, 0)"
proof -
  let ?t = "\<lparr>Tree_Root = Leaf_Hash sampleLeaf, Tree_leaves = [sampleLeaf], Tree_layers = []\<rparr>"
  let ?row = "rowOfEvent (replicate 20 1) [1, 2] toyID toyCluster"
  have id: "Leaf_ClusterID sampleLeaf = toyID" "Leaf_EffectiveBalance sampleLeaf = 64"
    by (simp_all add: sampleLeaf_def)
  have look: "storageLookup toyID s = (Inr (Some ?row), s)"
    using assms by (simp add: storageLookup_def GetCluster_def wrapS_def sampleRows_def findRow_def
        scanClusterRow_def rowToRec_def rowOfEvent_def boolToInt_def intToBool_def)
  have pf: "GetProof ?t toyID = Some (Inr [])"
    by (simp add: GetProof_def findLeaf_def id)
  have bal: "GetClusterEffectiveBalance sampleContract owner ids cl w = (Inr 0, w)" for owner ids cl w
    by (simp add: GetClusterEffectiveBalance_def callEffectiveBalance_def abiResult_def opS_simps sampleContract_def)
  have upd: "\<exists>rcpt. UpdateClusterBalance 1 sampleContract b owner ids cl eb pf 0 = Some ((Some rcpt, None), 0)"
    for b owner ids cl eb pf
    by (simp add: UpdateClusterBalance_def SendTransaction_def estimateGas_def quickManager_def
      sampleContract_def opS_simps suggestGasFees_def samplePolicy_def minTipCap_def gweiWei_def
      MaxFeePerGasWei_def capFees_def buildAndSignTx_def sendWait_def waitForReceipt_def handleReceipt_def
      sampleTimer_def)
  have "processCluster 1 sampleContract 5 ?t storageLookup sampleLeaf (s, 0) = Some (Inr True, s, 0)"
    using upd [of 5 "bytesToAddress (Row_OwnerAddress ?row)" "Row_OperatorIDs ?row" "toContractCluster ?row" 64 "[]"]
    by (auto simp: processCluster_def wrapS_def id look pf bal Let_def)
  moreover have "ctxDone (clock (txManagerOf sampleContract)) w = False" for w
    by (simp add: sampleContract_def quickManager_def sampleTimer_def)
  ultimately show ?thesis
    by (simp add: processCommit_def sampleUpdater_fields sampleCommit_def sampleTree processAllClusters_def
        Leaves_def outcomeOf_def processStale_def incUpdated_def noStats_def)
qed

theorem updates_provable_witness:
  "\<exists>x'. processCommit 1 (sampleUpdater\<lparr>up_contract :=
      checkedContract toyHash samplePack sampleCommit sampleContract\<rparr>) sampleCommit
      (sampleRows, NewAdaptiveBatchSize 2 2, 0) =
     Some (Inr \<lparr>st_updated = 1, st_skipped = 0, st_failed = 0\<rparr>, x')"
proof -
  have "tableGenuine toyHash (tbl sampleRows)"
    by (simp add: tableGenuine_def sampleRows_def rowGenuine_def scanClusterRow_def rowToRec_def
        rowOfEvent_def toyID_def)
  with updates_provable [of sampleUpdater, unfolded sampleUpdater_fields, OF samplePack_ok _ sample_keccak_ok]
    sampleProcess [of sampleRows] show ?thesis by (simp add: sampleRows_def toyStore_def)
qed

section \<open>The sequence of processed commits\<close>

fun advances :: "u64 \<Rightarrow> u64 list \<Rightarrow> u64 \<Rightarrow> bool" where
  "advances l [] l' \<longleftrightarrow> l' = l"
| "advances l (b # bs) l' \<longleftrightarrow> l < b \<and> advances b bs l'"

lemma advances_append: "advances l as m \<Longrightarrow> advances m bs n \<Longrightarrow> advances l (as @ bs) n"
  by (induction as arbitrary: l) auto

lemma advances_sorted: "advances l bs l' \<Longrightarrow> sorted_wrt (<) (l # bs) \<and> l' = last (l # bs)"
proof (induction bs arbitrary: l)
  case (Cons b bs)
  then show ?case using order.strict_trans by fastforce
qed simp

lemma GetCommitByBlock_ref:
  "GetCommitByBlock b s = (Inr (Some cm), s') \<Longrightarrow> Commit_ReferenceBlock cm = b"
  unfolding GetCommitByBlock_def wrapS_eq_Inr_iff
  by (drule query_Inr) (auto simp: eq_commute [of "Some _"] find_Some_iff scanCommit_def)

lemma lookupCommit_ref:
  "lookupCommit u b x = (Some cm, y) \<Longrightarrow> Commit_ReferenceBlock cm = b"
  unfolding lookupCommit_def
  by (auto split: prod.splits sum.splits option.splits bool.splits dest: GetCommitByBlock_ref)

lemma handleEvent_result:
  assumes "handleEvent fuel u ev l x = Some (l', dn, x')"
  shows "case dn of None \<Rightarrow> l' = l
    | Some cm \<Rightarrow> l < l' \<and> l' = Commit_ReferenceBlock cm \<and> RC_BlockNum ev = l' \<and> RC_MerkleRoot ev = Commit_MerkleRoot cm"
proof (cases "RC_BlockNum ev \<le> l")
  case True
  with assms show ?thesis by (simp add: handleEvent_def)
next
  case False
  obtain s bs w where x: "x = (s, bs, w)" by (cases x)
  obtain c s1 w1 where c: "lookupCommit u (RC_BlockNum ev) (s, w) = (c, s1, w1)"
    by (metis prod.collapse)
  show ?thesis
  proof (cases c)
    case None
    with assms False x c show ?thesis by (auto simp: handleEvent_def)
  next
    case (Some cm)
    with lookupCommit_ref [OF c [unfolded Some]] assms False x c show ?thesis
      by (auto simp: handleEvent_def split: if_splits option.splits sum.splits)
  qed
qed

text \<open>The events of a list of received values, and the commits that follow from them.\<close>

definition fromEvent :: "updaterInput list \<Rightarrow> OracleCommit \<Rightarrow> bool" where
  "fromEvent inps cm \<longleftrightarrow> (\<exists>ev. EventIn ev \<in> set inps \<and> RC_BlockNum ev = Commit_ReferenceBlock cm \<and>
     RC_MerkleRoot ev = Commit_MerkleRoot cm)"

lemma fromEvent_Cons: "fromEvent inps cm \<Longrightarrow> fromEvent (i # inps) cm"
  by (auto simp: fromEvent_def)

lemma fromEvent_hd:
  "RC_BlockNum ev = Commit_ReferenceBlock cm \<Longrightarrow> RC_MerkleRoot ev = Commit_MerkleRoot cm \<Longrightarrow>
   fromEvent (EventIn ev # inps) cm"
  by (auto simp: fromEvent_def)

lemma subscribeLoop_result:
  "subscribeLoop fuel u inps l x = Some (r, cms, l', x') \<Longrightarrow>
   advances l (map Commit_ReferenceBlock cms) l' \<and> list_all (fromEvent inps) cms"
proof (induction inps arbitrary: l x cms r)
  case (Cons i inps)
  show ?case
  proof (cases "\<exists>ev. i = EventIn ev")
    case True
    then obtain ev where i: "i = EventIn ev" ..
    obtain l1 dn x1 rest where h: "handleEvent fuel u ev l x = Some (l1, dn, x1)"
      and s: "subscribeLoop fuel u inps l1 x1 = Some (r, rest, l', x')"
      and c: "cms = (case dn of None \<Rightarrow> rest | Some cm \<Rightarrow> cm # rest)"
      using Cons.prems by (auto simp: i split: option.splits)
    have "list_all (fromEvent (i # inps)) rest"
      using Cons.IH [OF s] fromEvent_Cons by (auto simp: list_all_iff)
    with Cons.IH [OF s] handleEvent_result [OF h] c i show ?thesis
      by (auto intro: fromEvent_hd split: option.splits)
  next
    case False
    with Cons.prems Cons.IH fromEvent_Cons show ?thesis
      by (auto simp: Let_def list_all_iff split: updaterInput.splits option.splits)
  qed
qed simp

lemma updaterRun_result:
  "updaterRun fuel u subs l x = Some (cms, l', x') \<Longrightarrow>
   advances l (map Commit_ReferenceBlock cms) l' \<and>
   list_all (\<lambda>cm. \<exists>inps. Inr inps \<in> set subs \<and> fromEvent inps cm) cms"
proof (induction subs arbitrary: l x cms)
  case (Cons sub subs)
  let ?once = "case sub of Inl e \<Rightarrow> Some (Some (Wrap ''subscribe'' e), [], l, x)
    | Inr inps \<Rightarrow> subscribeLoop fuel u inps l x"
  obtain err cms1 l1 s bs w where o: "?once = Some (err, cms1, l1, s, bs, w)"
    using Cons.prems by (cases ?once) auto
  have one: "advances l (map Commit_ReferenceBlock cms1) l1"
    "list_all (\<lambda>cm. \<exists>inps. Inr inps \<in> set (sub # subs) \<and> fromEvent inps cm) cms1"
    using o subscribeLoop_result [of fuel u _ l x]
    by (auto simp: list_all_iff split: sum.splits)
  note run = Cons.prems [unfolded updaterRun.simps o option.case prod.case]
  show ?case
  proof (cases "ctxDone (clock (txManagerOf (up_contract u))) w")
    case True
    with run one show ?thesis by simp
  next
    case False
    obtain b w1 where sl: "sleepFor (clock (txManagerOf (up_contract u))) subscriptionRetryDelay w = (b, w1)" by fastforce
    show ?thesis
    proof (cases b)
      case False': False
      with run one False sl show ?thesis by simp
    next
      case True
      with run False sl obtain rest where r: "updaterRun fuel u subs l1 (s, bs, w1) = Some (rest, l', x')"
        and c: "cms = cms1 @ rest" by auto
      from Cons.IH [OF r] one c show ?thesis
        by (auto simp: list_all_iff intro: advances_append)
    qed
  qed
qed simp

text \<open>C18: however often the subscription breaks and whatever events arrive, repeated or out of
  order, the reference blocks of the commits that are processed strictly increase from the
  last processed block, which afterwards is the last of them; so no block is processed twice.
  Every processed commit belongs to a received event for its block with its root.\<close>

theorem events_processed_once:
  assumes "updaterRun fuel u subs lastProcessed x = Some (cms, lastProcessed', x')"
  shows "sorted_wrt (<) (lastProcessed # map Commit_ReferenceBlock cms) \<and>
    lastProcessed' = last (lastProcessed # map Commit_ReferenceBlock cms) \<and>
    (\<forall>cm \<in> set cms. \<exists>inps ev. Inr inps \<in> set subs \<and> EventIn ev \<in> set inps \<and>
       RC_BlockNum ev = Commit_ReferenceBlock cm \<and> RC_MerkleRoot ev = Commit_MerkleRoot cm)"
  using updaterRun_result [OF assms] advances_sorted
  unfolding list_all_iff fromEvent_def by blast

text \<open>The sample commit in the storage, and an event for it that arrives twice.\<close>

definition sampleStored :: store where
  "sampleStored = sampleRows\<lparr>tbl := (tbl sampleRows)\<lparr>oracle_commits :=
     [\<lparr>target_epoch = 150, merkle_root = Leaf_Hash sampleLeaf, reference_block = 5,
       cluster_balances = Some [\<lparr>CB_ClusterID = toyID, CB_EffectiveBalance = 64\<rparr>],
       status = CommitStatusConfirmed, tx_hash = None\<rparr>]\<rparr>\<rparr>"

definition sampleEvent :: RootCommittedEvent where
  "sampleEvent = \<lparr>RC_MerkleRoot = Leaf_Hash sampleLeaf, RC_BlockNum = 5, RC_TxHash = []\<rparr>"

lemma sampleStored_lookup:
  "lookupCommit sampleUpdater 5 (sampleStored, w) = (Some sampleCommit, sampleStored, w)"
  by (simp add: lookupCommit_def GetCommitByBlock_def wrapS_def sampleStored_def sampleRows_def toyStore_def
      scanCommit_def sampleCommit_def)

lemma sampleEvents:
  "updaterRun 1 sampleUpdater [Inl CtxErr, Inr [EventIn sampleEvent, EventIn sampleEvent, ErrorIn (Some CtxErr)]] 4
     (sampleStored, NewAdaptiveBatchSize 2 2, 0) = Some ([sampleCommit], 5, sampleStored, NewAdaptiveBatchSize 2 2, 0)"
proof -
  have t: "clock (txManagerOf (up_contract sampleUpdater)) = sampleTimer"
    by (simp add: sampleUpdater_fields sampleContract_def quickManager_def)
  have "clusters (tbl sampleStored) = clusters (tbl sampleRows)" "faults sampleStored = []"
    by (simp_all add: sampleStored_def sampleRows_def toyStore_def)
  note p = sampleProcess [OF this, of "NewAdaptiveBatchSize 2 2"]
  have r: "Commit_MerkleRoot sampleCommit = RC_MerkleRoot sampleEvent" "RC_BlockNum sampleEvent = 5"
    by (simp_all add: sampleCommit_def sampleEvent_def)
  have h: "handleEvent 1 sampleUpdater sampleEvent 4 (sampleStored, NewAdaptiveBatchSize 2 2, 0) =
      Some (5, Some sampleCommit, sampleStored, NewAdaptiveBatchSize 2 2, 0)"
    using p by (simp add: handleEvent_def r sampleStored_lookup)
  have d: "handleEvent 1 sampleUpdater sampleEvent 5 x = Some (5, None, x)" for x
    by (simp add: handleEvent_def r)
  show ?thesis using h d by (simp add: t sampleTimer_def Let_def)
qed

theorem events_processed_once_witness:
  "\<exists>cms l' x'. updaterRun 1 sampleUpdater
      [Inl CtxErr, Inr [EventIn sampleEvent, EventIn sampleEvent, ErrorIn (Some CtxErr)]] 4
      (sampleStored, NewAdaptiveBatchSize 2 2, 0) = Some (cms, l', x') \<and>
     length cms = 1 \<and> sorted_wrt (<) (4 # map Commit_ReferenceBlock cms) \<and> l' = last (4 # map Commit_ReferenceBlock cms)"
  using events_processed_once [OF sampleEvents] by (intro exI conjI) (rule sampleEvents, auto)

section \<open>Accounting\<close>

definition statTotal :: "processStats \<Rightarrow> nat" where
  "statTotal st = st_updated st + st_skipped st + st_failed st"

lemma statTotal_simps [simp]:
  "statTotal noStats = 0" "statTotal (incUpdated st) = Suc (statTotal st)" "statTotal (incSkipped st) = Suc (statTotal st)"
  "statTotal (incFailed k st) = statTotal st + k"
  by (simp_all add: statTotal_def noStats_def incUpdated_def incSkipped_def incFailed_def)

text \<open>
  What can make the first pass stop before its last leaf, besides the context: a revert that says that the
  root is gone. \<open>rootStays\<close> excludes it for the calls on the contract. The errors of the database are never
  reverts.
\<close>

definition rootStays :: "nat \<Rightarrow> 'w contractClient \<Rightarrow> u64 \<Rightarrow> bool" where
  "rootStays fuel c blockNum \<longleftrightarrow>
     (\<forall>owner ids cl w e w'. GetClusterEffectiveBalance c owner ids cl w = (Inl e, w') \<longrightarrow> outcomeOf (Inl e) \<noteq> RootGone) \<and>
     (\<forall>owner ids cl eb proof w rcpt e w'.
        UpdateClusterBalance fuel c blockNum owner ids cl eb proof w = Some ((rcpt, Some e), w') \<longrightarrow>
        outcomeOf (Inl e) \<noteq> RootGone)"

definition sqlErrors :: "store \<Rightarrow> bool" where
  "sqlErrors s \<longleftrightarrow> (\<forall>e. Some e \<in> set (faults s) \<longrightarrow> revertReason e = None)"

lemma outcomeOf_wrapped [simp]: "outcomeOf (Inl (Wrap p e)) = outcomeOf (Inl e)"
  by (simp add: outcomeOf_def)

lemma outcomeOf_noRevert: "revertReason e = None \<Longrightarrow> outcomeOf (Inl e) = Failed"
  by (simp add: outcomeOf_def)

lemma storageLookup_errors:
  assumes "storageLookup cid s = (r, s')" "sqlErrors s"
  shows "sqlErrors s'" "r = Inl e \<Longrightarrow> revertReason e = None"
  using assms
  by (auto simp: storageLookup_def GetCluster_def wrapS_def query_def stmt_def sqlErrors_def
      split: list.splits option.splits sum.splits prod.splits)

lemma rootStays_D:
  assumes "rootStays fuel c blockNum"
  shows "GetClusterEffectiveBalance c owner ids cl w = (Inl e, w') \<Longrightarrow> outcomeOf (Inl e) \<noteq> RootGone"
    "UpdateClusterBalance fuel c blockNum owner ids cl eb proof w = Some ((rcpt, Some e), w') \<Longrightarrow>
      outcomeOf (Inl e) \<noteq> RootGone"
  using assms unfolding rootStays_def by blast+

lemma processCluster_root:
  assumes "rootStays fuel c b" "sqlErrors (fst x)" "processCluster fuel c b t storageLookup lf x = Some (r, x')"
  shows "outcomeOf r \<noteq> RootGone \<and> sqlErrors (fst x')"
proof -
  obtain a s1 where l: "storageLookup (Leaf_ClusterID lf) (fst x) = (a, s1)" by fastforce
  note q = storageLookup_errors [OF l assms(2)]
  have proof_err: "revertReason e = None" if "GetProof t cid = Some (Inl e)" for cid e
    using that by (auto simp: GetProof_def split: option.splits if_splits)
  show ?thesis
    using assms(3) l q
    by (auto simp: processCluster_def wrapS_def Let_def outcomeOf_noRevert proof_err outcomeOf_def [of "Inr _"]
        dest: rootStays_D [OF assms(1)] split: sum.splits option.splits prod.splits if_splits)
qed

lemma clustersLoop_total:
  "clustersLoop fuel c b t storageLookup lfs st stale x = Some ((st', stale'), x') \<Longrightarrow>
   statTotal st' + length stale' \<le> statTotal st + length stale + length lfs \<and>
   ((\<forall>w. \<not> ctxDone (clock (txManagerOf c)) w) \<longrightarrow> rootStays fuel c b \<longrightarrow> sqlErrors (fst x) \<longrightarrow>
    statTotal st' + length stale' = statTotal st + length stale + length lfs)"
proof (induction lfs arbitrary: st stale x)
  case (Cons lf lfs)
  show ?case
  proof (cases "ctxDone (clock (txManagerOf c)) (snd x)")
    case True
    with Cons.prems show ?thesis by auto
  next
    case False
    with Cons.prems obtain r x1 where p: "processCluster fuel c b t storageLookup lf x = Some (r, x1)"
      by (auto split: option.splits)
    show ?thesis
    proof (cases "outcomeOf r = RootGone")
      case True
      then have "\<not> (rootStays fuel c b \<and> sqlErrors (fst x))" using processCluster_root p by blast
      moreover have "st' = incSkipped st" "stale' = []" using True Cons.prems False p by simp_all
      then have "statTotal st' + length stale' \<le> statTotal st + length stale + length (lf # lfs)" by simp
      ultimately show ?thesis by blast
    next
      case go: False
      obtain st1 stale1 where n: "clustersLoop fuel c b t storageLookup lfs st1 stale1 x1 = Some ((st', stale'), x')"
        "statTotal st1 + length stale1 = Suc (statTotal st + length stale)"
        using Cons.prems False p go by (cases "outcomeOf r") force+
      have "sqlErrors (fst x1)" if "rootStays fuel c b" "sqlErrors (fst x)" using processCluster_root [OF that p] by simp
      with Cons.IH [OF n(1)] n(2) show ?thesis by auto
    qed
  qed
qed simp

lemma staleLoop_total:
  "staleLoop fuel c b t lookup lfs st x = Some (st', x') \<Longrightarrow>
   statTotal st' \<le> statTotal st + length lfs \<and>
   ((\<forall>w. \<not> ctxDone (clock (txManagerOf c)) w) \<longrightarrow> statTotal st' = statTotal st + length lfs)"
proof (induction lfs arbitrary: st x)
  case (Cons lf lfs)
  show ?case
  proof (cases "ctxDone (clock (txManagerOf c)) (snd x)")
    case True
    with Cons.prems show ?thesis by auto
  next
    case False
    with Cons.prems obtain r x1 where p: "processCluster fuel c b t lookup lf x = Some (r, x1)"
      by (auto split: option.splits)
    obtain st1 where n: "staleLoop fuel c b t lookup lfs st1 x1 = Some (st', x')" "statTotal st1 = Suc (statTotal st)"
      using Cons.prems False p by (cases r) (auto split: if_splits)
    from Cons.IH [OF n(1)] n(2) show ?thesis by simp
  qed
qed simp

text \<open>C19: every cluster of a commit is accounted for. The numbers of updated, skipped and failed
  clusters of a processed commit never add up to more than the clusters of the commit, the
  stale ones counted once although they are tried twice; and they add up to exactly that
  number if the context is not cancelled and the contract does not report meanwhile that the root is gone, whatever
  else fails: lookups, calls and transactions, reverts, or the overlay of the second pass.\<close>

theorem commit_accounted:
  assumes "pack_ok (up_pack u)" "\<And>m. mset (up_mapOrder u m) = mset m"
    "processCommit fuel u cm (s, bs, w) = Some (Inr st, x')"
  shows "statTotal st \<le> length (balanceMapOf (Commit_ClusterBalances cm)) \<and>
    ((\<forall>w. \<not> ctxDone (clock (txManagerOf (up_contract u))) w) \<longrightarrow>
     rootStays fuel (up_contract u) (Commit_ReferenceBlock cm) \<longrightarrow> sqlErrors s \<longrightarrow>
     statTotal st = length (balanceMapOf (Commit_ClusterBalances cm)))"
proof (cases "Commit_ClusterBalances cm = []")
  case True
  then show ?thesis using assms(3) by (auto simp: processCommit_def balanceMapOf_def)
next
  case False
  let ?m = "up_mapOrder u (balanceMapOf (Commit_ClusterBalances cm))"
  obtain t where t: "buildTree (keccakOf (up_syncer u)) (up_pack u) (up_mapOrder u) (Commit_ClusterBalances cm) = Some t"
    and root: "Tree_Root t = Commit_MerkleRoot cm"
    using assms(3) False by (auto simp: processCommit_def split: option.splits if_splits)
  obtain st1 stale s1 w1 where
    a: "processAllClusters fuel (up_contract u) (Commit_ReferenceBlock cm) t storageLookup (s, w) = Some ((st1, stale), s1, w1)"
    and b: "processStale fuel u (Commit_ReferenceBlock cm) t stale st1 (s1, bs, w1) = Some (st, x')"
    using assms(3) False t root by (auto simp: processCommit_def split: option.splits)
  have "wfClusters ?m" using balanceMapOf_wf assms(2) wfClusters_perm by metis
  from NewTree_leaves [OF assms(1) this] t have "length (Leaves t) = length (balanceMapOf (Commit_ClusterBalances cm))"
    using mset_eq_length [OF assms(2)] by (simp add: buildTree_def Leaves_def)
  moreover have "statTotal st \<le> statTotal st1 + length stale \<and>
      ((\<forall>w. \<not> ctxDone (clock (txManagerOf (up_contract u))) w) \<longrightarrow> statTotal st = statTotal st1 + length stale)"
    using b unfolding processStale_def
    by (auto split: if_splits option.splits prod.splits sum.splits dest!: staleLoop_total)
  ultimately show ?thesis
    using clustersLoop_total [OF a [unfolded processAllClusters_def]] by fastforce
qed

lemma sampleContract_root: "rootStays 1 sampleContract b"
proof -
  have "GetClusterEffectiveBalance sampleContract owner ids cl w = (Inr 0, w)" for owner ids cl w
    by (simp add: GetClusterEffectiveBalance_def callEffectiveBalance_def abiResult_def opS_simps sampleContract_def)
  moreover have "\<exists>rcpt. UpdateClusterBalance 1 sampleContract b owner ids cl eb pf w = Some ((Some rcpt, None), w)"
    for owner ids cl eb pf w
    by (simp add: UpdateClusterBalance_def SendTransaction_def estimateGas_def quickManager_def
        sampleContract_def opS_simps suggestGasFees_def samplePolicy_def minTipCap_def gweiWei_def
        MaxFeePerGasWei_def capFees_def buildAndSignTx_def sendWait_def waitForReceipt_def handleReceipt_def
        sampleTimer_def)
  ultimately show ?thesis unfolding rootStays_def by (metis Inl_Inr_False option.distinct(1) option.inject prod.inject)
qed

theorem commit_accounted_witness:
  "\<exists>st x'. processCommit 1 sampleUpdater sampleCommit (sampleRows, NewAdaptiveBatchSize 2 2, 0) = Some (Inr st, x') \<and>
     statTotal st = length (balanceMapOf (Commit_ClusterBalances sampleCommit)) \<and> st_updated st = 1"
proof -
  have f: "faults sampleRows = []" by (simp add: sampleRows_def toyStore_def)
  have p: "processCommit 1 sampleUpdater sampleCommit (sampleRows, NewAdaptiveBatchSize 2 2, 0) =
      Some (Inr \<lparr>st_updated = 1, st_skipped = 0, st_failed = 0\<rparr>, sampleRows, NewAdaptiveBatchSize 2 2, 0)"
    by (rule sampleProcess) (simp_all add: f)
  have "\<not> ctxDone (clock (txManagerOf sampleContract)) w" for w
    by (simp add: sampleContract_def quickManager_def sampleTimer_def)
  then have "statTotal \<lparr>st_updated = 1, st_skipped = 0, st_failed = 0\<rparr> =
      length (balanceMapOf (Commit_ClusterBalances sampleCommit))"
    using commit_accounted [OF _ _ p] sampleContract_root f
    by (simp add: sampleUpdater_fields samplePack_ok sqlErrors_def)
  with p show ?thesis by (intro exI conjI) (rule p, simp_all)
qed

end
