(* ===== verification/Api.thy ===== *)
theory Api
  imports Oracle
begin

text \<open>
  The HTTP API of \<^verbatim>\<open>api/handlers.go\<close> and \<^verbatim>\<open>api/types.go\<close>: the two handlers as functions
  from a request and the storage to a response, and the panic recovery of
  \<^verbatim>\<open>api/api.go\<close>. The JSON encoding and the router are those of the standard library.
\<close>

section \<open>Text forms\<close>

definition toHex :: "bytes \<Rightarrow> string" where
  "toHex b = ''0x'' @ hex b"

definition toHexOrEmpty :: "bytes option \<Rightarrow> string" where
  "toHexOrEmpty b = (case b of None \<Rightarrow> '''' | Some bs \<Rightarrow> if bs = [] then '''' else ''0x'' @ hex bs)"

definition parseClusterID :: "string \<Rightarrow> goerror + bytes" where
  "parseClusterID cid =
     (if length cid \<noteq> 66 \<or> \<not> hasPrefix cid ''0x'' then Inl (ErrNew ''invalid cluster ID format'')
      else case decodeString (drop 2 cid) of
        None \<Rightarrow> Inl (ErrNew ''invalid cluster ID format'')
      | Some decoded \<Rightarrow> Inr (copyTo 32 decoded))"

text \<open>\<open>strconv.ParseUint(s, 10, 64)\<close>: decimal digits, at least one, below \<open>2^64\<close>.\<close>

definition decDigit :: "char \<Rightarrow> nat option" where
  "decDigit c = (let n = of_char c :: nat in if 48 \<le> n \<and> n \<le> 57 then Some (n - 48) else None)"

fun digitsFrom :: "nat \<Rightarrow> string \<Rightarrow> nat option" where
  "digitsFrom acc [] = Some acc"
| "digitsFrom acc (c # cs) =
     (case decDigit c of
        None \<Rightarrow> None
      | Some d \<Rightarrow> if 10 * acc + d < 2 ^ 64 then digitsFrom (10 * acc + d) cs else None)"

definition parseUint :: "string \<Rightarrow> u64 option" where
  "parseUint s = (if s = [] then None else map_option of_nat (digitsFrom 0 s))"

section \<open>Responses\<close>

record ClusterView =
  CV_ClusterID :: string
  CV_EffectiveBalance :: u32
  CV_Hash :: string
  CV_OwnerAddress :: string
  CV_OperatorIDs :: "u64 list"

record ClusterDiff =
  CD_ClusterID :: string
  CD_OldBalance :: u32
  CD_NewBalance :: u32

record ClusterBalanceEntry =
  CE_ClusterID :: string
  CE_Balance :: u32

record CommitDiff =
  Diff_PreviousEpoch :: u64
  Diff_Changed :: "ClusterDiff list"
  Diff_Added :: "ClusterBalanceEntry list"
  Diff_Removed :: "ClusterBalanceEntry list"

record CommitResponse =
  CR_Epoch :: u64
  CR_Status :: CommitStatus
  CR_ReferenceBlock :: u64
  CR_MerkleRoot :: string
  CR_TxHash :: string
  CR_Clusters :: "ClusterView list"
  CR_Layers :: "string list list"
  CR_TotalEffectiveBalance :: u64
  CR_BalanceDiff :: "CommitDiff option"
  CR_PreviousEpoch :: "u64 option"
  CR_NextEpoch :: "u64 option"

record ProofResponse =
  PR_ClusterID :: string
  PR_EffectiveBalance :: u32
  PR_Proof :: "string list"
  PR_MerkleRoot :: string
  PR_ReferenceBlock :: u64

datatype response =
    CommitOK CommitResponse
  | ProofOK ProofResponse
  | ErrorCode nat string

text \<open>The parts of a request that the handlers read; an absent parameter is empty.\<close>

record request =
  Req_epoch :: string
  Req_full :: string
  Req_clusterId :: string

definition internalError :: string where
  "internalError = ''internal error''"

definition errBadEpoch :: goerror where
  "errBadEpoch = ErrNew ''invalid epoch parameter''"

definition errCommitNotFound :: goerror where
  "errCommitNotFound = ErrNew ''no commit found''"

section \<open>Resolving the commit\<close>

definition resolveCommit ::
    "request \<Rightarrow> (store, OracleCommit \<times> u64 option \<times> u64 option) op" where
  "resolveCommit req =
     (if Req_epoch req \<noteq> []
      then case parseUint (Req_epoch req) of
          None \<Rightarrow> failS errBadEpoch
        | Some epoch \<Rightarrow> bindS (wrapS ''get commit by epoch'' (GetCommitByEpoch epoch)) (\<lambda>(cm, prev, next).
            case cm of None \<Rightarrow> failS errCommitNotFound | Some c \<Rightarrow> retS (c, prev, next))
      else bindS (wrapS ''get latest commit'' GetLatestCommit) (\<lambda>cm.
        case cm of
          None \<Rightarrow> failS errCommitNotFound
        | Some c \<Rightarrow> (\<lambda>s.
            case GetCommitByEpoch (Commit_TargetEpoch c) s of
              (Inl _, s') \<Rightarrow> (Inr (c, None, None), s')
            | (Inr (_, prev, next), s') \<Rightarrow> (Inr (c, prev, next), s'))))"

definition handleResolveError :: "goerror \<Rightarrow> response" where
  "handleResolveError err =
     (if errIs err errBadEpoch then ErrorCode 400 (errText err)
      else if errIs err errCommitNotFound then ErrorCode 404 (errText err)
      else ErrorCode 500 internalError)"

section \<open>Balance differences\<close>

definition oldMapOf :: "ClusterBalance list \<Rightarrow> string \<rightharpoonup> u32" where
  "oldMapOf old = foldl (\<lambda>m b. m(hex (CB_ClusterID b) \<mapsto> CB_EffectiveBalance b)) Map.empty old"

definition changedOf :: "(string \<rightharpoonup> u32) \<Rightarrow> ClusterBalance \<Rightarrow> ClusterDiff list" where
  "changedOf oldMap b =
     (case oldMap (hex (CB_ClusterID b)) of
        None \<Rightarrow> []
      | Some oldBal \<Rightarrow> if oldBal \<noteq> CB_EffectiveBalance b
          then [\<lparr>CD_ClusterID = ''0x'' @ hex (CB_ClusterID b), CD_OldBalance = oldBal,
                 CD_NewBalance = CB_EffectiveBalance b\<rparr>] else [])"

definition entryOf :: "ClusterBalance \<Rightarrow> ClusterBalanceEntry" where
  "entryOf b = \<lparr>CE_ClusterID = ''0x'' @ hex (CB_ClusterID b), CE_Balance = CB_EffectiveBalance b\<rparr>"

definition computeDiff :: "u64 \<Rightarrow> ClusterBalance list \<Rightarrow> ClusterBalance list \<Rightarrow> CommitDiff option" where
  "computeDiff prevEp old cur =
     (let oldMap = oldMapOf old;
          curIds = set (map (\<lambda>b. hex (CB_ClusterID b)) cur);
          changed = concat (map (changedOf oldMap) cur);
          added = map entryOf (filter (\<lambda>b. oldMap (hex (CB_ClusterID b)) = None) cur);
          removed = map entryOf (filter (\<lambda>b. hex (CB_ClusterID b) \<notin> curIds) old)
      in if changed = [] \<and> added = [] \<and> removed = [] then None
         else Some \<lparr>Diff_PreviousEpoch = prevEp, Diff_Changed = changed, Diff_Added = added,
                Diff_Removed = removed\<rparr>)"

section \<open>The handlers\<close>

definition rootMatches :: "bytes \<Rightarrow> bytes \<Rightarrow> bool" where
  "rootMatches computed stored \<longleftrightarrow> computed = stored"

definition clusterView :: "(goerror + (string \<rightharpoonup> ClusterInfo)) \<Rightarrow> leaf \<Rightarrow> ClusterView" where
  "clusterView infos lf =
     (let info = (case infos of Inl _ \<Rightarrow> None | Inr m \<Rightarrow> m (hex (Leaf_ClusterID lf))) in
      \<lparr>CV_ClusterID = toHex (Leaf_ClusterID lf), CV_EffectiveBalance = Leaf_EffectiveBalance lf,
       CV_Hash = toHex (Leaf_Hash lf),
       CV_OwnerAddress = (case info of None \<Rightarrow> '''' | Some i \<Rightarrow> toHex (Info_OwnerAddress i)),
       CV_OperatorIDs = (case info of None \<Rightarrow> [] | Some i \<Rightarrow> Info_OperatorIDs i)\<rparr>)"

definition totalBalance :: "ClusterBalance list \<Rightarrow> u64" where
  "totalBalance bals = foldl (\<lambda>tot b. tot + ucast (CB_EffectiveBalance b)) 0 bals"

definition diffToPrevious ::
    "u64 option \<Rightarrow> OracleCommit \<Rightarrow> store \<Rightarrow> CommitDiff option \<times> store" where
  "diffToPrevious prev cm s =
     (case prev of
        None \<Rightarrow> (None, s)
      | Some e \<Rightarrow>
          (case GetCommitByEpoch e s of
             (Inl _, s') \<Rightarrow> (None, s')
           | (Inr (None, _, _), s') \<Rightarrow> (None, s')
           | (Inr (Some p, _, _), s') \<Rightarrow>
               (computeDiff e (Commit_ClusterBalances p) (Commit_ClusterBalances cm), s')))"

text \<open>\<open>None\<close> is a panic in \<open>buildTree\<close> or \<open>GetProof\<close>.\<close>

definition handleGetCommit ::
    "keccak \<Rightarrow> packer \<Rightarrow> (clusterMap \<Rightarrow> clusterMap) \<Rightarrow> request \<Rightarrow> store \<Rightarrow> response option \<times> store" where
  "handleGetCommit kc pk order req s =
     (case resolveCommit req s of
        (Inl err, s1) \<Rightarrow> (Some (handleResolveError err), s1)
      | (Inr (cm, prev, next), s1) \<Rightarrow>
          let resp = \<lparr>CR_Epoch = Commit_TargetEpoch cm, CR_Status = Commit_Status cm,
                CR_ReferenceBlock = Commit_ReferenceBlock cm, CR_MerkleRoot = toHex (Commit_MerkleRoot cm),
                CR_TxHash = toHexOrEmpty (Commit_TxHash cm), CR_Clusters = [], CR_Layers = [],
                CR_TotalEffectiveBalance = 0, CR_BalanceDiff = None, CR_PreviousEpoch = prev,
                CR_NextEpoch = next\<rparr> in
          if toLower (Req_full req) \<noteq> ''true'' then (Some (CommitOK resp), s1)
          else case buildTree kc pk order (Commit_ClusterBalances cm) of
            None \<Rightarrow> (None, s1)
          | Some t \<Rightarrow>
              if \<not> rootMatches (Tree_Root t) (Commit_MerkleRoot cm)
              then (Some (ErrorCode 500 internalError), s1)
              else let (infos, s2) = GetAllClusterInfo s1; (diff, s3) = diffToPrevious prev cm s2 in
                (Some (CommitOK (resp\<lparr>CR_Clusters := map (clusterView infos) (Leaves t),
                    CR_Layers := map (map toHex) (InnerLayers t),
                    CR_TotalEffectiveBalance := totalBalance (Commit_ClusterBalances cm),
                    CR_BalanceDiff := diff\<rparr>)), s3))"

definition balanceOfLeaf :: "leaf list \<Rightarrow> bytes \<Rightarrow> u32" where
  "balanceOfLeaf lfs cid =
     (case find (\<lambda>lf. Leaf_ClusterID lf = cid) lfs of None \<Rightarrow> 0 | Some lf \<Rightarrow> Leaf_EffectiveBalance lf)"

definition handleGetProof ::
    "keccak \<Rightarrow> packer \<Rightarrow> (clusterMap \<Rightarrow> clusterMap) \<Rightarrow> request \<Rightarrow> store \<Rightarrow> response option \<times> store" where
  "handleGetProof kc pk order req s =
     (case parseClusterID (Req_clusterId req) of
        Inl err \<Rightarrow> (Some (ErrorCode 400 ''invalid clusterId format''), s)
      | Inr clusterID \<Rightarrow>
          (case resolveCommit req s of
             (Inl err, s1) \<Rightarrow> (Some (handleResolveError err), s1)
           | (Inr (cm, prev, next), s1) \<Rightarrow>
               (case buildTree kc pk order (Commit_ClusterBalances cm) of
                  None \<Rightarrow> (None, s1)
                | Some t \<Rightarrow>
                    if \<not> rootMatches (Tree_Root t) (Commit_MerkleRoot cm)
                    then (Some (ErrorCode 500 internalError), s1)
                    else (case GetProof t clusterID of
                        None \<Rightarrow> (None, s1)
                      | Some (Inl err) \<Rightarrow> (Some (ErrorCode 404 ''cluster not found''), s1)
                      | Some (Inr pf) \<Rightarrow>
                          (Some (ProofOK \<lparr>PR_ClusterID = toHex clusterID,
                              PR_EffectiveBalance = balanceOfLeaf (Leaves t) clusterID,
                              PR_Proof = map toHex pf, PR_MerkleRoot = toHex (Commit_MerkleRoot cm),
                              PR_ReferenceBlock = Commit_ReferenceBlock cm\<rparr>), s1)))))"

text \<open>\<open>recoveryMiddleware\<close>: a panic becomes an internal error.\<close>

definition recoveryMiddleware :: "response option \<times> store \<Rightarrow> response \<times> store" where
  "recoveryMiddleware r =
     ((case fst r of Some resp \<Rightarrow> resp | None \<Rightarrow> ErrorCode 500 internalError), snd r)"

section \<open>The server\<close>

text \<open>
  A request with the segments of its cleaned path, whether the path ends in a slash (the root
  has no segment and does), and the two query parameters. A response has a status, a content
  type and a body; the server drops the body for \<open>HEAD\<close>.
\<close>

record httpRequest =
  Http_method :: string
  Http_path :: "string list"
  Http_slash :: bool
  Http_epoch :: string
  Http_full :: string

datatype body = JsonBody response | Page string | PlainText string

record httpResponse =
  Http_status :: nat
  Http_contentType :: string
  Http_body :: body

definition statusOf :: "response \<Rightarrow> nat" where
  "statusOf r = (case r of CommitOK _ \<Rightarrow> 200 | ProofOK _ \<Rightarrow> 200 | ErrorCode c _ \<Rightarrow> c)"

text \<open>\<open>http.Error\<close> and what \<open>ServeMux\<close> answers by itself.\<close>

definition plainError :: "nat \<Rightarrow> string \<Rightarrow> httpResponse" where
  "plainError c msg = \<lparr>Http_status = c, Http_contentType = ''text/plain; charset=utf-8'', Http_body = PlainText msg\<rparr>"

text \<open>\<open>handleUI\<close>: the embedded page, if it can be read.\<close>

definition handleUI :: "string option \<Rightarrow> httpResponse" where
  "handleUI page =
     (case page of
        None \<Rightarrow> plainError 500 ''UI not available''
      | Some html \<Rightarrow> \<lparr>Http_status = 200, Http_contentType = ''text/html; charset=utf-8'', Http_body = Page html\<rparr>)"

text \<open>The inner mux with the content type of \<open>contentTypeMiddleware\<close>, which \<open>http.NotFound\<close> replaces.
  A panic in a handler reaches the recovery before anything is written.\<close>

definition serveAPI ::
    "keccak \<Rightarrow> packer \<Rightarrow> (clusterMap \<Rightarrow> clusterMap) \<Rightarrow> httpRequest \<Rightarrow> store \<Rightarrow> httpResponse \<times> store" where
  "serveAPI kc pk order h s =
     (let rest = drop 2 (Http_path h);
          run = (\<lambda>handler cid.
            let (resp, s') = recoveryMiddleware (handler kc pk order
                  \<lparr>Req_epoch = Http_epoch h, Req_full = Http_full h, Req_clusterId = cid\<rparr> s)
            in (\<lparr>Http_status = statusOf resp, Http_contentType = ''application/json'', Http_body = JsonBody resp\<rparr>, s'))
      in if \<not> Http_slash h \<and> rest = [''commit''] then run handleGetCommit []
         else if \<not> Http_slash h \<and> length rest = 2 \<and> rest ! 0 = ''proof'' then run handleGetProof (rest ! 1)
         else (plainError 404 ''404 page not found'', s))"

text \<open>The outer mux of \<open>Run\<close>: both patterns are for \<open>GET\<close>, which includes \<open>HEAD\<close>; the path of
  the subtree without its slash is redirected.\<close>

definition ServeHTTP ::
    "keccak \<Rightarrow> packer \<Rightarrow> (clusterMap \<Rightarrow> clusterMap) \<Rightarrow> string option \<Rightarrow> httpRequest \<Rightarrow> store \<Rightarrow>
     httpResponse \<times> store" where
  "ServeHTTP kc pk order page h s =
     (if Http_method h \<notin> {''GET'', ''HEAD''} then (plainError 405 ''Method Not Allowed'', s)
      else if Http_path h = [''api'', ''v1''] \<and> \<not> Http_slash h
      then (\<lparr>Http_status = 301, Http_contentType = ''text/html; charset=utf-8'', Http_body = Page ''/api/v1/''\<rparr>, s)
      else if take 2 (Http_path h) = [''api'', ''v1''] then serveAPI kc pk order h s
      else (handleUI page, s))"

text \<open>
  The life of the server: \<open>Run\<close> returns when the context is done, after a graceful shutdown
  with its own error if that fails, or when listening has ended, with its error (none if the
  server was closed).
\<close>

datatype serverEnd = CtxDone "goerror option" | ListenEnded "goerror option"

definition serverRun :: "serverEnd \<Rightarrow> goerror option" where
  "serverRun e =
     (case e of
        CtxDone (Some shutdownErr) \<Rightarrow> Some shutdownErr
      | CtxDone None \<Rightarrow> Some CtxErr
      | ListenEnded err \<Rightarrow> err)"

section \<open>Lemmas on text forms\<close>

lemma hexDigit_digitChar: "d < 16 \<Longrightarrow> hexDigit (digitChar d) = Some d"
  by (simp add: hexDigit_def digitChar_def Let_def)

lemma digitChar_hexDigit: "hexDigit c = Some d \<Longrightarrow> d < 16 \<and> digitChar d = toLowerChar c"
proof -
  have c: "char_of (of_char c :: nat) = c" by simp
  assume "hexDigit c = Some d"
  then consider "48 \<le> (of_char c :: nat)" "of_char c \<le> (57 :: nat)" "d = of_char c - 48"
    | "97 \<le> (of_char c :: nat)" "of_char c \<le> (102 :: nat)" "d = of_char c - 87"
    | "65 \<le> (of_char c :: nat)" "of_char c \<le> (70 :: nat)" "d = of_char c - 55"
    by (auto simp: hexDigit_def Let_def split: if_splits)
  then show ?thesis
    using c by cases (auto simp: digitChar_def toLowerChar_def Let_def)
qed

lemma hex_Cons: "hex (b # bs) = digitChar (unat b div 16) # digitChar (unat b mod 16) # hex bs"
  by (simp add: hex_def hexByte_def)

lemma length_hex [simp]: "length (hex bs) = 2 * length bs"
  by (induction bs) (simp_all add: hex_def hexByte_def)

lemma decodeString_hex: "decodeString (hex bs) = Some bs"
proof (induction bs)
  case (Cons b bs)
  have "unat b < 256" using unsigned_less [of b] by simp
  then have "unat b div 16 < 16" "unat b mod 16 < 16" by auto
  then show ?case using Cons by (simp add: hex_Cons hexDigit_digitChar)
qed (simp add: hex_def)

lemma hex_inj: "hex a = hex b \<longleftrightarrow> a = b"
  by (metis decodeString_hex option.inject)

lemma hex_decodeString: "decodeString s = Some bs \<Longrightarrow> hex bs = toLower s \<and> length s = 2 * length bs"
proof (induction s arbitrary: bs rule: decodeString.induct)
  case (3 a b cs)
  then obtain x y rest where xy: "hexDigit a = Some x" "hexDigit b = Some y" "decodeString cs = Some rest"
    and bs: "bs = of_nat (16 * x + y) # rest"
    by (auto split: option.splits)
  have lt: "x < 16" "y < 16" "digitChar x = toLowerChar a" "digitChar y = toLowerChar b"
    using digitChar_hexDigit xy by blast+
  have small: "unat (of_nat n :: u8) = n" if "n < 256" for n
    using that by (simp add: unat_of_nat take_bit_eq_mod)
  have "unat (of_nat (16 * x + y) :: u8) = 16 * x + y" by (rule small) (use lt in simp)
  with lt "3.IH" [OF xy(3)] bs show ?case by (simp add: hex_Cons toLower_def)
qed (auto simp: hex_def toLower_def)

lemma length_0x: "length ''0x'' = 2"
  by simp

section \<open>Properties\<close>

text \<open>Identifiers survive the trip through the API. \<open>parseClusterID\<close> reads back exactly what
  \<open>toHex\<close> writes for a 32-byte identifier, and every text it accepts is, up to the case of its
  letters, what \<open>toHex\<close> writes for the result.\<close>

theorem cluster_id_text_roundtrip:
  "(length cid = 32 \<longrightarrow> parseClusterID (toHex cid) = Inr cid) \<and>
   (parseClusterID str = Inr cid' \<longrightarrow> length cid' = 32 \<and> toHex cid' = toLower str)"
proof -
  have "parseClusterID (toHex cid) = Inr cid" if "length cid = 32"
    using that by (simp add: parseClusterID_def toHex_def hasPrefix_def decodeString_hex)
  moreover have "length cid' = 32 \<and> toHex cid' = toLower str" if p: "parseClusterID str = Inr cid'"
  proof -
    from p obtain bs where t: "length str = 66" "hasPrefix str ''0x''" "decodeString (drop 2 str) = Some bs"
      "cid' = copyTo 32 bs"
      by (auto simp: parseClusterID_def split: if_splits option.splits)
    have len: "length bs = 32" and h: "hex bs = toLower (drop 2 str)"
      using hex_decodeString [OF t(3)] t(1) by auto
    have "str = ''0x'' @ drop 2 str" 
      using t(2) append_take_drop_id [of "length ''0x''" str] unfolding hasPrefix_def by (metis length_0x)
    then have "toLower str = toLower (''0x'' @ drop 2 str)" by (rule arg_cong)
    then have "toLower str = toLower ''0x'' @ toLower (drop 2 str)" unfolding toLower_def map_append .
    also have "toLower ''0x'' = ''0x''" by (simp add: toLower_def toLowerChar_def)
    finally show ?thesis using len h t(4) by (simp add: toHex_def)
  qed
  ultimately show ?thesis by blast
qed

theorem cluster_id_text_roundtrip_witness:
  "parseClusterID (toHex (replicate 32 171)) = Inr (replicate 32 171)"
  using cluster_id_text_roundtrip by simp

section \<open>The proof endpoint\<close>

lemma balanceOfLeaf_found:
  assumes "GetProof t cid = Some (Inr pf)"
  shows "\<exists>lf \<in> set (Leaves t). Leaf_ClusterID lf = cid \<and> Leaf_EffectiveBalance lf = balanceOfLeaf (Leaves t) cid"
proof -
  have "findLeaf t cid \<noteq> None" using assms by (auto simp: GetProof_def split: option.splits)
  then have "find (\<lambda>lf. Leaf_ClusterID lf = cid) (Leaves t) \<noteq> None"
    by (auto simp: findLeaf_def Leaves_def findLeafFrom_None find_None_iff)
  then obtain lf where "find (\<lambda>lf. Leaf_ClusterID lf = cid) (Leaves t) = Some lf" by blast
  moreover from this have "lf \<in> set (Leaves t)" "Leaf_ClusterID lf = cid" by (auto simp: find_Some_iff)
  ultimately show ?thesis by (auto simp: balanceOfLeaf_def)
qed

lemma find_Some_mem: "find P xs = Some c \<Longrightarrow> c \<in> set xs \<and> P c"
  by (induction xs) (auto split: if_splits)

lemma GetCommitByEpoch_Inr:
  assumes "GetCommitByEpoch e s = (Inr (Some cm, prev, next), s')"
  shows "\<exists>c \<in> set (oracle_commits (tbl s)). cm = scanCommit c \<and> target_epoch c = e"
  using assms unfolding GetCommitByEpoch_def wrapS_eq_Inr_iff
  by (auto dest!: query_Inr find_Some_mem split: option.splits)

lemma GetLatestCommit_Inr:
  assumes "GetLatestCommit s = (Inr (Some cm), s')"
  shows "\<exists>c \<in> set (oracle_commits (tbl s)). cm = scanCommit c \<and> status c = CommitStatusConfirmed"
proof -
  let ?cs = "filter (\<lambda>c. status c = CommitStatusConfirmed \<and> cluster_balances c \<noteq> None) (oracle_commits (tbl s))"
  have "map_option scanCommit (latestOf ?cs) = Some cm"
    using assms unfolding GetLatestCommit_def wrapS_eq_Inr_iff 
    by (drule_tac query_Inr) (metis (full_types))
  then obtain c where "latestOf ?cs = Some c" "cm = scanCommit c" by auto
  with latestOf_Some(1) [of ?cs c] show ?thesis by auto
qed

lemma resolveCommit_stored:
  assumes "resolveCommit req s = (Inr (cm, prev, next), s')"
  shows "\<exists>c \<in> set (oracle_commits (tbl s)). cm = scanCommit c \<and>
    (if Req_epoch req = [] then status c = CommitStatusConfirmed
     else parseUint (Req_epoch req) = Some (target_epoch c))"
proof (cases "Req_epoch req = []")
  case True
  then obtain s1 where "GetLatestCommit s = (Inr (Some cm), s1)"
    using assms by (auto simp: resolveCommit_def failS_def elim!: bindS_eq_InrE
      split: option.splits prod.splits sum.splits)
  with True GetLatestCommit_Inr show ?thesis by simp
next
  case False
  then obtain e where e: "parseUint (Req_epoch req) = Some e"
    using assms by (cases "parseUint (Req_epoch req)") (simp_all add: resolveCommit_def failS_def)
  obtain s1 where "GetCommitByEpoch e s = (Inr (Some cm, prev, next), s1)"
    using assms False e by (auto simp: resolveCommit_def failS_def retS_def elim!: bindS_eq_InrE
      split: option.splits prod.splits)
  with False e GetCommitByEpoch_Inr show ?thesis by fastforce
qed

lemma handleResolveError_code: "handleResolveError e \<noteq> ProofOK r" "handleResolveError e \<noteq> CommitOK q"
  by (simp_all add: handleResolveError_def)

text \<open>C23: what the proof endpoint answers can be checked against the chain. A successful answer
  repeats the requested identifier, the root and the reference block of a stored commit (the
  one of the requested epoch, otherwise a confirmed one), the balance that the commit has for
  the cluster, and a proof that leads from the leaf of this identifier and balance to the
  root.\<close>

theorem proof_endpoint_correct:
  assumes "pack_ok pk" "\<And>m. mset (order m) = mset m"
    "handleGetProof kc pk order req s = (Some (ProofOK r), s')"
  shows "\<exists>cid c pf h. parseClusterID (Req_clusterId req) = Inr cid \<and> c \<in> set (oracle_commits (tbl s)) \<and>
    (if Req_epoch req = [] then status c = CommitStatusConfirmed
     else parseUint (Req_epoch req) = Some (target_epoch c)) \<and>
    PR_ClusterID r = toHex cid \<and> PR_Proof r = map toHex pf \<and> PR_MerkleRoot r = toHex (merkle_root c) \<and>
    PR_ReferenceBlock r = reference_block c \<and>
    (\<exists>bals. cluster_balances c = Some bals \<and> (\<exists>b \<in> set bals. copyTo 32 (CB_ClusterID b) = cid \<and>
       CB_EffectiveBalance b = PR_EffectiveBalance r)) \<and>
    HashLeaf kc pk cid (PR_EffectiveBalance r) = Some h \<and> verifyProof kc h pf = merkle_root c"
proof -
  obtain cid cm prev nx t pf where p: "parseClusterID (Req_clusterId req) = Inr cid"
    and res: "resolveCommit req s = (Inr (cm, prev, nx), s')"
    and t: "buildTree kc pk order (Commit_ClusterBalances cm) = Some t" and root: "Tree_Root t = Commit_MerkleRoot cm"
    and pf: "GetProof t cid = Some (Inr pf)"
    and r: "r = \<lparr>PR_ClusterID = toHex cid, PR_EffectiveBalance = balanceOfLeaf (Leaves t) cid,
      PR_Proof = map toHex pf, PR_MerkleRoot = toHex (Commit_MerkleRoot cm),
      PR_ReferenceBlock = Commit_ReferenceBlock cm\<rparr>"
    using assms(3) handleResolveError_code unfolding handleGetProof_def rootMatches_def
    by (auto split: sum.splits prod.splits option.splits if_splits)
  obtain c where c: "c \<in> set (oracle_commits (tbl s))" "cm = scanCommit c"
    "if Req_epoch req = [] then status c = CommitStatusConfirmed
     else parseUint (Req_epoch req) = Some (target_epoch c)"
    using resolveCommit_stored [OF res] by blast
  obtain lf where lf: "lf \<in> set (Leaves t)" "Leaf_ClusterID lf = cid"
    "Leaf_EffectiveBalance lf = balanceOfLeaf (Leaves t) cid" using balanceOfLeaf_found [OF pf] by blast
  obtain b h where b: "b \<in> set (Commit_ClusterBalances cm)" "copyTo 32 (CB_ClusterID b) = cid"
    "CB_EffectiveBalance b = balanceOfLeaf (Leaves t) cid" "HashLeaf kc pk cid (balanceOfLeaf (Leaves t) cid) = Some h"
    "verifyProof kc h pf = Tree_Root t"
    using buildTree_leaves [OF assms(1,2) t lf(1)] lf(2,3) pf by auto
  have "cluster_balances c = Some (Commit_ClusterBalances cm)"
    using b(1) c(2) by (cases "cluster_balances c") (simp_all add: scanCommit_def)
  moreover have "Commit_MerkleRoot cm = merkle_root c" "Commit_ReferenceBlock cm = reference_block c"
    using c(2) by (simp_all add: scanCommit_def)
  ultimately show ?thesis
    using p c b r root by (intro exI [of _ cid] exI [of _ c] exI [of _ pf] exI [of _ h]) auto
qed

definition sampleApiStore :: store where
  "sampleApiStore = \<lparr>tbl = emptyTables\<lparr>oracle_commits :=
     [\<lparr>target_epoch = 150, merkle_root = Leaf_Hash (leafOf toyHash samplePack (toyID, 64)), reference_block = 5,
       cluster_balances = Some [\<lparr>CB_ClusterID = toyID, CB_EffectiveBalance = 64\<rparr>],
       status = CommitStatusConfirmed, tx_hash = None\<rparr>]\<rparr>, faults = []\<rparr>"

definition sampleRequest :: request where
  "sampleRequest = \<lparr>Req_epoch = [], Req_full = [], Req_clusterId = toHex toyID\<rparr>"

lemma toyID_32: "length toyID = 32"
  by (simp add: toyID_def computeClusterID_def toyHash_def)

lemma sampleApiTree:
  "buildTree toyHash samplePack (\<lambda>m. m) [\<lparr>CB_ClusterID = toyID, CB_EffectiveBalance = 64\<rparr>] =
     Some \<lparr>Tree_Root = Leaf_Hash (leafOf toyHash samplePack (toyID, 64)),
       Tree_leaves = [leafOf toyHash samplePack (toyID, 64)], Tree_layers = []\<rparr>"
  using makeLeaves_ok [OF samplePack_ok, of "[(toyID, 64)]" toyHash] toyID_32
  by (simp add: wfClusters_def buildTree_def balanceMapOf_def NewTree_def)

lemma sampleApiProof:
  "handleGetProof toyHash samplePack (\<lambda>m. m) sampleRequest sampleApiStore =
     (Some (ProofOK \<lparr>PR_ClusterID = toHex toyID, PR_EffectiveBalance = 64, PR_Proof = [],
        PR_MerkleRoot = toHex (Leaf_Hash (leafOf toyHash samplePack (toyID, 64))), PR_ReferenceBlock = 5\<rparr>),
      sampleApiStore)"
proof -
  have p: "parseClusterID (toHex toyID) = Inr toyID"
    using toyID_32 by (simp add: parseClusterID_def toHex_def hasPrefix_def decodeString_hex)
  show ?thesis
    by (simp add: handleGetProof_def sampleRequest_def p resolveCommit_def GetLatestCommit_def GetCommitByEpoch_def
        opS_simps sampleApiStore_def latestOf_def scanCommit_def sampleApiTree rootMatches_def GetProof_def
        findLeaf_def balanceOfLeaf_def Leaves_def del: leafOf_simps(3))
qed

theorem proof_endpoint_correct_witness:
  "\<exists>r s' pf h. handleGetProof toyHash samplePack (\<lambda>m. m) sampleRequest sampleApiStore = (Some (ProofOK r), s') \<and>
     PR_Proof r = map toHex pf \<and> HashLeaf toyHash samplePack toyID (PR_EffectiveBalance r) = Some h \<and>
     PR_MerkleRoot r = toHex (verifyProof toyHash h pf)"
proof -
  have p: "parseClusterID (Req_clusterId sampleRequest) = Inr toyID"
    using toyID_32 by (simp add: sampleRequest_def parseClusterID_def toHex_def hasPrefix_def decodeString_hex)
  let ?r = "\<lparr>PR_ClusterID = toHex toyID, PR_EffectiveBalance = 64, PR_Proof = [],
     PR_MerkleRoot = toHex (Leaf_Hash (leafOf toyHash samplePack (toyID, 64))), PR_ReferenceBlock = 5\<rparr>"
  obtain c :: commitRec and pf h where "PR_Proof ?r = map toHex pf" "PR_MerkleRoot ?r = toHex (merkle_root c)"
    "HashLeaf toyHash samplePack toyID (PR_EffectiveBalance ?r) = Some h" "verifyProof toyHash h pf = merkle_root c"
    using proof_endpoint_correct [OF samplePack_ok refl sampleApiProof] unfolding p sum.inject by blast
  then show ?thesis by (intro exI conjI) (rule sampleApiProof, auto)
qed

section \<open>Differences\<close>

text \<open>The balance a list of balances has for a cluster.\<close>

definition balOf :: "ClusterBalance list \<Rightarrow> bytes \<Rightarrow> u32 option" where
  "balOf bals = map_of (map (\<lambda>b. (CB_ClusterID b, CB_EffectiveBalance b)) bals)"

lemma balOf_mem:
  assumes "distinct (map CB_ClusterID bals)"
  shows "balOf bals cid = Some v \<longleftrightarrow> (\<exists>b \<in> set bals. CB_ClusterID b = cid \<and> CB_EffectiveBalance b = v)"
proof -
  have "distinct (map fst (map (\<lambda>b. (CB_ClusterID b, CB_EffectiveBalance b)) bals))"
    using assms by (simp add: comp_def)
  from map_of_eq_Some_iff [OF this] show ?thesis by (auto simp: balOf_def)
qed

lemma balOf_None: "balOf bals cid = None \<longleftrightarrow> cid \<notin> CB_ClusterID ` set bals"
  by (auto simp: balOf_def map_of_eq_None_iff image_image)

lemma oldMapOf_balOf:
  assumes "distinct (map CB_ClusterID bals)"
  shows "oldMapOf bals (hex cid) = balOf bals cid"
  using assms
proof (induction bals rule: rev_induct)
  case Nil
  show ?case by (simp add: oldMapOf_def balOf_def)
next
  case (snoc b bals)
  have "oldMapOf (bals @ [b]) = (oldMapOf bals)(hex (CB_ClusterID b) \<mapsto> CB_EffectiveBalance b)"
    by (simp add: oldMapOf_def)
  moreover have "balOf bals (CB_ClusterID b) = None" using snoc.prems by (auto simp: balOf_None)
  ultimately show ?case using snoc
    by (auto simp: hex_inj balOf_def map_add_def split: option.splits)
qed

text \<open>C24: the difference of two commits is exact. For lists with one balance per cluster,
  \<open>computeDiff\<close> reports as changed exactly the clusters that both have with different
  balances, with the old and the new one, as added exactly those only the current commit has,
  as removed exactly those only the previous one has; and it reports nothing exactly if the
  two agree on every cluster.\<close>

theorem compute_diff_exact:
  assumes "distinct (map CB_ClusterID old)" "distinct (map CB_ClusterID cur)"
  shows "(computeDiff e old cur = None \<longleftrightarrow> balOf old = balOf cur) \<and>
    (\<forall>d. computeDiff e old cur = Some d \<longrightarrow> Diff_PreviousEpoch d = e \<and>
      set (Diff_Changed d) = {\<lparr>CD_ClusterID = toHex cid, CD_OldBalance = v, CD_NewBalance = v'\<rparr> | cid v v'.
         balOf old cid = Some v \<and> balOf cur cid = Some v' \<and> v \<noteq> v'} \<and>
      set (Diff_Added d) = {\<lparr>CE_ClusterID = toHex cid, CE_Balance = v\<rparr> | cid v.
         balOf old cid = None \<and> balOf cur cid = Some v} \<and>
      set (Diff_Removed d) = {\<lparr>CE_ClusterID = toHex cid, CE_Balance = v\<rparr> | cid v.
         balOf old cid = Some v \<and> balOf cur cid = None})"
proof -
  let ?ch = "concat (map (changedOf (oldMapOf old)) cur)"
  let ?ad = "map entryOf (filter (\<lambda>b. oldMapOf old (hex (CB_ClusterID b)) = None) cur)"
  let ?rm = "map entryOf (filter (\<lambda>b. hex (CB_ClusterID b) \<notin> set (map (\<lambda>b. hex (CB_ClusterID b)) cur)) old)"
  note om = oldMapOf_balOf [OF assms(1)]
  have ch: "set ?ch = {\<lparr>CD_ClusterID = toHex cid, CD_OldBalance = v, CD_NewBalance = v'\<rparr> | cid v v'.
      balOf old cid = Some v \<and> balOf cur cid = Some v' \<and> v \<noteq> v'}"
    by (auto simp: changedOf_def om toHex_def balOf_mem [OF assms(2)] split: option.splits if_splits) fastforce
  have ad: "set ?ad = {\<lparr>CE_ClusterID = toHex cid, CE_Balance = v\<rparr> | cid v.
      balOf old cid = None \<and> balOf cur cid = Some v}"
    by (auto simp: entryOf_def om toHex_def balOf_mem [OF assms(2)] image_iff)
  have rm: "set ?rm = {\<lparr>CE_ClusterID = toHex cid, CE_Balance = v\<rparr> | cid v.
      balOf old cid = Some v \<and> balOf cur cid = None}"
    by (auto simp: entryOf_def toHex_def hex_inj balOf_mem [OF assms(1)] balOf_None image_iff)
  have empty: "?ch = [] \<and> ?ad = [] \<and> ?rm = [] \<longleftrightarrow> balOf old = balOf cur"
  proof -
    have "?ch = [] \<and> ?ad = [] \<and> ?rm = [] \<longleftrightarrow> set ?ch = {} \<and> set ?ad = {} \<and> set ?rm = {}"
      unfolding set_empty by (rule refl)
    also have "\<dots> \<longleftrightarrow> (\<forall>cid. balOf old cid = balOf cur cid)"
      unfolding ch ad rm by (auto simp: set_eq_iff) (metis option.exhaust)
    finally show ?thesis by (simp add: fun_eq_iff)
  qed
  then show ?thesis
    using ch ad rm by (auto simp: computeDiff_def Let_def simp del: set_concat set_map)
qed

theorem compute_diff_exact_witness:
  "\<exists>d. computeDiff 7 [\<lparr>CB_ClusterID = [1], CB_EffectiveBalance = 32\<rparr>]
      [\<lparr>CB_ClusterID = [1], CB_EffectiveBalance = 64\<rparr>] = Some d \<and>
     \<lparr>CD_ClusterID = toHex [1], CD_OldBalance = 32, CD_NewBalance = 64\<rparr> \<in> set (Diff_Changed d)"
proof -
  let ?old = "[\<lparr>CB_ClusterID = [1], CB_EffectiveBalance = 32\<rparr>]"
  let ?cur = "[\<lparr>CB_ClusterID = [1], CB_EffectiveBalance = 64\<rparr>]"
  have b: "balOf ?old [1] = Some 32" "balOf ?cur [1] = Some 64" by (simp_all add: balOf_def)
  then have "balOf ?old \<noteq> balOf ?cur" by auto
  then obtain d where d: "computeDiff 7 ?old ?cur = Some d" using compute_diff_exact [of ?old ?cur 7] by auto
  then have "set (Diff_Changed d) = {\<lparr>CD_ClusterID = toHex cid, CD_OldBalance = v, CD_NewBalance = v'\<rparr> | cid v v'.
      balOf ?old cid = Some v \<and> balOf ?cur cid = Some v' \<and> v \<noteq> v'}"
    using compute_diff_exact [of ?old ?cur 7] by simp
  with d b show ?thesis by fastforce
qed

end
