(* ===== verification/Wallet.thy ===== *)
theory Wallet
  imports Base
begin

text \<open>
  The signers of \<^verbatim>\<open>wallet/\<close>: choosing one from the configuration, reading the key or the
  password, signing and closing. Key parsing, keystore decryption and the signature itself
  belong to go-ethereum and are parameters, as are the environment and the files. The two
  signer types have the same state and the same three methods, so they share one record.
\<close>

section \<open>Configuration and environment\<close>

record walletConfig =
  Wallet_Type :: string
  PrivateKeyEnv :: string
  KeystorePath :: string
  PasswordEnv :: string
  PasswordFile :: string

text \<open>
  \<open>getenv\<close> gives the empty string for an unset variable. A private key is the secret scalar
  \<open>D\<close>; \<open>hexToECDSA\<close> and \<open>decryptKey\<close> give it, and \<open>pubkeyToAddress\<close> the address.
\<close>

record walletEnv =
  getenv :: "string \<Rightarrow> string"
  readFile :: "string \<Rightarrow> goerror + string"
  hexToECDSA :: "string \<Rightarrow> goerror + int"
  decryptKey :: "string \<Rightarrow> string \<Rightarrow> goerror + (int \<times> bytes)"
  pubkeyToAddress :: "int \<Rightarrow> bytes"

text \<open>A signer; \<open>keyD\<close> is the scalar in the memory of the key, which outlives the pointer \<open>privateKey\<close>.\<close>

record signer =
  privateKey :: "int option"
  keyD :: int
  address :: bytes

section \<open>Creation\<close>

definition quote :: "string \<Rightarrow> string" where
  "quote s = [CHR 0x22] @ s @ [CHR 0x22]"

definition trimPrefix :: "string \<Rightarrow> string \<Rightarrow> string" where
  "trimPrefix s p = (if hasPrefix s p then drop (length p) s else s)"

definition newEnvSigner :: "walletEnv \<Rightarrow> string \<Rightarrow> goerror + signer" where
  "newEnvSigner env envVarName =
     (if envVarName = [] then Inl (ErrNew ''environment variable name cannot be empty'')
      else let keyHex = getenv env envVarName in
        if keyHex = []
        then Inl (ErrNew (''environment variable '' @ envVarName @ '' is not set or empty''))
        else case hexToECDSA env (trimPrefix keyHex ''0x'') of
          Inl err \<Rightarrow> Inl (Wrap (''parse private key from '' @ envVarName) err)
        | Inr d \<Rightarrow> Inr \<lparr>privateKey = Some d, keyD = d, address = pubkeyToAddress env d\<rparr>)"

text \<open>\<open>strings.TrimRight(s, \"\\r\\n\")\<close>.\<close>

definition trimNewlines :: "string \<Rightarrow> string" where
  "trimNewlines s = rev (dropWhile (\<lambda>c. c = CHR 0x0D \<or> c = CHR 0x0A) (rev s))"

definition readPassword :: "walletEnv \<Rightarrow> string \<Rightarrow> string \<Rightarrow> goerror + string" where
  "readPassword env passwordEnv passwordFile =
     (if passwordFile \<noteq> [] then
        (case readFile env passwordFile of
           Inl err \<Rightarrow> Inl (Wrap ''read password file'' err)
         | Inr content \<Rightarrow> Inr (trimNewlines content))
      else if passwordEnv \<noteq> [] then
        (let password = getenv env passwordEnv in
         if password = []
         then Inl (ErrNew (''environment variable '' @ passwordEnv @ '' is not set or empty''))
         else Inr password)
      else Inl (ErrNew ''no password source provided: set password_file or password_env''))"

definition newKeystoreSigner :: "walletEnv \<Rightarrow> string \<Rightarrow> string \<Rightarrow> string \<Rightarrow> goerror + signer" where
  "newKeystoreSigner env keystorePath passwordEnv passwordFile =
     (if keystorePath = [] then Inl (ErrNew ''keystore path cannot be empty'')
      else case readPassword env passwordEnv passwordFile of
        Inl err \<Rightarrow> Inl (Wrap ''read password'' err)
      | Inr password \<Rightarrow>
          (case readFile env keystorePath of
             Inl err \<Rightarrow> Inl (Wrap ''read keystore file'' err)
           | Inr keyjson \<Rightarrow>
               (case decryptKey env keyjson password of
                  Inl err \<Rightarrow> Inl (Wrap ''decrypt keystore'' err)
                | Inr (d, addr) \<Rightarrow> Inr \<lparr>privateKey = Some d, keyD = d, address = addr\<rparr>)))"

definition typeEnv :: string where "typeEnv = ''env''"

definition typeKeystore :: string where "typeKeystore = ''keystore''"

text \<open>A nil configuration is \<open>None\<close>.\<close>

definition NewSigner :: "walletEnv \<Rightarrow> walletConfig option \<Rightarrow> goerror + signer" where
  "NewSigner env ocfg =
     (case ocfg of
        None \<Rightarrow> Inl (ErrNew ''wallet config is nil'')
      | Some cfg \<Rightarrow>
          if Wallet_Type cfg = typeEnv then
            (if PrivateKeyEnv cfg = [] then Inl (ErrNew ''private_key_env is required for env signer'')
             else newEnvSigner env (PrivateKeyEnv cfg))
          else if Wallet_Type cfg = typeKeystore then
            (if KeystorePath cfg = [] then Inl (ErrNew ''keystore_path is required for keystore signer'')
             else if PasswordEnv cfg = [] \<and> PasswordFile cfg = []
             then Inl (ErrNew ''password_env or password_file is required for keystore signer'')
             else newKeystoreSigner env (KeystorePath cfg) (PasswordEnv cfg) (PasswordFile cfg))
          else if Wallet_Type cfg = []
          then Inl (ErrNew (''wallet type is required: set to '' @ quote typeEnv @ '' or '' @ quote typeKeystore))
          else Inl (ErrNew (''unsupported wallet type: '' @ quote (Wallet_Type cfg) @ '' (use '' @
                 quote typeEnv @ '' or '' @ quote typeKeystore @ '')'')))"

section \<open>Signing and closing\<close>

text \<open>\<open>types.SignTx\<close> with the signer of a chain is the parameter \<open>sign\<close>; a nil chain is
  \<open>None\<close>.\<close>

definition Sign :: "(int \<Rightarrow> int \<Rightarrow> 'tx \<Rightarrow> goerror + 'tx) \<Rightarrow> signer \<Rightarrow> 'tx \<Rightarrow> int option \<Rightarrow> goerror + 'tx" where
  "Sign sign s tx chainID =
     (case privateKey s of
        None \<Rightarrow> Inl (ErrNew ''signer is closed'')
      | Some d \<Rightarrow>
          (case chainID of
             None \<Rightarrow> Inl (ErrNew ''chainID is required (EIP-155 replay protection)'')
           | Some c \<Rightarrow>
               if c = 0 then Inl (ErrNew ''chainID is required (EIP-155 replay protection)'')
               else sign c d tx))"

text \<open>\<open>Close\<close> overwrites the scalar of the key, if there is one, and drops the key.\<close>

definition Close :: "signer \<Rightarrow> signer" where
  "Close s = s\<lparr>keyD := (if privateKey s \<noteq> None then 0 else keyD s), privateKey := None\<rparr>"

section \<open>Properties\<close>

text \<open>Where the key of a new signer can come from: the two sources of the configuration.\<close>

definition keySource :: "walletEnv \<Rightarrow> walletConfig \<Rightarrow> goerror + int" where
  "keySource env cfg =
     (if Wallet_Type cfg = typeEnv then hexToECDSA env (trimPrefix (getenv env (PrivateKeyEnv cfg)) ''0x'')
      else case readFile env (KeystorePath cfg) of
        Inl e \<Rightarrow> Inl e
      | Inr keyjson \<Rightarrow>
          (case readPassword env (PasswordEnv cfg) (PasswordFile cfg) of
             Inl e \<Rightarrow> Inl e
           | Inr password \<Rightarrow> map_sum id fst (decryptKey env keyjson password)))"

lemma typeEnv_neq [simp]: "typeKeystore \<noteq> typeEnv" "typeEnv \<noteq> typeKeystore"
  by (simp_all add: typeEnv_def typeKeystore_def)

lemma NewSigner_source:
  "NewSigner env (Some cfg) = Inr s \<Longrightarrow> \<exists>d. keySource env cfg = Inr d \<and> privateKey s = Some d"
  by (auto simp: NewSigner_def newEnvSigner_def newKeystoreSigner_def keySource_def Let_def
      split: if_splits sum.splits prod.splits)

text \<open>C33: a signer made from a configuration holds the key of the source the configuration
  names, signs exactly when the chain id is present and not zero, with that key and for
  that chain, and after \<open>Close\<close> refuses every transaction and holds no scalar of the key in its memory.\<close>

theorem signer_guarded:
  assumes "NewSigner env (Some cfg) = Inr s"
  shows "\<exists>d. keySource env cfg = Inr d \<and>
     (\<forall>tx c. Sign sign s tx c =
        (if c = None \<or> c = Some 0 then Inl (ErrNew ''chainID is required (EIP-155 replay protection)'')
         else sign (the c) d tx)) \<and>
     (\<forall>tx c. Sign sign (Close s) tx c = Inl (ErrNew ''signer is closed'')) \<and> keyD (Close s) = 0"
proof -
  obtain d where "keySource env cfg = Inr d" "privateKey s = Some d"
    using NewSigner_source [OF assms] by blast
  then show ?thesis by (intro exI [of _ d]) (auto simp: Sign_def Close_def split: option.splits)
qed

definition sampleEnv :: walletEnv where
  "sampleEnv = \<lparr>getenv = (\<lambda>v. if v = ''PW'' then ''secret'' else if v = ''KEY'' then ''0x07'' else []),
     readFile = (\<lambda>p. if p = ''ks.json'' then Inr ''{}'' else Inl (LibErr ''no such file'')),
     hexToECDSA = (\<lambda>h. if h = ''07'' then Inr 7 else Inl (LibErr ''invalid hex'')),
     decryptKey = (\<lambda>j p. if p = ''secret'' then Inr (9, [9]) else Inl (LibErr ''could not decrypt'')),
     pubkeyToAddress = (\<lambda>d. [word_of_int d])\<rparr>"

definition sampleWallet :: walletConfig where
  "sampleWallet = \<lparr>Wallet_Type = ''keystore'', PrivateKeyEnv = [], KeystorePath = ''ks.json'',
     PasswordEnv = ''PW'', PasswordFile = []\<rparr>"

theorem signer_guarded_witness:
  "\<exists>s. NewSigner sampleEnv (Some sampleWallet) = Inr s \<and>
     Sign (\<lambda>c d tx. Inr (tx + c * d)) s 100 (Some 5) = Inr 145 \<and>
     Sign (\<lambda>c d tx. Inr (tx + c * d)) (Close s) 100 (Some 5) = Inl (ErrNew ''signer is closed'')"
proof -
  have n: "NewSigner sampleEnv (Some sampleWallet) = Inr \<lparr>privateKey = Some 9, keyD = 9, address = [9]\<rparr>" by code_simp
  have k: "keySource sampleEnv sampleWallet = Inr 9" by code_simp
  show ?thesis
    using signer_guarded [OF n, where sign = "\<lambda>c d tx. Inr (tx + c * d)"] n k by auto
qed

end
