(* ===== verification/Config.thy ===== *)
theory Config
  imports Oracle Wallet
begin

text \<open>
  The configuration of \<^verbatim>\<open>cmd/oracle/commands/config.go\<close> and the check of the chain in
  \<^verbatim>\<open>cmd/oracle/commands/run.go\<close>. Parsing a URL, the log level of zap and the address
  functions of go-ethereum are parameters. The sequence of checks that
  \<^verbatim>\<open>run\<close> makes on the database before any service starts is \<open>openState\<close>.
\<close>

section \<open>Configuration\<close>

record config =
  LogLevel :: string
  EthRPC :: string
  EthWSRPC :: string
  BeaconURL :: string
  MEVRPCs :: string
  SSVContract :: string
  SSVViewsContract :: string
  SSVContractDeployBlock :: u64
  MaxSyncBatchSize :: u64
  DBPath :: string
  APIAddress :: string
  MetricsAddress :: string
  WalletOf :: walletConfig
  TxPolicyOf :: TxPolicy
  ScheduleOf :: CommitSchedule

text \<open>\<open>parseURL\<close> gives the scheme and the host, or fails.\<close>

record textLib =
  parseURL :: "string \<Rightarrow> (string \<times> string) option"
  isLevel :: "string \<Rightarrow> bool"
  isHexAddress :: "string \<Rightarrow> bool"
  hexToAddress :: "string \<Rightarrow> bytes"

text \<open>\<open>strings.Split(s, \",\")\<close>.\<close>

fun splitFrom :: "string \<Rightarrow> string \<Rightarrow> string list" where
  "splitFrom acc [] = [acc]"
| "splitFrom acc (c # cs) = (if c = CHR '','' then acc # splitFrom [] cs else splitFrom (acc @ [c]) cs)"

definition getMEVRPCs :: "config \<Rightarrow> string list" where
  "getMEVRPCs c =
     (if MEVRPCs c = [] then []
      else filter (\<lambda>s. s \<noteq> []) (map trimSpace (splitFrom [] (MEVRPCs c))))"

definition validateAddress :: "textLib \<Rightarrow> string \<Rightarrow> string \<Rightarrow> goerror option" where
  "validateAddress lib raw name =
     (let addr = trimSpace raw in
      if addr = [] then Some (ErrNew (name @ '' is required''))
      else if \<not> isHexAddress lib addr then Some (ErrNew (''invalid '' @ name @ '' address: '' @ addr))
      else if hexToAddress lib addr = replicate 20 0 then Some (ErrNew (name @ '' cannot be zero address''))
      else None)"

fun joinWith :: "string \<Rightarrow> string list \<Rightarrow> string" where
  "joinWith sep [] = []"
| "joinWith sep [s] = s"
| "joinWith sep (s # t # ss) = s @ sep @ joinWith sep (t # ss)"

definition validateURL :: "textLib \<Rightarrow> string \<Rightarrow> string \<Rightarrow> string list \<Rightarrow> goerror option" where
  "validateURL lib raw name schemes =
     (let value = trimSpace raw in
      if value = [] then Some (ErrNew (name @ '' is required''))
      else case parseURL lib value of
        None \<Rightarrow> Some (ErrNew (''invalid '' @ name @ '' url: '' @ value))
      | Some (scheme, host) \<Rightarrow>
          if scheme = [] \<or> host = [] then Some (ErrNew (''invalid '' @ name @ '' url: '' @ value))
          else if schemes = [] then None
          else if toLower scheme \<in> set (map toLower schemes) then None
          else Some (ErrNew (''invalid '' @ name @ '' scheme: '' @ scheme @ '' (allowed: '' @
                 joinWith '', '' schemes @ '')'')))"

definition scheduleErrText :: "scheduleError \<Rightarrow> string" where
  "scheduleErrText e =
     (case e of
        NoPhase \<Rightarrow> ''commit_phases: at least one phase required''
      | ZeroInterval \<Rightarrow> ''commit_phases: interval must be > 0''
      | NotAscending \<Rightarrow> ''commit_phases: phases must be sorted by start_epoch ascending''
      | NotAligned \<Rightarrow> ''commit_phases: start_epoch must align with previous phase interval'')"

definition errsOf :: "goerror option \<Rightarrow> goerror list" where
  "errsOf e = (case e of None \<Rightarrow> [] | Some x \<Rightarrow> [x])"

text \<open>The loop over the MEV endpoints, with those already seen and the index.\<close>

fun mevErrs :: "textLib \<Rightarrow> string list \<Rightarrow> nat \<Rightarrow> string list \<Rightarrow> goerror list" where
  "mevErrs lib seen i [] = []"
| "mevErrs lib seen i (r # rs) =
     (if r \<in> set seen then [ErrNew (''duplicate mev_rpcs entry: '' @ r)] else []) @
     errsOf (validateURL lib r (''mev_rpcs['' @ dec i @ '']'') [''http'', ''https'']) @
     mevErrs lib (r # seen) (Suc i) rs"

text \<open>\<open>validate\<close>: it trims two fields in place and returns all errors joined, here as a list
  (\<open>nil\<close> is the empty one).\<close>

definition validate :: "textLib \<Rightarrow> bool \<Rightarrow> config \<Rightarrow> config \<times> goerror list" where
  "validate lib withUpdater c0 =
     (let c = c0\<lparr>DBPath := trimSpace (DBPath c0), LogLevel := trimSpace (LogLevel c0)\<rparr> in
      (c, (if LogLevel c \<noteq> [] \<and> \<not> isLevel lib (toLower (LogLevel c))
           then [ErrNew (''invalid log_level '' @ LogLevel c @ '': must be debug, info, warn, or error'')] else []) @
          errsOf (validateURL lib (EthRPC c) ''eth_rpc'' [''http'', ''https'']) @
          errsOf (validateURL lib (BeaconURL c) ''beacon_url'' [''http'', ''https'']) @
          errsOf (validateAddress lib (SSVContract c) ''ssv_contract'') @
          errsOf (validateAddress lib (SSVViewsContract c) ''ssv_views_contract'') @
          (if SSVContractDeployBlock c = 0 then [ErrNew ''ssv_contract_deploy_block is required''] else []) @
          (case Validate (ScheduleOf c) of None \<Rightarrow> []
             | Some e \<Rightarrow> [Wrap ''invalid commit_phases'' (ErrNew (scheduleErrText e))]) @
          (if withUpdater then errsOf (validateURL lib (EthWSRPC c) ''eth_ws_rpc'' [''ws'', ''wss'']) else []) @
          mevErrs lib [] 0 (getMEVRPCs c)))"

definition defaultConfig :: "config \<Rightarrow> config" where
  "defaultConfig c = c\<lparr>DBPath := ''./data/oracle.db'', APIAddress := ''127.0.0.1:8080'',
     MetricsAddress := ''127.0.0.1:9090''\<rparr>"

text \<open>The text of \<open>errors.Join\<close>.\<close>

definition joinErrors :: "goerror list \<Rightarrow> goerror" where
  "joinErrors errs = LibErr (joinWith [CHR 0x0A] (map errText errs))"

text \<open>\<open>loadConfig\<close>: \<open>file\<close> is \<open>os.ReadFile\<close> and \<open>decode\<close> the YAML decoder, which overwrites the
  fields that the file sets in the given configuration.\<close>

definition loadConfig ::
    "textLib \<Rightarrow> (string \<Rightarrow> goerror + string) \<Rightarrow> (string \<Rightarrow> config \<Rightarrow> goerror + config) \<Rightarrow> config \<Rightarrow>
     string \<Rightarrow> bool \<Rightarrow> goerror + config" where
  "loadConfig lib file decode zero path withUpdater =
     (case file path of
        Inl err \<Rightarrow> Inl (Wrap (''read config '' @ path) err)
      | Inr content \<Rightarrow>
          (case decode content (defaultConfig zero) of
             Inl err \<Rightarrow> Inl (Wrap (''parse config '' @ path) err)
           | Inr cfg0 \<Rightarrow>
               (let (cfg, errs) = validate lib withUpdater cfg0 in
                if errs \<noteq> [] then Inl (Wrap ''invalid config'' (joinErrors errs)) else Inr cfg)))"

text \<open>The contract address that \<open>run\<close> gives the syncer and the contract client.\<close>

definition syncerAddress :: "textLib \<Rightarrow> config \<Rightarrow> bytes" where
  "syncerAddress lib cfg = hexToAddress lib (SSVContract cfg)"

section \<open>The chain\<close>

text \<open>\<open>validateChainID\<close>: the chain of the node, against the one the database was filled
  from. \<open>chainID.Uint64()\<close> keeps the low 64 bits.\<close>

definition validateChainID :: "'w execClient \<Rightarrow> store \<times> 'w \<Rightarrow> (goerror + int) \<times> store \<times> 'w" where
  "validateChainID ec x =
     (case wrapS ''get chain ID'' (GetChainIDRpc ec) (snd x) of
        (Inl e, w) \<Rightarrow> (Inl e, fst x, w)
      | (Inr chainID, w) \<Rightarrow>
          (case wrapS ''get chain ID from database'' GetChainID (fst x) of
             (Inl e, s) \<Rightarrow> (Inl e, s, w)
           | (Inr None, s) \<Rightarrow>
               (case wrapS ''store chain ID'' (SetChainID (word_of_int chainID)) s of
                  (Inl e, s') \<Rightarrow> (Inl e, s', w)
                | (Inr _, s') \<Rightarrow> (Inr chainID, s', w))
           | (Inr (Some db), s) \<Rightarrow>
               if db \<noteq> word_of_int chainID
               then (Inl (ErrNew (''chain ID mismatch: database='' @ dec (unat db) @ '', RPC='' @
                      decInt chainID @ '' (use --fresh)'')), s, w)
               else (Inr chainID, s, w)))"

text \<open>The database as \<open>run\<close> prepares it: cleared with \<open>--fresh\<close>, then checked against the chain.\<close>

definition openState :: "bool \<Rightarrow> 'w execClient \<Rightarrow> store \<times> 'w \<Rightarrow> (goerror + int) \<times> store \<times> 'w" where
  "openState freshStart ec x =
     (if freshStart then
        (case wrapS ''clear database'' ClearAllState (fst x) of
           (Inl e, s) \<Rightarrow> (Inl e, s, snd x)
         | (Inr _, s) \<Rightarrow> validateChainID ec (s, snd x))
      else validateChainID ec x)"

section \<open>What validation establishes\<close>

lemma errsOf_Nil [simp]: "errsOf e = [] \<longleftrightarrow> e = None"
  by (cases e) (simp_all add: errsOf_def)

lemma mevErrs_Nil:
  "mevErrs lib seen i rs = [] \<Longrightarrow>
     distinct rs \<and> set rs \<inter> set seen = {} \<and>
     (\<forall>r \<in> set rs. \<exists>name. validateURL lib r name [''http'', ''https''] = None)"
  by (induction lib seen i rs rule: mevErrs.induct) (auto split: if_splits)

text \<open>A URL field that passed: what the parser made of the trimmed text.\<close>

definition urlOK :: "textLib \<Rightarrow> string list \<Rightarrow> string \<Rightarrow> bool" where
  "urlOK lib schemes raw \<longleftrightarrow>
     (\<exists>scheme host. parseURL lib (trimSpace raw) = Some (scheme, host) \<and> host \<noteq> [] \<and>
        toLower scheme \<in> set schemes)"

lemma toLower_schemes [simp]:
  "toLower ''http'' = ''http''" "toLower ''https'' = ''https''" "toLower ''ws'' = ''ws''" "toLower ''wss'' = ''wss''"
  by code_simp+

lemma validateURL_ok:
  "validateURL lib raw name schemes = None \<Longrightarrow> schemes \<noteq> [] \<Longrightarrow> urlOK lib (map toLower schemes) raw"
  by (auto simp: validateURL_def urlOK_def Let_def split: if_splits option.splits)

lemma validate_accepts:
  assumes "validate lib u c0 = (c, [])"
  shows "c = c0\<lparr>DBPath := trimSpace (DBPath c0), LogLevel := trimSpace (LogLevel c0)\<rparr>"
    "validateURL lib (EthRPC c) ''eth_rpc'' [''http'', ''https''] = None"
    "validateURL lib (BeaconURL c) ''beacon_url'' [''http'', ''https''] = None"
    "validateAddress lib (SSVContract c) ''ssv_contract'' = None"
    "validateAddress lib (SSVViewsContract c) ''ssv_views_contract'' = None"
    "SSVContractDeployBlock c \<noteq> 0" "Validate (ScheduleOf c) = None"
    "u \<Longrightarrow> validateURL lib (EthWSRPC c) ''eth_ws_rpc'' [''ws'', ''wss''] = None"
    "mevErrs lib [] 0 (getMEVRPCs c) = []"
  using assms by (auto simp: validate_def Let_def split: if_splits option.splits)

lemma validateAddress_ok:
  "validateAddress lib raw name = None \<Longrightarrow>
     isHexAddress lib (trimSpace raw) \<and> hexToAddress lib (trimSpace raw) \<noteq> replicate 20 0"
  by (auto simp: validateAddress_def Let_def split: if_splits)

lemma trimSpace_prefix: "list_all isSpaceChar ws \<Longrightarrow> trimSpace (ws @ s) = trimSpace s"
  by (simp add: trimSpace_def dropWhile_append2 list_all_iff)

lemma loadConfig_Inr:
  assumes "loadConfig lib file decode zero path u = Inr cfg"
  obtains cfg0 where "validate lib u cfg0 = (cfg, [])"
  using assms by (auto simp: loadConfig_def Let_def split: sum.splits prod.splits if_splits)

text \<open>C32: a configuration that \<open>loadConfig\<close> returns can run the services: its schedule is valid,
  so that \<open>NextTarget\<close> never panics; the deploy block is set; both contract addresses, once
  trimmed, are hexadecimal and not zero; the endpoints have a host and an allowed scheme, the
  WebSocket one when the updater is enabled; the MEV endpoints are distinct.\<close>

theorem load_config_sound:
  assumes "loadConfig lib file decode zero path u = Inr cfg"
  shows "(\<forall>e. NextTarget (ScheduleOf cfg) e \<noteq> None) \<and> SSVContractDeployBlock cfg \<noteq> 0 \<and>
     (\<forall>a \<in> {SSVContract cfg, SSVViewsContract cfg}.
        isHexAddress lib (trimSpace a) \<and> hexToAddress lib (trimSpace a) \<noteq> replicate 20 0) \<and>
     urlOK lib [''http'', ''https''] (EthRPC cfg) \<and> urlOK lib [''http'', ''https''] (BeaconURL cfg) \<and>
     (u \<longrightarrow> urlOK lib [''ws'', ''wss''] (EthWSRPC cfg)) \<and>
     distinct (getMEVRPCs cfg) \<and> (\<forall>r \<in> set (getMEVRPCs cfg). urlOK lib [''http'', ''https''] r)"
proof -
  obtain cfg0 where v: "validate lib u cfg0 = (cfg, [])" using loadConfig_Inr [OF assms] .
  note a = validate_accepts [OF v]
  have s: "NextTarget (ScheduleOf cfg) e \<noteq> None" for e
    using NextTarget_total [OF a(7)] by simp
  have "urlOK lib [''ws'', ''wss''] (EthWSRPC cfg)" if u
    using validateURL_ok [OF a(8) [OF that]] by simp
  with s a(6) validateAddress_ok [OF a(4)] validateAddress_ok [OF a(5)]
    validateURL_ok [OF a(2)] validateURL_ok [OF a(3)] mevErrs_Nil [OF a(9)]
  show ?thesis by (auto dest!: bspec validateURL_ok)
qed

text \<open>\<open>validate\<close> checks a trimmed copy of an address but leaves the field as it is, against its
  comment that string fields are trimmed before validation. White space in front of the
  address of an accepted configuration is accepted again, and \<open>run\<close> then gives
  \<open>common.HexToAddress\<close> the text with the white space.\<close>

theorem config_whitespace:
  assumes "validate lib u cfg = (cfg', [])" "list_all isSpaceChar ws"
  shows "\<exists>cfg''. validate lib u (cfg\<lparr>SSVContract := ws @ SSVContract cfg\<rparr>) = (cfg'', []) \<and>
     syncerAddress lib cfg'' = hexToAddress lib (ws @ SSVContract cfg)"
proof -
  let ?c = "cfg\<lparr>SSVContract := ws @ SSVContract cfg\<rparr>"
  have a: "validateAddress lib (ws @ SSVContract cfg) n = validateAddress lib (SSVContract cfg) n" for n
    by (simp add: validateAddress_def trimSpace_prefix assms(2))
  have m: "getMEVRPCs (?c\<lparr>DBPath := d, LogLevel := l\<rparr>) = getMEVRPCs (cfg\<lparr>DBPath := d, LogLevel := l\<rparr>)" for d l
    by (simp add: getMEVRPCs_def)
  have "snd (validate lib u ?c) = snd (validate lib u cfg)"
    by (simp add: validate_def Let_def a m del: config.update_convs)
  moreover have "SSVContract (fst (validate lib u ?c)) = ws @ SSVContract cfg"
    by (simp add: validate_def Let_def)
  ultimately show ?thesis using assms(1)
    by (intro exI [of _ "fst (validate lib u ?c)"]) (auto simp: syncerAddress_def prod_eq_iff)
qed

text \<open>The sample library follows go-ethereum: \<open>HexToAddress\<close> drops a \<open>0x\<close> prefix, pads an odd
  length, decodes up to the first bad pair, and keeps the last 20 bytes, padded on the left.\<close>

fun decodePairs :: "string \<Rightarrow> bytes" where
  "decodePairs (a # b # cs) =
     (case decodeString [a, b] of None \<Rightarrow> [] | Some bs \<Rightarrow> bs @ decodePairs cs)"
| "decodePairs _ = []"

definition strip0x :: "string \<Rightarrow> string" where
  "strip0x s = (if hasPrefix s ''0x'' \<or> hasPrefix s ''0X'' then drop 2 s else s)"

definition sampleLib :: textLib where
  "sampleLib = \<lparr>parseURL = (\<lambda>s. if hasPrefix s ''http://'' then Some (''http'', drop 7 s)
       else if hasPrefix s ''ws://'' then Some (''ws'', drop 5 s) else None),
     isLevel = (\<lambda>s. s \<in> {''debug'', ''info'', ''warn'', ''error''}),
     isHexAddress = (\<lambda>s. length (strip0x s) = 40 \<and> decodeString (strip0x s) \<noteq> None),
     hexToAddress = (\<lambda>s. let h = strip0x s;
         b = decodePairs (if odd (length h) then CHR ''0'' # h else h)
       in replicate (20 - length b) 0 @ drop (length b - 20) b)\<rparr>"

definition sampleConfig :: config where
  "sampleConfig = \<lparr>LogLevel = ''Info '', EthRPC = ''http://el:8545'', EthWSRPC = ''ws://el:8546'',
     BeaconURL = ''http://cl:5052'', MEVRPCs = ''http://a, ,http://b'',
     SSVContract = ''0x00000000000000000000000000000000000000Ab'',
     SSVViewsContract = ''0x00000000000000000000000000000000000000cd'',
     SSVContractDeployBlock = 17, MaxSyncBatchSize = 0, DBPath = '' x.db'', APIAddress = [],
     MetricsAddress = [], WalletOf = sampleWallet, TxPolicyOf = samplePolicy, ScheduleOf = sampleSchedule\<rparr>"

lemma sampleConfig_valid: "snd (validate sampleLib True sampleConfig) = []"
  by code_simp

theorem config_whitespace_witness:
  "\<exists>cfg' cfg''. validate sampleLib True sampleConfig = (cfg', []) \<and>
     validate sampleLib True (sampleConfig\<lparr>SSVContract := '' '' @ SSVContract sampleConfig\<rparr>) = (cfg'', []) \<and>
     syncerAddress sampleLib cfg' = replicate 19 0 @ [0xAB] \<and>
     syncerAddress sampleLib cfg'' = replicate 20 0"
proof -
  obtain cfg' where v: "validate sampleLib True sampleConfig = (cfg', [])"
    using sampleConfig_valid by (metis prod.collapse)
  have "list_all isSpaceChar '' ''" by code_simp
  from config_whitespace [OF v this] obtain cfg'' where
    w: "validate sampleLib True (sampleConfig\<lparr>SSVContract := '' '' @ SSVContract sampleConfig\<rparr>) = (cfg'', [])"
    "syncerAddress sampleLib cfg'' = hexToAddress sampleLib ('' '' @ SSVContract sampleConfig)" by blast
  have "hexToAddress sampleLib ('' '' @ SSVContract sampleConfig) = replicate 20 0" by code_simp
  moreover have "SSVContract cfg' = SSVContract sampleConfig" using validate_accepts(1) [OF v] by simp
  then have "syncerAddress sampleLib cfg' = hexToAddress sampleLib (SSVContract sampleConfig)"
    by (simp add: syncerAddress_def)
  moreover have "hexToAddress sampleLib (SSVContract sampleConfig) = replicate 19 0 @ [0xAB]" by code_simp
  ultimately show ?thesis using v w by metis
qed

theorem load_config_sound_witness:
  "\<exists>cfg. loadConfig sampleLib Inr (\<lambda>_ c. Inr sampleConfig) sampleConfig ''config.yaml'' True = Inr cfg \<and>
     distinct (getMEVRPCs cfg) \<and> NextTarget (ScheduleOf cfg) 3 \<noteq> None"
proof -
  obtain cfg where l: "loadConfig sampleLib Inr (\<lambda>_ c. Inr sampleConfig) sampleConfig ''config.yaml'' True = Inr cfg"
    by (simp add: loadConfig_def Let_def case_prod_beta sampleConfig_valid)
  show ?thesis using load_config_sound [OF l] l by blast
qed

section \<open>The chain of the database\<close>

lemma wrapS_bind: "(case wrapS p m s of (Inl e, s') \<Rightarrow> A e s' | (Inr x, s') \<Rightarrow> B x s') =
    (case m s of (Inl e, s') \<Rightarrow> A (Wrap p e) s' | (Inr x, s') \<Rightarrow> B x s')"
  by (auto simp: wrapS_def split: prod.splits sum.splits)

lemma validateChainID_Inr:
  assumes v: "validateChainID ec (s, w) = (Inr c, s', w')"
  shows "chain_id (tbl s) \<in> {None, Some (word_of_int c)} \<and>
    tbl s' = (tbl s)\<lparr>chain_id := Some (word_of_int c)\<rparr> \<and> GetChainIDRpc ec w = (Inr c, w')"
proof -
  obtain id w1 where r: "GetChainIDRpc ec w = (Inr id, w1)"
    using v unfolding validateChainID_def wrapS_bind by (cases "GetChainIDRpc ec w"; cases "fst (GetChainIDRpc ec w)") auto
  obtain db s1 where q: "query chain_id s = (Inr db, s1)"
    using v r unfolding validateChainID_def GetChainID_def wrapS_bind
    by (cases "query chain_id s"; cases "fst (query chain_id s)") auto
  note d = query_Inr [OF q]
  show ?thesis
  proof (cases db)
    case None
    let ?u = "update (\<lambda>t. t\<lparr>chain_id := Some (word_of_int id)\<rparr>) s1"
    obtain s2 where u: "?u = (Inr (), s2)" "s' = s2" "id = c" "w1 = w'"
      using v r q None unfolding validateChainID_def GetChainID_def SetChainID_def wrapS_bind
      by (cases ?u; cases "fst ?u") auto
    show ?thesis using update_Inr [OF u(1)] u d r None by auto
  next
    case (Some b)
    then have "b = word_of_int id" "s' = s1" "id = c" "w1 = w'"
      using v r q unfolding validateChainID_def GetChainID_def wrapS_bind by (auto split: if_splits)
    with d r Some show ?thesis by auto
  qed
qed

lemma ClearAllState_Inr: "ClearAllState s = (Inr x, s') \<Longrightarrow> tbl s' = emptyTables"
  unfolding ClearAllState_def
  by (auto dest!: withTx_Inr update_Inr elim!: bindS_eq_InrE simp: emptyTables_def)

lemma validateChainID_mismatch:
  assumes v: "validateChainID ec (s, w) = (r, s', w')"
    and r: "GetChainIDRpc ec w = (Inr c, w1)" and d: "chain_id (tbl s) = Some d" "d \<noteq> word_of_int c"
  shows "(\<exists>e. r = Inl e) \<and> tbl s' = tbl s"
proof (cases "query chain_id s")
  case (Pair x s1)
  have t: "tbl s1 = tbl s" by (metis Pair query_tbl snd_conv)
  show ?thesis
  proof (cases x)
    case (Inl e)
    with Pair t v show ?thesis unfolding validateChainID_def GetChainID_def wrapS_bind by (auto simp: r)
  next
    case (Inr db)
    with Pair have "db = Some d" using query_Inr d(1) by metis
    with Pair Inr t v d(2) show ?thesis unfolding validateChainID_def GetChainID_def wrapS_bind by (auto simp: r)
  qed
qed

lemma openState_Inr:
  assumes "openState fresh ec (s, w) = (Inr c, s', w')"
  shows "GetChainIDRpc ec w = (Inr c, w') \<and>
    tbl s' = (if fresh then emptyTables else tbl s)\<lparr>chain_id := Some (word_of_int c)\<rparr>"
proof -
  from assms obtain s1 where v: "validateChainID ec (s1, w) = (Inr c, s', w')"
      "tbl s1 = (if fresh then emptyTables else tbl s)"
    unfolding openState_def wrapS_bind
    by (cases "ClearAllState s"; cases "fst (ClearAllState s)")
       (auto split: if_splits dest: ClearAllState_Inr)
  from validateChainID_Inr [OF v(1)] v(2) show ?thesis by simp
qed

text \<open>The services start only on a database of the node's chain. When the checks at start-up
  succeed with chain \<open>c\<close>, the node reported \<open>c\<close>, the database carries it, and its
  other tables are those it had (none with \<open>--fresh\<close>); without \<open>--fresh\<close> a database of
  another chain is refused and left as it was.\<close>

theorem chain_id_guard:
  assumes "openState fresh ec (s, w) = (r, s', w')"
  shows "(\<forall>c. r = Inr c \<longrightarrow> GetChainIDRpc ec w = (Inr c, w') \<and>
       tbl s' = (if fresh then emptyTables else tbl s)\<lparr>chain_id := Some (word_of_int c)\<rparr>) \<and>
     (\<forall>d c w1. \<not> fresh \<longrightarrow> chain_id (tbl s) = Some d \<longrightarrow> GetChainIDRpc ec w = (Inr c, w1) \<longrightarrow>
       d \<noteq> word_of_int c \<longrightarrow> (\<exists>e. r = Inl e) \<and> tbl s' = tbl s)"
proof (intro conjI allI impI)
  fix c assume "r = Inr c"
  with openState_Inr [of fresh ec s w c s' w'] assms
  show "GetChainIDRpc ec w = (Inr c, w')"
    "tbl s' = (if fresh then emptyTables else tbl s)\<lparr>chain_id := Some (word_of_int c)\<rparr>" by simp_all
next
  fix d c w1 assume a: "\<not> fresh" "chain_id (tbl s) = Some d" "GetChainIDRpc ec w = (Inr c, w1)" "d \<noteq> word_of_int c"
  have v: "validateChainID ec (s, w) = (r, s', w')" using assms a(1) by (simp add: openState_def)
  show "\<exists>e. r = Inl e" "tbl s' = tbl s" using validateChainID_mismatch [OF v a(3,2,4)] by simp_all
qed

lemma sampleClient_chain:
  "GetChainIDRpc (sampleClient\<lparr>chainIDCall := retS c\<rparr>) w = (Inr c, w)"
  by (simp add: GetChainIDRpc_def WithRetry_ok retS_def)

theorem chain_id_guard_witness:
  "\<exists>s. openState False (sampleClient\<lparr>chainIDCall := retS 5\<rparr>) (\<lparr>tbl = emptyTables, faults = []\<rparr>, 0) = (Inr 5, s, 0) \<and>
     chain_id (tbl s) = Some 5 \<and>
     (\<exists>e s' w'. openState False (sampleClient\<lparr>chainIDCall := retS 6\<rparr>) (s, 0) = (Inl e, s', w') \<and> tbl s' = tbl s)"
proof -
  let ?s = "\<lparr>tbl = emptyTables\<lparr>chain_id := Some 5\<rparr>, faults = []\<rparr>"
  have o: "openState False (sampleClient\<lparr>chainIDCall := retS 5\<rparr>) (\<lparr>tbl = emptyTables, faults = []\<rparr>, 0) = (Inr 5, ?s, 0)"
    by (simp add: openState_def validateChainID_def sampleClient_chain GetChainID_def SetChainID_def wrapS_def
        emptyTables_def)
  obtain r s' w' where p: "openState False (sampleClient\<lparr>chainIDCall := retS 6\<rparr>) (?s, 0) = (r, s', w')"
    by (cases "openState False (sampleClient\<lparr>chainIDCall := retS 6\<rparr>) (?s, 0)") auto
  have "(\<exists>e. r = Inl e) \<and> tbl s' = tbl ?s"
    using chain_id_guard [OF p] by (simp add: sampleClient_chain)
  with p have "\<exists>e s' w'. openState False (sampleClient\<lparr>chainIDCall := retS 6\<rparr>) (?s, 0) = (Inl e, s', w') \<and> tbl s' = tbl ?s"
    by blast
  moreover have "chain_id (tbl ?s) = Some 5" using chain_id_guard [OF o] by simp
  ultimately show ?thesis using o by blast
qed

end
