(* ===== verification/Connect.thy ===== *)
theory Connect
  imports Contract
begin

text \<open>
  The connections of the contract client: \<open>New\<close> and \<open>Close\<close> of \<^verbatim>\<open>txmanager/manager.go\<close>,
  \<open>NewClient\<close> and \<open>Close\<close> of \<^verbatim>\<open>contract/client.go\<close> and \<open>SubscribeRootCommitted\<close> of
  \<^verbatim>\<open>contract/events.go\<close>. Dialling and hanging up are go-ethereum's and parameters; a
  connection is a value of an arbitrary type.
\<close>

section \<open>Opening and closing\<close>

text \<open>\<open>connOrder\<close> is the order in which Go visits the values of the map of MEV clients.\<close>

record ('w, 'c) dialLib =
  dial :: "string \<Rightarrow> ('w, 'c) op"
  hangUp :: "'c \<Rightarrow> 'w \<Rightarrow> 'w"
  connOrder :: "'c list \<Rightarrow> 'c list"

definition hangUpAll :: "('w, 'c) dialLib \<Rightarrow> 'c list \<Rightarrow> 'w \<Rightarrow> 'w" where
  "hangUpAll lib cs w = fold (hangUp lib) (connOrder lib cs) w"

text \<open>\<open>mevClients[rpcURL] = mevClient\<close> on the entries of the map.\<close>

fun putClient :: "string \<Rightarrow> 'c \<Rightarrow> (string \<times> 'c) list \<Rightarrow> (string \<times> 'c) list" where
  "putClient url c [] = [(url, c)]"
| "putClient url c ((k, d) # m) = (if k = url then (k, c) # m else (k, d) # putClient url c m)"

fun dialMEV ::
    "('w, 'c) dialLib \<Rightarrow> string list \<Rightarrow> (string \<times> 'c) list \<Rightarrow> ('w, (string \<times> 'c) list) op" where
  "dialMEV lib [] m w = (Inr m, w)"
| "dialMEV lib (url # urls) m w =
     (case dial lib url w of
        (Inl err, w') \<Rightarrow> (Inl (Wrap (''dial MEV RPC '' @ url) err), hangUpAll lib (map snd m) w')
      | (Inr c, w') \<Rightarrow> dialMEV lib urls (putClient url c m) w')"

text \<open>\<open>txmanager.New\<close>: the policy it keeps and the MEV clients. A nil policy is \<open>None\<close>.\<close>

definition NewTxManager ::
    "('w, 'c) dialLib \<Rightarrow> TxPolicy option \<Rightarrow> string list \<Rightarrow> ('w, TxPolicy \<times> (string \<times> 'c) list) op" where
  "NewTxManager lib pol mevRPCs w =
     (case pol of
        None \<Rightarrow> (Inl (ErrNew ''tx policy is required''), w)
      | Some p0 \<Rightarrow>
          (let p = ApplyDefaults p0 in
           case ValidatePolicy p of
             Some err \<Rightarrow> (Inl (Wrap ''invalid tx policy'' err), w)
           | None \<Rightarrow>
               (case dialMEV lib mevRPCs [] w of
                  (Inl err, w') \<Rightarrow> (Inl err, w')
                | (Inr m, w') \<Rightarrow> (Inr (p, m), w'))))"

record clientConfig =
  CC_RPCURL :: string
  CC_WSRPCURL :: string
  CC_ChainID :: "int option"
  CC_Signer :: "bytes option"
  CC_TxPolicy :: "TxPolicy option"
  CC_MEVRPCs :: "string list"

record 'c clientConns =
  ethConn :: 'c
  wsConn :: "'c option"
  mevConns :: "(string \<times> 'c) list"

text \<open>\<open>contract.NewClient\<close>: the connections it holds.\<close>

definition NewClient :: "('w, 'c) dialLib \<Rightarrow> clientConfig \<Rightarrow> ('w, 'c clientConns) op" where
  "NewClient lib cfg w =
     (if CC_ChainID cfg = None then (Inl (ErrNew ''chain ID cannot be nil''), w)
      else if CC_Signer cfg = None then (Inl (ErrNew ''signer cannot be nil''), w)
      else case dial lib (CC_RPCURL cfg) w of
        (Inl err, w1) \<Rightarrow> (Inl (Wrap ''dial RPC'' err), w1)
      | (Inr eth, w1) \<Rightarrow>
          (case NewTxManager lib (CC_TxPolicy cfg) (CC_MEVRPCs cfg) w1 of
             (Inl err, w2) \<Rightarrow> (Inl (Wrap ''create tx manager'' err), hangUp lib eth w2)
           | (Inr (p, mev), w2) \<Rightarrow>
               if CC_WSRPCURL cfg = []
               then (Inr \<lparr>ethConn = eth, wsConn = None, mevConns = mev\<rparr>, w2)
               else (case dial lib (CC_WSRPCURL cfg) w2 of
                   (Inl err, w3) \<Rightarrow> (Inl (Wrap ''dial WebSocket'' err), hangUp lib eth w3)
                 | (Inr ws, w3) \<Rightarrow> (Inr \<lparr>ethConn = eth, wsConn = Some ws, mevConns = mev\<rparr>, w3))))"

definition CloseClient :: "('w, 'c) dialLib \<Rightarrow> 'c clientConns \<Rightarrow> 'w \<Rightarrow> 'w" where
  "CloseClient lib c w =
     (let w1 = hangUp lib (ethConn c) (hangUpAll lib (map snd (mevConns c)) w)
      in case wsConn c of None \<Rightarrow> w1 | Some ws \<Rightarrow> hangUp lib ws w1)"

section \<open>The subscription\<close>

record filterQuery =
  Query_Address :: bytes
  Query_Topic :: bytes
  Query_FromBlock :: "int option"

text \<open>\<open>SubscribeRootCommitted\<close>: \<open>eventID\<close> is the topic of the event in the ABI (\<open>None\<close>
  if it is missing), \<open>subscribe\<close> the call of the WebSocket client with the logs it goes on to
  deliver; the result is what reaches the event channel.\<close>

definition SubscribeRootCommitted ::
    "bytes option \<Rightarrow> ('c \<Rightarrow> filterQuery \<Rightarrow> ('w, (bool \<times> Log) list) op) \<Rightarrow> bytes \<Rightarrow> 'c clientConns \<Rightarrow>
     u64 option \<Rightarrow> ('w, RootCommittedEvent list) op" where
  "SubscribeRootCommitted eventID subscribe addr c fromBlock w =
     (case wsConn c of
        None \<Rightarrow> (Inl (ErrNew ''WebSocket client not configured (set eth_ws_rpc in config)''), w)
      | Some ws \<Rightarrow>
          (case eventID of
             None \<Rightarrow> (Inl (ErrNew ''RootCommitted event not found in ABI''), w)
           | Some topic \<Rightarrow>
               (case wrapS ''subscribe to logs'' (subscribe ws
                   \<lparr>Query_Address = addr, Query_Topic = topic, Query_FromBlock = map_option sint fromBlock\<rparr>) w of
                  (Inl e, w') \<Rightarrow> (Inl e, w')
                | (Inr logs, w') \<Rightarrow> (Inr (processRootCommittedLogs logs), w'))))"

section \<open>No connection is lost\<close>

text \<open>What the network library promises: a successful dial opens one new connection, a failed
  one none, and hanging up closes the connection.\<close>

definition dialOK :: "('w, 'c) dialLib \<Rightarrow> ('w \<Rightarrow> 'c set) \<Rightarrow> bool" where
  "dialOK lib opened \<longleftrightarrow>
     (\<forall>url w c w'. dial lib url w = (Inr c, w') \<longrightarrow> c \<notin> opened w \<and> opened w' = insert c (opened w)) \<and>
     (\<forall>url w e w'. dial lib url w = (Inl e, w') \<longrightarrow> opened w' = opened w) \<and>
     (\<forall>c w. opened (hangUp lib c w) = opened w - {c}) \<and>
     (\<forall>cs. set (connOrder lib cs) = set cs)"

lemma dialOK_D:
  assumes "dialOK lib opened"
  shows "dial lib url w = (Inr c, w') \<Longrightarrow> c \<notin> opened w \<and> opened w' = insert c (opened w)"
    "dial lib url w = (Inl e, w') \<Longrightarrow> opened w' = opened w"
    "opened (hangUp lib c w) = opened w - {c}" "set (connOrder lib cs) = set cs"
  using assms unfolding dialOK_def by (elim conjE; simp; fail)+

lemma hangUpAll_opened: "dialOK lib opened \<Longrightarrow> opened (hangUpAll lib cs w) = opened w - set cs"
proof -
  assume ok: "dialOK lib opened"
  have "opened (fold (hangUp lib) ds v) = opened v - set ds" for ds v
    by (induction ds arbitrary: v) (auto simp: dialOK_D(3) [OF ok])
  then show ?thesis by (simp add: hangUpAll_def dialOK_D(4) [OF ok])
qed

lemma putClient_fresh: "url \<notin> fst ` set m \<Longrightarrow> putClient url c m = m @ [(url, c)]"
  by (induction url c m rule: putClient.induct) auto

text \<open>The MEV endpoints, over the connections \<open>base\<close> open before.\<close>

lemma dialMEV_opened:
  assumes ok: "dialOK lib opened" and "dialMEV lib urls m w = (r, w')"
    "distinct urls" "fst ` set m \<inter> set urls = {}" "opened w = base \<union> snd ` set m" "base \<inter> snd ` set m = {}"
  shows "(case r of Inl _ \<Rightarrow> opened w' = base
     | Inr m' \<Rightarrow> opened w' = base \<union> snd ` set m' \<and> base \<inter> snd ` set m' = {} \<and> map fst m' = map fst m @ urls)"
  using assms(2-)
proof (induction urls arbitrary: m w)
  case (Cons url urls)
  obtain q w1 where d: "dial lib url w = (q, w1)" by fastforce
  show ?case
  proof (cases q)
    case (Inl e)
    then have "opened w1 = base \<union> snd ` set m" using dialOK_D(2) [OF ok, of url w e w1] d Cons.prems(4) by simp
    then have "opened (hangUpAll lib (map snd m) w1) = base"
      using Cons.prems(5) hangUpAll_opened [OF ok, of "map snd m" w1] by (simp add: Un_Diff Diff_triv)
    with Inl d Cons.prems(1) show ?thesis by auto
  next
    case (Inr c)
    have c: "c \<notin> opened w" "opened w1 = insert c (opened w)" using dialOK_D(1) [OF ok, of url w c w1] d Inr by auto
    have m: "putClient url c m = m @ [(url, c)]" by (rule putClient_fresh) (use Cons.prems(3) in auto)
    have "dialMEV lib urls (m @ [(url, c)]) w1 = (r, w')" using Cons.prems(1) d Inr m by simp
    from Cons.IH [OF this] c Cons.prems show ?thesis by (auto split: sum.splits)
  qed
qed auto

lemma NewTxManager_opened:
  assumes "dialOK lib opened" "distinct urls" "NewTxManager lib pol urls w = (r, w')"
  shows "(case r of Inl _ \<Rightarrow> opened w' = opened w
     | Inr (p, m) \<Rightarrow> opened w' = opened w \<union> snd ` set m \<and> opened w \<inter> snd ` set m = {} \<and> map fst m = urls)"
proof (cases pol)
  case (Some p0)
  obtain q w1 where q: "dialMEV lib urls [] w = (q, w1)" by fastforce
  show ?thesis using dialMEV_opened [OF assms(1) q assms(2), of "opened w"] assms(3) q Some
    by (auto simp: NewTxManager_def Let_def split: option.splits sum.splits)
qed (use assms(3) in \<open>auto simp: NewTxManager_def\<close>)

text \<open>Closing the client, and the last step of \<open>NewClient\<close>: the WebSocket connection.\<close>

lemma CloseClient_opened:
  "dialOK lib opened \<Longrightarrow> opened (CloseClient lib c v) =
     opened v - set_option (wsConn c) - insert (ethConn c) (snd ` set (mevConns c))"
  by (cases "wsConn c") (auto simp: CloseClient_def dialOK_D(3) hangUpAll_opened)

definition released :: "('w, 'c) dialLib \<Rightarrow> ('w \<Rightarrow> 'c set) \<Rightarrow> clientConfig \<Rightarrow> 'w \<Rightarrow> goerror + 'c clientConns \<Rightarrow> 'w \<Rightarrow> bool" where
  "released lib opened cfg w r w' \<longleftrightarrow>
     (case r of
        Inr c \<Rightarrow> opened (CloseClient lib c w') = opened w \<and> map fst (mevConns c) = CC_MEVRPCs cfg \<and>
          (wsConn c = None \<longleftrightarrow> CC_WSRPCURL cfg = []) \<and>
          set_option (wsConn c) \<union> insert (ethConn c) (snd ` set (mevConns c)) \<subseteq> opened w'
      | Inl e \<Rightarrow> (\<exists>mev. opened w' = opened w \<union> snd ` set mev \<and> opened w \<inter> snd ` set mev = {} \<and>
          (if \<exists>err. e = Wrap ''dial WebSocket'' err then map fst mev = CC_MEVRPCs cfg else mev = [])))"

lemma dialWS_released:
  assumes ok: "dialOK lib opened" and m: "opened w2 = insert eth (opened w) \<union> snd ` set mev"
    "insert eth (opened w) \<inter> snd ` set mev = {}" "map fst mev = CC_MEVRPCs cfg" "eth \<notin> opened w"
    and r: "(if CC_WSRPCURL cfg = [] then (Inr \<lparr>ethConn = eth, wsConn = None, mevConns = mev\<rparr>, w2)
      else (case dial lib (CC_WSRPCURL cfg) w2 of
          (Inl err, w3) \<Rightarrow> (Inl (Wrap ''dial WebSocket'' err), hangUp lib eth w3)
        | (Inr ws, w3) \<Rightarrow> (Inr \<lparr>ethConn = eth, wsConn = Some ws, mevConns = mev\<rparr>, w3))) = (r, w')"
  shows "released lib opened cfg w r w'"
proof (cases "CC_WSRPCURL cfg = []")
  case True
  have "opened w2 - insert eth (snd ` set mev) = opened w" "insert eth (snd ` set mev) \<subseteq> opened w2"
    using m(1,2,4) by blast+
  with True r m(3) show ?thesis by (auto simp: released_def CloseClient_opened [OF ok])
next
  case ws: False
  obtain q w3 where d: "dial lib (CC_WSRPCURL cfg) w2 = (q, w3)" by fastforce
  show ?thesis
  proof (cases q)
    case (Inl err)
    then have "opened w3 = opened w2" using dialOK_D(2) [OF ok] d by blast
    then have "opened w3 - {eth} = opened w \<union> snd ` set mev" using m(1,2,4) by blast
    moreover have "w' = hangUp lib eth w3" using r ws d Inl by simp
    ultimately have "opened w' = opened w \<union> snd ` set mev" by (simp add: dialOK_D(3) [OF ok])
    with r ws d Inl m(2,3) show ?thesis by (auto simp: released_def)
  next
    case (Inr c)
    then have "c \<notin> opened w2" "opened w3 = insert c (opened w2)" using dialOK_D(1) [OF ok] d by blast+
    then have "opened w3 - {c} - insert eth (snd ` set mev) = opened w" "insert c (insert eth (snd ` set mev)) \<subseteq> opened w3"
      using m(1,2,4) by blast+
    with r ws d Inr m(3) show ?thesis by (auto simp: released_def CloseClient_opened [OF ok])
  qed
qed

lemma NewClient_released:
  assumes "dialOK lib opened" "distinct (CC_MEVRPCs cfg)" "NewClient lib cfg w = (r, w')"
  shows "released lib opened cfg w r w'"
proof (cases "CC_ChainID cfg = None \<or> CC_Signer cfg = None")
  case True
  with assms(3) show ?thesis by (auto simp: released_def NewClient_def split: if_splits)
next
  case False
  obtain d w1 where d: "dial lib (CC_RPCURL cfg) w = (d, w1)" by fastforce
  show ?thesis
  proof (cases d)
    case (Inl err)
    with d False assms(3) dialOK_D(2) [OF assms(1)] show ?thesis by (auto simp: released_def NewClient_def)
  next
    case eth: (Inr eth)
    have e: "eth \<notin> opened w" "opened w1 = insert eth (opened w)"
      using dialOK_D(1) [OF assms(1)] d eth by blast+
    obtain q w2 where q: "NewTxManager lib (CC_TxPolicy cfg) (CC_MEVRPCs cfg) w1 = (q, w2)" by fastforce
    note o = NewTxManager_opened [OF assms(1,2) q]
    show ?thesis
    proof (cases q)
      case (Inl err)
      with o e d eth q False assms(3) show ?thesis
        by (auto simp: released_def NewClient_def dialOK_D(3) [OF assms(1)])
    next
      case (Inr pm)
      then obtain p mev where pm: "q = Inr (p, mev)" by (cases pm) auto
      with o have "opened w2 = insert eth (opened w) \<union> snd ` set mev"
        "insert eth (opened w) \<inter> snd ` set mev = {}" "map fst mev = CC_MEVRPCs cfg" by (simp_all add: e)
      then show ?thesis
        by (rule dialWS_released [OF assms(1)]) (use e d eth q pm False assms(3) in \<open>auto simp: NewClient_def\<close>)
    qed
  qed
qed

text \<open>The connections of the contract client are released. With distinct MEV endpoints, which
  the configuration checks, closing a client that \<open>NewClient\<close> returned closes exactly the
  connections it had opened; and when \<open>NewClient\<close> fails, all are closed again, except that the
  connections to the MEV endpoints stay open when it was the WebSocket endpoint that could not be
  dialled.\<close>

theorem client_connections:
  assumes "dialOK lib opened" "distinct (CC_MEVRPCs cfg)" "NewClient lib cfg w = (r, w')"
  shows "case r of
      Inr c \<Rightarrow> opened (CloseClient lib c w') = opened w \<and> map fst (mevConns c) = CC_MEVRPCs cfg \<and>
        (wsConn c = None \<longleftrightarrow> CC_WSRPCURL cfg = []) \<and>
        set_option (wsConn c) \<union> insert (ethConn c) (snd ` set (mevConns c)) \<subseteq> opened w'
    | Inl e \<Rightarrow> (\<exists>mev. opened w' = opened w \<union> snd ` set mev \<and> opened w \<inter> snd ` set mev = {} \<and>
        (if \<exists>err. e = Wrap ''dial WebSocket'' err then map fst mev = CC_MEVRPCs cfg else mev = []))"
  using NewClient_released [OF assms] unfolding released_def .

text \<open>A network whose connections are numbered and that cannot reach one address; the state is
  the next number and the open connections.\<close>

definition sampleDial :: "string \<Rightarrow> (nat \<times> nat list, nat) dialLib" where
  "sampleDial down = \<lparr>dial = (\<lambda>url (n, cs). if url = down then (Inl (LibErr ''connection refused''), n, cs)
       else (Inr n, Suc n, n # cs)),
     hangUp = (\<lambda>c (n, cs). (n, filter (\<lambda>d. d \<noteq> c) cs)), connOrder = (\<lambda>cs. cs)\<rparr>"

definition openedIn :: "nat \<times> nat list \<Rightarrow> nat set" where
  "openedIn w = {c \<in> set (snd w). c < fst w}"

definition sampleClientConfig :: clientConfig where
  "sampleClientConfig = \<lparr>CC_RPCURL = ''http://el'', CC_WSRPCURL = ''ws://el'', CC_ChainID = Some 1,
     CC_Signer = Some [9], CC_TxPolicy = Some samplePolicy, CC_MEVRPCs = [''http://a'', ''http://b'']\<rparr>"

lemma sampleDial_ok: "dialOK (sampleDial down) openedIn"
  by (auto simp: dialOK_def sampleDial_def openedIn_def split: if_splits)

theorem client_connections_witness:
  "(\<exists>c w'. NewClient (sampleDial []) sampleClientConfig (0, []) = (Inr c, w') \<and>
      openedIn (CloseClient (sampleDial []) c w') = {}) \<and>
   (\<exists>e w'. NewClient (sampleDial ''ws://el'') sampleClientConfig (0, []) = (Inl (Wrap ''dial WebSocket'' e), w') \<and>
      openedIn w' = {1, 2})"
proof -
  have d: "distinct (CC_MEVRPCs sampleClientConfig)" by code_simp
  have n: "NewClient (sampleDial []) sampleClientConfig (0, []) =
      (Inr \<lparr>ethConn = 0, wsConn = Some 3, mevConns = [(''http://a'', 1), (''http://b'', 2)]\<rparr>, 4, [3, 2, 1, 0])"
    by code_simp
  have f: "NewClient (sampleDial ''ws://el'') sampleClientConfig (0, []) =
      (Inl (Wrap ''dial WebSocket'' (LibErr ''connection refused'')), 3, [2, 1])" by code_simp
  have "openedIn (0, []) = {}" "openedIn (3, [2, 1]) = {1, 2}" by (auto simp: openedIn_def)
  with client_connections [OF sampleDial_ok d n] n f show ?thesis by auto
qed

end
