(* ===== verification/System.thy ===== *)
theory System
  imports Updater Api Config
begin

text \<open>
  The running program: the services that \<open>runServices\<close> of \<^verbatim>\<open>cmd/oracle/commands/run.go\<close>
  starts over one database, as a step relation. Each step is one message handled: a finalized
  checkpoint offered by the beacon client or taken by the oracle, a root event taken by the updater, an
  HTTP request; between them the outside and the failures of the database change at will, and
  the process may be restarted. Two simplifications: a start that fails is no step, so that the batches its initial
  sync had already stored are dropped (they are fetched and stored again by the next start); and the API, which the
  program starts before the initial sync, serves requests only after it.
\<close>

section \<open>Readers do not write\<close>

text \<open>An operation reads only when it keeps every value of the tables.\<close>

abbreviation readsOnly :: "(store, 'a) op \<Rightarrow> bool" where
  "readsOnly m \<equiv> \<forall>t0. tblInv (\<lambda>t. t = t0) m"

lemma readsOnly_tbl: "readsOnly m \<Longrightarrow> m s = (r, s') \<Longrightarrow> tbl s' = tbl s"
  by (metis (mono_tags, lifting) invS_E)

lemma clusterRowsFrom_reads: "readsOnly (clusterRowsFrom ids)"
proof (induction ids rule: clusterRowsFrom.induct)
  case (1 ids)
  show ?case
  proof (cases "ids = []")
    case True
    then show ?thesis by (simp add: clusterRowsFrom.simps inv_rules)
  next
    case False
    with 1 show ?thesis
      by (subst clusterRowsFrom.simps) (auto simp: queryClusterRowsBatch_def intro!: inv_rules)
  qed
qed

lemma GetFinalizedClusters_reads: "readsOnly (GetFinalizedClusters ids)"
  unfolding GetFinalizedClusters_def getClusterRowsByIDs_def
  using clusterRowsFrom_reads by (auto intro!: inv_rules)

lemma query_reads [simp]:
  "readsOnly GetLatestCommit" "readsOnly (GetCommitByEpoch e)" "readsOnly (GetCommitByBlock b)"
  "readsOnly GetAllClusterInfo" "readsOnly GetLastSyncedBlock"
  by (auto simp: GetLatestCommit_def GetCommitByEpoch_def GetCommitByBlock_def GetAllClusterInfo_def
      GetLastSyncedBlock_def intro!: inv_rules)

lemmas query_frames = query_reads [THEN readsOnly_tbl] GetFinalizedClusters_reads [THEN readsOnly_tbl]

lemma BuildHeadStateSnapshot_frame:
  assumes "BuildHeadStateSnapshot fuel sy ids (s, bs, w) = Some (r, s', bs', w')"
  shows "tbl s' = tbl s"
proof -
  obtain g s1 where g: "GetFinalizedClusters ids s = (g, s1)" by fastforce
  have "s' = s1" using assms
    by (cases g) (auto simp: BuildHeadStateSnapshot_def wrapS_def g Let_def split: prod.splits sum.splits option.splits if_splits)
  then show ?thesis using query_frames(6) [OF g] by simp
qed

lemma staleLoop_frame:
  "staleLoop fuel c b t (overlayLookup ov) lfs st (s, w) = Some (st', s', w') \<Longrightarrow> tbl s' = tbl s"
proof (induction lfs arbitrary: st s w)
  case (Cons lf lfs)
  show ?case
  proof (cases "ctxDone (clock (txManagerOf c)) w")
    case False
    with Cons.prems obtain r s1 w1 where
      p: "processCluster fuel c b t (overlayLookup ov) lf (s, w) = Some (r, s1, w1)"
      by (auto split: option.splits)
    have "tbl s1 = tbl s" by (rule head.processCluster_tbl [OF p])
    with Cons.prems False p show ?thesis by (cases r) (auto dest!: Cons.IH)
  qed (use Cons.prems in auto)
qed simp

lemma processStale_frame:
  assumes "processStale fuel u b t stale st (s, bs, w) = Some (st', s', bs', w')"
  shows "tbl s' = tbl s"
proof (cases "stale = []")
  case False
  then obtain r s1 bs1 w1 where b: "BuildHeadStateSnapshot fuel (up_syncer u) (map Leaf_ClusterID stale) (s, bs, w) =
      Some (r, s1, bs1, w1)" using assms by (auto simp: processStale_def split: option.splits)
  note f = BuildHeadStateSnapshot_frame [OF b]
  show ?thesis
  proof (cases r)
    case (Inl e)
    with assms False b f show ?thesis by (simp add: processStale_def)
  next
    case (Inr ov)
    with assms False b obtain st2 w2 where
      "staleLoop fuel (up_contract u) b t (overlayLookup ov) stale st (s1, w1) = Some (st2, s', w2)"
      by (auto simp: processStale_def split: option.splits)
    from staleLoop_frame [OF this] f show ?thesis by simp
  qed
qed (use assms in \<open>simp add: processStale_def\<close>)

lemma processCommit_frame:
  assumes "processCommit fuel u cm (s, bs, w) = Some (r, s', bs', w')"
  shows "tbl s' = tbl s"
proof -
  have p: "tbl s1 = tbl s" if "processAllClusters fuel c b t storageLookup (s, w) = Some ((st, stale), s1, w1)"
    for c b t st stale s1 w1
    using finalized.clustersLoop_frame that [unfolded processAllClusters_def] by fastforce
  from assms show ?thesis
    by (auto simp: processCommit_def split: if_splits option.splits prod.splits
        dest!: p processStale_frame)
qed

lemma lookupCommit_frame: "lookupCommit u b (s, w) = (r, s', w') \<Longrightarrow> tbl s' = tbl s"
  unfolding lookupCommit_def
  by (auto split: prod.splits sum.splits option.splits bool.splits dest!: query_frames(3))

lemma handleEvent_frame:
  assumes "handleEvent fuel u ev l (s, bs, w) = Some (l', dn, s', bs', w')"
  shows "tbl s' = tbl s"
proof (cases "RC_BlockNum ev \<le> l")
  case False
  obtain c s1 w1 where c: "lookupCommit u (RC_BlockNum ev) (s, w) = (c, s1, w1)" by (metis prod.collapse)
  note f = lookupCommit_frame [OF c]
  show ?thesis
    using assms False c f by (cases c)
      (auto simp: handleEvent_def split: if_splits option.splits prod.splits sum.splits dest!: processCommit_frame)
qed (use assms in \<open>simp add: handleEvent_def\<close>)

lemma resolveCommit_reads: "readsOnly (resolveCommit req)"
proof -
  have "tblInv (\<lambda>t. t = t0) (\<lambda>s. case GetCommitByEpoch e s of
      (Inl _, s') \<Rightarrow> (Inr (c, None, None), s') | (Inr (_, prev, next), s') \<Rightarrow> (Inr (c, prev, next), s'))" for t0 e c
    by (rule invS_I) (auto split: prod.splits sum.splits dest!: query_frames(2))
  then show ?thesis
    unfolding resolveCommit_def using query_reads(1,2)
    by (auto intro!: inv_rules split: option.splits)
qed

lemma diffToPrevious_frame: "diffToPrevious prev cm s = (d, s') \<Longrightarrow> tbl s' = tbl s"
  unfolding diffToPrevious_def by (auto split: option.splits prod.splits sum.splits dest!: query_frames(2))

lemma handlers_frame:
  "handleGetCommit kc pk order req s = (r, s') \<Longrightarrow> tbl s' = tbl s"
  "handleGetProof kc pk order req s = (r, s') \<Longrightarrow> tbl s' = tbl s"
  unfolding handleGetCommit_def handleGetProof_def Let_def
  by (auto split: sum.splits prod.splits option.splits if_splits
      dest!: resolveCommit_reads [THEN readsOnly_tbl] query_frames(4) diffToPrevious_frame)

lemma ServeHTTP_frame: "ServeHTTP kc pk order page h s = (r, s') \<Longrightarrow> tbl s' = tbl s"
proof -
  have "tbl (snd (recoveryMiddleware (handleGetCommit kc pk order q s))) = tbl s"
    "tbl (snd (recoveryMiddleware (handleGetProof kc pk order q s))) = tbl s" for q
    using handlers_frame [of kc pk order q s] by (simp_all add: recoveryMiddleware_def) (metis prod.collapse)+
  then show "ServeHTTP kc pk order page h s = (r, s') \<Longrightarrow> tbl s' = tbl s"
    by (auto simp: ServeHTTP_def serveAPI_def Let_def case_prod_beta split: if_splits)
qed

lemma subscribeLoop_frame:
  "subscribeLoop fuel u inps l (s, bs, w) = Some (r, cms, l', s', bs', w') \<Longrightarrow> tbl s' = tbl s"
proof (induction inps arbitrary: l s bs w cms r)
  case (Cons i inps)
  show ?case
  proof (cases "\<exists>ev. i = EventIn ev")
    case True
    then obtain ev where i: "i = EventIn ev" ..
    obtain l1 dn s1 bs1 w1 rest where h: "handleEvent fuel u ev l (s, bs, w) = Some (l1, dn, s1, bs1, w1)"
      and t: "subscribeLoop fuel u inps l1 (s1, bs1, w1) = Some (r, rest, l', s', bs', w')"
      using Cons.prems by (auto simp: i split: option.splits)
    from Cons.IH [OF t] handleEvent_frame [OF h] show ?thesis by simp
  next
    case False
    with Cons.prems Cons.IH show ?thesis
      by (auto simp: Let_def split: updaterInput.splits option.splits)
  qed
qed simp

lemma updaterRun_frame:
  "updaterRun fuel u subs l (s, bs, w) = Some (cms, l', s', bs', w') \<Longrightarrow> tbl s' = tbl s"
proof (induction subs arbitrary: l s bs w cms)
  case (Cons sub subs)
  let ?once = "case sub of Inl e \<Rightarrow> Some (Some (Wrap ''subscribe'' e), [], l, s, bs, w)
    | Inr inps \<Rightarrow> subscribeLoop fuel u inps l (s, bs, w)"
  obtain err cms1 l1 s1 bs1 w1 where o: "?once = Some (err, cms1, l1, s1, bs1, w1)"
    using Cons.prems by (cases ?once) auto
  have "tbl s1 = tbl s" using o by (auto split: sum.splits dest: subscribeLoop_frame)
  with Cons.prems [unfolded updaterRun.simps o option.case prod.case] Cons.IH show ?case
    by (fastforce split: if_splits prod.splits bool.splits)
qed simp

text \<open>C26: the updater and the API only read. Whatever events, requests and failures arrive, neither
  a whole run of the updater nor an HTTP request changes a row of any table, as the comment on
  \<open>updaterStorage\<close> demands.\<close>

theorem readers_never_write:
  "(updaterRun fuel u subs l (s, bs, w) = Some (cms, l', s', bs', w') \<longrightarrow> tbl s' = tbl s) \<and>
   tbl (snd (ServeHTTP kc pk order page h s)) = tbl s"
  by (intro conjI impI) (rule updaterRun_frame, assumption, rule ServeHTTP_frame, rule prod.collapse [symmetric])

theorem readers_never_write_witness:
  "\<exists>cms l' s' bs' w'. updaterRun 1 sampleUpdater
      [Inl CtxErr, Inr [EventIn sampleEvent, EventIn sampleEvent, ErrorIn (Some CtxErr)]] 4
      (sampleStored, NewAdaptiveBatchSize 2 2, 0) = Some (cms, l', s', bs', w') \<and>
     length cms = 1 \<and> tbl s' = tbl sampleStored"
  using readers_never_write [THEN conjunct1, THEN mp, OF sampleEvents] sampleEvents by force

section \<open>The services\<close>

record 'w service =
  sv_store :: store
  sv_batch :: AdaptiveBatchSize
  sv_world :: 'w
  sv_chan :: "FinalizedCheckpoint list"
  sv_target :: u64
  sv_last :: u64

text \<open>
  The start: the checks of \<open>run\<close>, then, as in \<open>runServices\<close>, the initial sync, and then the oracle
  and the updater; the oracle's \<open>Run\<close> begins with the first target after the last fully
  finalized epoch. \<open>None\<close> is a sync that has not returned, or a panic.
\<close>

definition startServices ::
    "nat \<Rightarrow> bool \<Rightarrow> u64 \<Rightarrow> 'w Oracle \<Rightarrow> AdaptiveBatchSize \<Rightarrow> store \<times> 'w \<Rightarrow> (goerror + 'w service) option" where
  "startServices fuel freshStart deployBlock o1 bs x =
     (case openState freshStart (client (or_syncer o1)) x of
        (Inl e, s, w) \<Rightarrow> Some (Inl e)
      | (Inr chainID, s, w) \<Rightarrow>
          (case SyncToFinalized fuel (or_syncer o1) deployBlock (s, bs, w) of
             None \<Rightarrow> None
           | Some (Inl e, _) \<Rightarrow> Some (Inl (Wrap ''initial sync'' e))
           | Some (Inr _, s1, bs1, w1) \<Rightarrow>
               (case wrapS ''get finalized epoch'' (GetFinalizedEpoch (or_beacon o1)) w1 of
                  (Inl e, w2) \<Rightarrow> Some (Inl e)
                | (Inr finalizedEpoch, w2) \<Rightarrow>
                    if finalizedEpoch = 0
                    then Some (Inl (ErrNew ''cannot start at genesis (epoch 0): no fully finalized epoch exists''))
                    else map_option (\<lambda>t. Inr \<lparr>sv_store = s1, sv_batch = bs1, sv_world = w2, sv_chan = [],
                        sv_target = t, sv_last = 0\<rparr>)
                      (NextTarget (or_schedule o1) (finalizedEpoch - 1)))))"

text \<open>
  The steps. The epochs that the beacon node reports leave room for one more interval of the
  schedule below \<open>2^64\<close>; nothing else is asked of the outside. The API visits maps in the order
  \<open>order\<close>.
\<close>

inductive serviceStep ::
    "'w Oracle \<Rightarrow> 'w Updater \<Rightarrow> (clusterMap \<Rightarrow> clusterMap) \<Rightarrow> string option \<Rightarrow> 'w service \<Rightarrow> 'w service \<Rightarrow> bool"
  for o1 u order page where
  finalizedEvent:
    "onFinalizedEvent (or_beacon o1) epoch block (sv_chan st) (sv_world st) = (ch, w) \<Longrightarrow>
     roomAt (or_schedule o1) epoch \<Longrightarrow>
     serviceStep o1 u order page st (st\<lparr>sv_chan := ch, sv_world := w\<rparr>)"
| checkpoint:
    "sv_chan st = cp # ch \<Longrightarrow>
     handleCheckpoint fuel o1 cp (sv_target st) (sv_store st, sv_batch st, sv_world st) =
       Some (t, tried, s, bs, w) \<Longrightarrow>
     serviceStep o1 u order page st
       (st\<lparr>sv_store := s, sv_batch := bs, sv_world := w, sv_chan := ch, sv_target := t\<rparr>)"
| rootCommitted:
    "handleEvent fuel u ev (sv_last st) (sv_store st, sv_batch st, sv_world st) = Some (l, dn, s, bs, w) \<Longrightarrow>
     serviceStep o1 u order page st (st\<lparr>sv_store := s, sv_batch := bs, sv_world := w, sv_last := l\<rparr>)"
| httpRequest:
    "ServeHTTP (keccakOf (or_syncer o1)) (or_pack o1) order page h (sv_store st) = (r, s) \<Longrightarrow>
     serviceStep o1 u order page st (st\<lparr>sv_store := s\<rparr>)"
| outside:
    "serviceStep o1 u order page st (st\<lparr>sv_world := w, sv_store := (sv_store st)\<lparr>faults := fs\<rparr>\<rparr>)"
| restart:
    "startServices fuel fresh deployBlock o1 bs (sv_store st, sv_world st) = Some (Inr st') \<Longrightarrow>
     serviceStep o1 u order page st st'"

inductive running ::
    "'w Oracle \<Rightarrow> 'w Updater \<Rightarrow> (clusterMap \<Rightarrow> clusterMap) \<Rightarrow> string option \<Rightarrow> 'w service \<Rightarrow> bool"
  for o1 u order page where
  boot: "startServices fuel fresh deployBlock o1 bs (s, w) = Some (Inr st) \<Longrightarrow> tbl s = emptyTables \<Longrightarrow>
    running o1 u order page st"
| handled: "running o1 u order page st \<Longrightarrow> serviceStep o1 u order page st st' \<Longrightarrow> running o1 u order page st'"

section \<open>The invariant of the system\<close>

text \<open>A commit row is sound when its root is that of the tree over its own balances, and its epoch
  is a target of the schedule.\<close>

definition rowSound :: "keccak \<Rightarrow> packer \<Rightarrow> CommitSchedule \<Rightarrow> commitRec \<Rightarrow> bool" where
  "rowSound kc pk sched c \<longleftrightarrow> isTarget sched (target_epoch c) \<and>
     (\<exists>bals t. cluster_balances c = Some bals \<and> NewTree kc pk (balanceMapOf bals) = Some t \<and>
        merkle_root c = Tree_Root t)"

definition tablesSound :: "'w Oracle \<Rightarrow> tables \<Rightarrow> bool" where
  "tablesSound o1 t \<longleftrightarrow> db_wf t \<and> tableGenuine (keccakOf (or_syncer o1)) t \<and>
     (\<forall>c \<in> set (oracle_commits t). rowSound (keccakOf (or_syncer o1)) (or_pack o1) (or_schedule o1) c)"

definition serviceInv :: "'w Oracle \<Rightarrow> 'w service \<Rightarrow> bool" where
  "serviceInv o1 st \<longleftrightarrow> tablesSound o1 (tbl (sv_store st)) \<and> isTarget (or_schedule o1) (sv_target st) \<and>
     length (sv_chan st) \<le> 1 \<and> (\<forall>cp \<in> set (sv_chan st). roomAt (or_schedule o1) (CP_Epoch cp))"

definition epochsFit :: "'w Oracle \<Rightarrow> bool" where
  "epochsFit o1 \<longleftrightarrow> Validate (or_schedule o1) = None \<and>
     (\<forall>w e w'. GetFinalizedEpoch (or_beacon o1) w = (Inr e, w') \<longrightarrow> e \<noteq> 0 \<longrightarrow>
        roomAt (or_schedule o1) (e - 1))"

lemma buildTree_any_order:
  assumes "pack_ok pk" "\<And>m. mset (order m) = mset m" "\<And>m. mset (order' m) = mset m"
    "buildTree kc pk order bals = Some t"
  shows "\<exists>t'. buildTree kc pk order' bals = Some t' \<and> Tree_Root t' = Tree_Root t"
proof -
  have g: "pack_ok pk \<and> wfClusters (order (balanceMapOf bals))" "pack_ok pk \<and> wfClusters (order' (balanceMapOf bals))"
    using assms(1-3) balanceMapOf_wf wfClusters_perm by metis+
  obtain t' where t': "NewTree kc pk (order' (balanceMapOf bals)) = Some t'" using mt.build_total [OF g(2)] by blast
  from mt.root_perm [OF g(1) _ assms(4) [unfolded buildTree_def] t'] assms(2,3) t' show ?thesis
    by (simp add: buildTree_def)
qed

lemma rowSound_tree:
  assumes "pack_ok pk" "\<And>m. mset (order m) = mset m" "rowSound kc pk sched c"
  shows "\<exists>t. buildTree kc pk order (Commit_ClusterBalances (scanCommit c)) = Some t \<and>
     Tree_Root t = Commit_MerkleRoot (scanCommit c)"
proof -
  obtain bals t where t: "cluster_balances c = Some bals" "NewTree kc pk (balanceMapOf bals) = Some t"
    "merkle_root c = Tree_Root t" using assms(3) by (auto simp: rowSound_def)
  then have "buildTree kc pk (\<lambda>m. m) bals = Some t" by (simp add: buildTree_def)
  from buildTree_any_order [OF assms(1) _ assms(2) this] t show ?thesis by (auto simp: scanCommit_def)
qed

text \<open>Only three kinds of statement change the tables, and each keeps them sound.\<close>

lemma processBatch_sound:
  "tblInv (tablesSound o1) (processBatch (keccakOf (or_syncer o1)) a e bls)"
proof (rule invS_I)
  fix s :: store assume p: "tablesSound o1 (tbl s)"
  have "oracle_commits (tbl (snd (processBatch (keccakOf (or_syncer o1)) a e bls s))) = oracle_commits (tbl s)"
    using invS_D [OF processBatch_commits, where s = s] by simp
  with p show "tablesSound o1 (tbl (snd (processBatch (keccakOf (or_syncer o1)) a e bls s)))"
    using invS_D [OF processBatch_wf, where s = s] invS_D [OF processBatch_genuine, where s = s]
    by (simp add: tablesSound_def)
qed

lemma UpdateCommitStatus_sound: "tblInv (tablesSound o1) (UpdateCommitStatus e st h)"
  unfolding UpdateCommitStatus_def
  by (intro inv_rules) (auto simp: tablesSound_def tableGenuine_def db_wf_def rowSound_def comp_def)

lemma InsertPendingCommit_sound:
  assumes "buildTree (keccakOf (or_syncer o1)) (or_pack o1) (or_mapOrder o1) bals = Some t"
    "pack_ok (or_pack o1)" "\<And>m. mset (or_mapOrder o1 m) = mset m" "isTarget (or_schedule o1) target"
  shows "tblInv (tablesSound o1) (InsertPendingCommit target (Tree_Root t) block bals)"
proof -
  obtain t' where t': "NewTree (keccakOf (or_syncer o1)) (or_pack o1) (balanceMapOf bals) = Some t'"
    "Tree_Root t' = Tree_Root t"
    using buildTree_any_order [OF assms(2,3) _ assms(1), where order' = "\<lambda>m. m"] by (auto simp: buildTree_def)
  show ?thesis
  proof (rule invS_I)
    fix s :: store assume p: "tablesSound o1 (tbl s)"
    let ?s = "snd (InsertPendingCommit target (Tree_Root t) block bals s)"
    have wf: "db_wf (tbl ?s)" using invS_D [OF InsertPendingCommit_wf] p by (simp add: tablesSound_def)
    have "clusters (tbl ?s) = clusters (tbl s)"
      "set (oracle_commits (tbl ?s)) \<subseteq> insert (pendingRow target (Tree_Root t) block bals) (set (oracle_commits (tbl s)))"
      using stmt_cases [of "insertCommitTbl target (Tree_Root t) block bals" s]
      by (auto simp: InsertPendingCommit_def insertCommitTbl_def pendingRow_def split: if_splits)
    with p wf t' assms(4) show "tablesSound o1 (tbl ?s)"
      by (auto simp: tablesSound_def tableGenuine_def rowSound_def pendingRow_def)
  qed
qed

lemma GetActiveValidators_reads: "readsOnly GetActiveValidators"
  by (auto simp: GetActiveValidators_def intro!: inv_rules)

lemma prepareCommit_store:
  assumes "prepareCommit fuel o1 cp target (s, bs, w) = Some (r, s', bs', w')"
    "SyncToBlock fuel (or_syncer o1) (CP_BlockNum cp) (s, bs, w) = Some (q, s1, bs1, w1)"
    "GetActiveValidators s1 = (v, s2)"
  shows "s' = s1 \<or> s' = s2 \<or> (\<exists>bals t x. buildTree (keccakOf (or_syncer o1)) (or_pack o1) (or_mapOrder o1) bals = Some t \<and>
      InsertPendingCommit target (Tree_Root t) (CP_BlockNum cp) bals s2 = (x, s'))"
proof (cases "\<exists>vals. q = Inr () \<and> v = Inr vals")
  case False
  with assms show ?thesis
    by (cases q; cases v) (auto simp: prepareCommit_def wrapS_def)
next
  case True
  then obtain vals where qv: "q = Inr ()" "v = Inr vals" by blast
  note run = assms(1) [unfolded prepareCommit_def assms(2) qv(1) option.case prod.case sum.case wrapS_bind assms(3) qv(2)]
  obtain ver w2 where ver: "VerifyFinalizedBlockRoot (or_beacon o1) (CP_BlockRoot cp) w1 = (ver, w2)" by fastforce
  obtain bal w3 where bal: "fetchBalances (or_totalsOrder o1) (or_beacon o1) vals w2 = (bal, w3)" by fastforce
  show ?thesis
  proof (cases ver)
    case (Inl e)
    with run ver show ?thesis by simp
  next
    case ok: (Inr _)
    note run = run [unfolded ver ok prod.case sum.case bal]
    show ?thesis
    proof (cases bal)
      case (Inl e)
      with run show ?thesis by simp
    next
      case (Inr bn)
      obtain bals n where bn: "bal = Inr (bals, n)" using Inr by (cases bn) simp
      obtain t where t: "buildTree (keccakOf (or_syncer o1)) (or_pack o1) (or_mapOrder o1) bals = Some t"
        using run bn by (auto split: option.splits)
      obtain x s3 where x: "InsertPendingCommit target (Tree_Root t) (CP_BlockNum cp) bals s2 = (x, s3)" by fastforce
      note run = run [unfolded bn sum.case prod.case t option.case x]
      have "s' = s3" using run by (cases x) simp_all
      with t x show ?thesis by blast
    qed
  qed
qed

lemma prepareCommit_sound:
  assumes "pack_ok (or_pack o1)" "\<And>m. mset (or_mapOrder o1 m) = mset m" "isTarget (or_schedule o1) target"
    "prepareCommit fuel o1 cp target (s, bs, w) = Some (r, s', bs', w')" "tablesSound o1 (tbl s)"
  shows "tablesSound o1 (tbl s')"
proof -
  obtain q s1 bs1 w1 where q: "SyncToBlock fuel (or_syncer o1) (CP_BlockNum cp) (s, bs, w) = Some (q, s1, bs1, w1)"
    using assms(4) by (auto simp: prepareCommit_def split: option.splits)
  have s1: "tablesSound o1 (tbl s1)" by (rule SyncToBlock_inv [OF q assms(5) processBatch_sound])
  obtain v s2 where v: "GetActiveValidators s1 = (v, s2)" by fastforce
  have "tbl s2 = tbl s1" by (rule GetActiveValidators_reads [THEN readsOnly_tbl, OF v])
  with s1 have s2: "tablesSound o1 (tbl s2)" by simp
  have "s' = s1 \<or> s' = s2 \<or> (\<exists>bals t x. buildTree (keccakOf (or_syncer o1)) (or_pack o1) (or_mapOrder o1) bals = Some t \<and>
      InsertPendingCommit target (Tree_Root t) (CP_BlockNum cp) bals s2 = (x, s'))"
    using assms(4) by (rule prepareCommit_store [OF _ q v])
  then show ?thesis
    using s1 s2 invS_E [OF InsertPendingCommit_sound [OF _ assms(1-3)] s2] by blast
qed

lemma commit_sound:
  assumes "pack_ok (or_pack o1)" "\<And>m. mset (or_mapOrder o1 m) = mset m" "isTarget (or_schedule o1) target"
    "commit fuel o1 cp target (s, bs, w) = Some (err, s', bs', w')" "tablesSound o1 (tbl s)"
  shows "tablesSound o1 (tbl s')"
proof -
  obtain r s1 bs1 w1 where p: "prepareCommit fuel o1 cp target (s, bs, w) = Some (r, s1, bs1, w1)"
    using assms(4) by (auto simp: commit_def split: option.splits)
  note s1 = prepareCommit_sound [OF assms(1-3) p assms(5)]
  show ?thesis
  proof (cases r)
    case (Inl e)
    with assms(4) p s1 show ?thesis by (simp add: commit_def)
  next
    case (Inr root)
    with assms(4) p obtain st h where "s' = snd (UpdateCommitStatus target st h s1)"
      using submitCommit_row by (fastforce simp: commit_def)
    with invS_D [OF UpdateCommitStatus_sound s1] show ?thesis by simp
  qed
qed

lemma handleCheckpoint_sound:
  assumes "pack_ok (or_pack o1)" "\<And>m. mset (or_mapOrder o1 m) = mset m" "isTarget (or_schedule o1) t"
    "handleCheckpoint fuel o1 cp t (s, bs, w) = Some (t', tried, s', bs', w')" "tablesSound o1 (tbl s)"
  shows "tablesSound o1 (tbl s')"
  using assms(4)
  by (cases rule: handleCheckpoint_cases) (use assms(5) commit_sound [OF assms(1-3) _ assms(5)] in auto)

lemma SyncToFinalized_inv:
  assumes "SyncToFinalized fuel sy d (s, bs, w) = Some (r, s', bs', w')" "P (tbl s)"
    "\<And>b. tblInv P (UpdateLastSyncedBlock b)" "\<And>e bls. tblInv P (processBatch (keccakOf sy) (abiOf sy) e bls)"
  shows "P (tbl s')"
proof -
  obtain g s1 where g: "GetLastSyncedBlock s = (g, s1)" by fastforce
  have s1: "P (tbl s1)" using query_frames(5) [OF g] assms(2) by simp
  show ?thesis
  proof (cases g)
    case (Inl e)
    with assms(1) g s1 show ?thesis by (simp add: SyncToFinalized_def wrapS_def)
  next
    case (Inr l)
    obtain q s2 where q: "(if l = 0 then wrapS ''set initial sync block'' (UpdateLastSyncedBlock (d - 1)) s1 else (Inr (), s1)) = (q, s2)"
      by fastforce
    have s2: "P (tbl s2)" using q s1 invS_E [OF invS_wrap [OF assms(3)] s1] by (auto split: if_splits)
    note run = assms(1) [unfolded SyncToFinalized_def prod.case wrapS_bind g Inr sum.case q]
    show ?thesis
      using run s2 by (cases q; cases "GetFinalizedBlock (client sy) w"; cases "fst (GetFinalizedBlock (client sy) w)")
        (auto dest: SyncToBlock_inv [OF _ s2 assms(4)])
  qed
qed

lemma emptyTables_sound: "tablesSound o1 emptyTables"
  using emptyTables_wf by (simp add: tablesSound_def tableGenuine_def emptyTables_def)

lemma tablesSound_progress:
  "tablesSound o1 (t\<lparr>chain_id := c\<rparr>) = tablesSound o1 t" "tblInv (tablesSound o1) (UpdateLastSyncedBlock b)"
proof -
  show "tablesSound o1 (t\<lparr>chain_id := c\<rparr>) = tablesSound o1 t"
    by (simp add: tablesSound_def tableGenuine_def db_wf_def)
  show "tblInv (tablesSound o1) (UpdateLastSyncedBlock b)"
    unfolding UpdateLastSyncedBlock_def by (intro inv_rules) (simp add: tablesSound_def tableGenuine_def db_wf_def)
qed

lemma startServices_inv:
  assumes "epochsFit o1" "startServices fuel fresh d o1 bs (s, w) = Some (Inr st)" "tablesSound o1 (tbl s)"
  shows "serviceInv o1 st"
proof -
  obtain c s1 w1 where o: "openState fresh (client (or_syncer o1)) (s, w) = (Inr c, s1, w1)"
    using assms(2) by (auto simp: startServices_def split: prod.splits sum.splits)
  have s1: "tablesSound o1 (tbl s1)"
    using openState_Inr [OF o] assms(3) emptyTables_sound by (auto simp: tablesSound_progress)
  obtain s2 bs2 w2 where y: "SyncToFinalized fuel (or_syncer o1) d (s1, bs, w1) = Some (Inr (), s2, bs2, w2)"
    using assms(2) o by (auto simp: startServices_def split: option.splits prod.splits sum.splits)
  have s2: "tablesSound o1 (tbl s2)"
    by (rule SyncToFinalized_inv [OF y s1 tablesSound_progress(2) processBatch_sound])
  obtain e w3 t where e: "GetFinalizedEpoch (or_beacon o1) w2 = (Inr e, w3)" "e \<noteq> 0"
    and t: "NextTarget (or_schedule o1) (e - 1) = Some t"
    and st: "st = \<lparr>sv_store = s2, sv_batch = bs2, sv_world = w3, sv_chan = [], sv_target = t, sv_last = 0\<rparr>"
    using assms(2) o y
    by (auto simp: startServices_def wrapS_def split: prod.splits sum.splits if_splits)
  have "isTarget (or_schedule o1) t" using clock.next_target assms(1) e t unfolding epochsFit_def by blast
  with s2 st show ?thesis by (simp add: serviceInv_def)
qed

lemma fetched_epoch:
  assumes "beaconCall c (fetchCheckpoint c epoch block) w = (Inr cp, w')"
  shows "CP_Epoch cp = epoch"
  by (rule beaconCall_Inr [OF assms])
     (auto simp: fetchCheckpoint_def failS_def retS_def elim!: bindS_eq_InrE split: sum.splits)

lemma serviceStep_inv:
  assumes "serviceStep o1 u order page st st'" "epochsFit o1" "pack_ok (or_pack o1)"
    "\<And>m. mset (or_mapOrder o1 m) = mset m" "serviceInv o1 st"
  shows "serviceInv o1 st'"
  using assms(1)
proof cases
  case (finalizedEvent epoch block ch w)
  have "set ch \<subseteq> set (sv_chan st) \<union> {cp. CP_Epoch cp = epoch} \<and> length ch \<le> 1"
    using finalizedEvent(2) assms(5)
    by (auto simp: onFinalizedEvent_def serviceInv_def split: prod.splits sum.splits if_splits
        dest: fetched_epoch)
  with finalizedEvent assms(5) show ?thesis by (auto simp: serviceInv_def)
next
  case (checkpoint cp ch fuel t tried s bs w)
  have v: "Validate (or_schedule o1) = None" using assms(2) by (simp add: epochsFit_def)
  have i: "isTarget (or_schedule o1) (sv_target st)" "tablesSound o1 (tbl (sv_store st))"
    using assms(5) by (simp_all add: serviceInv_def)
  have "roomAt (or_schedule o1) (CP_Epoch cp - 1)" if "CP_Epoch cp \<noteq> 0"
    using checkpoint(2) assms(5) that by (intro roomAt_pred) (auto simp: serviceInv_def word_gt_0)
  from handleCheckpoint_target [OF v this i(1) checkpoint(3)] have "isTarget (or_schedule o1) t" by simp
  moreover have "tablesSound o1 (tbl s)" by (rule handleCheckpoint_sound [OF assms(3,4) i(1) checkpoint(3) i(2)])
  ultimately show ?thesis using checkpoint assms(5) by (auto simp: serviceInv_def)
next
  case (restart fuel fresh deployBlock bs)
  with startServices_inv [OF assms(2)] assms(5) show ?thesis by (auto simp: serviceInv_def)
next
  case (rootCommitted fuel ev l dn s bs w)
  with handleEvent_frame [OF rootCommitted(2)] assms(5) show ?thesis by (simp add: serviceInv_def)
qed (use assms(5) ServeHTTP_frame in \<open>auto simp: serviceInv_def\<close>)

lemma running_inv:
  assumes "running o1 u order page st" "epochsFit o1" "pack_ok (or_pack o1)" "\<And>m. mset (or_mapOrder o1 m) = mset m"
  shows "serviceInv o1 st"
  using assms(1)
proof induction
  case (boot fuel fresh d bs s w st)
  with startServices_inv [OF assms(2)] emptyTables_sound show ?case by metis
next
  case (handled st st')
  with serviceStep_inv assms(2-) show ?case by blast
qed

section \<open>Properties\<close>

lemma processCommit_accepts:
  assumes "buildTree (keccakOf (up_syncer u)) (up_pack u) (up_mapOrder u) (Commit_ClusterBalances cm) = Some t"
    "Tree_Root t = Commit_MerkleRoot cm"
  shows "processCommit f u cm x \<noteq> Some (Inl e, x')"
  by (auto simp: processCommit_def assms split: option.splits prod.splits)

lemma resolveCommit_errors:
  assumes "faults s = []" "resolveCommit req s = (Inl e, s')"
  shows "e = errBadEpoch \<or> e = errCommitNotFound"
  using assms unfolding resolveCommit_def GetLatestCommit_def GetCommitByEpoch_def
  by (auto simp: opS_simps split: if_splits option.splits prod.splits sum.splits)

lemma handleResolveError_known:
  "e = errBadEpoch \<or> e = errCommitNotFound \<Longrightarrow> statusOf (handleResolveError e) \<in> {400, 404}"
  by (auto simp: handleResolveError_def statusOf_def errBadEpoch_def errCommitNotFound_def)

lemma GetProof_total:
  assumes "pack_ok pk" "\<And>m. mset (order m) = mset m" "buildTree kc pk order bals = Some t"
  shows "GetProof t cid \<noteq> None"
proof -
  have wf: "pack_ok pk \<and> wfClusters (order (balanceMapOf bals))"
    using assms(1,2) balanceMapOf_wf wfClusters_perm by metis
  note t = assms(3) [unfolded buildTree_def]
  show ?thesis
    using mt.prove_entry [OF wf t, of cid] mt.prove_missing [OF wf t, of cid]
    by (cases "map_of (order (balanceMapOf bals)) cid") auto
qed

text \<open>C2: the invariant of the running program, over restarts and whatever the chain, the beacon
  node and failing statements do. The database is well-formed; every commit row belongs to a
  target of the schedule and carries the root of the tree over its own balances, so that the updater
  never gives up on a stored commit; the oracle waits for a target of the schedule; and at most
  one checkpoint is buffered.\<close>

theorem system_invariant:
  assumes "running o1 u order page st" "epochsFit o1" "pack_ok (or_pack o1)" "\<And>m. mset (or_mapOrder o1 m) = mset m"
    "keccakOf (up_syncer u) = keccakOf (or_syncer o1)" "up_pack u = or_pack o1" "\<And>m. mset (up_mapOrder u m) = mset m"
  shows "db_wf (tbl (sv_store st)) \<and> isTarget (or_schedule o1) (sv_target st) \<and> length (sv_chan st) \<le> 1 \<and>
    (\<forall>c \<in> set (oracle_commits (tbl (sv_store st))). isTarget (or_schedule o1) (target_epoch c) \<and>
       (\<exists>t. buildTree (keccakOf (or_syncer o1)) (or_pack o1) (or_mapOrder o1) (Commit_ClusterBalances (scanCommit c)) = Some t \<and>
          Tree_Root t = merkle_root c) \<and>
       (\<forall>f x e x'. processCommit f u (scanCommit c) x \<noteq> Some (Inl e, x')))"
proof -
  note inv = running_inv [OF assms(1-4)]
  have "isTarget (or_schedule o1) (target_epoch c) \<and>
       (\<exists>t. buildTree (keccakOf (or_syncer o1)) (or_pack o1) (or_mapOrder o1) (Commit_ClusterBalances (scanCommit c)) = Some t \<and>
          Tree_Root t = merkle_root c) \<and>
       (\<forall>f x e x'. processCommit f u (scanCommit c) x \<noteq> Some (Inl e, x'))"
    if "c \<in> set (oracle_commits (tbl (sv_store st)))" for c
  proof -
    have c: "rowSound (keccakOf (or_syncer o1)) (or_pack o1) (or_schedule o1) c"
      using inv that by (simp add: serviceInv_def tablesSound_def)
    then show ?thesis
      using rowSound_tree [OF assms(3,4) c] rowSound_tree [OF assms(3,7) c] processCommit_accepts [of u "scanCommit c"]
      by (fastforce simp: rowSound_def scanCommit_def assms(5,6))
  qed
  with inv show ?thesis by (simp add: serviceInv_def tablesSound_def)
qed

lemma running_handlers:
  assumes "running o1 u order page st" "epochsFit o1" "pack_ok (or_pack o1)" "\<And>m. mset (or_mapOrder o1 m) = mset m"
    "\<And>m. mset (order m) = mset m" "faults (sv_store st) = []"
    "r = handleGetProof (keccakOf (or_syncer o1)) (or_pack o1) order req (sv_store st) \<or>
     r = handleGetCommit (keccakOf (or_syncer o1)) (or_pack o1) order req (sv_store st)"
  shows "\<exists>resp. fst r = Some resp \<and> statusOf resp \<in> {200, 400, 404}"
proof -
  note inv = running_inv [OF assms(1-4)]
  have tree: "\<exists>t. buildTree (keccakOf (or_syncer o1)) (or_pack o1) order (Commit_ClusterBalances cm) = Some t \<and>
      Tree_Root t = Commit_MerkleRoot cm" if "resolveCommit req (sv_store st) = (Inr (cm, prev, nx), s')" for cm prev nx s'
  proof -
    note res = that
    obtain c where c: "c \<in> set (oracle_commits (tbl (sv_store st)))" "cm = scanCommit c"
      using resolveCommit_stored [OF res] by blast
    then have "rowSound (keccakOf (or_syncer o1)) (or_pack o1) (or_schedule o1) c"
      using inv by (simp add: serviceInv_def tablesSound_def)
    from rowSound_tree [OF assms(3,5) this] c show ?thesis by simp
  qed
  obtain q s' where q: "resolveCommit req (sv_store st) = (q, s')" by fastforce
  show ?thesis
  proof (cases q)
    case (Inl e)
    then have "statusOf (handleResolveError e) \<in> {400, 404}"
      using handleResolveError_known resolveCommit_errors [OF assms(6)] q by blast
    with q Inl assms(7) show ?thesis
      by (auto simp: handleGetProof_def handleGetCommit_def statusOf_def split: sum.splits)
  next
    case (Inr x)
    then obtain cm prev nx where x: "q = Inr (cm, prev, nx)" by (cases x) auto
    obtain t where t: "buildTree (keccakOf (or_syncer o1)) (or_pack o1) order (Commit_ClusterBalances cm) = Some t"
      "Tree_Root t = Commit_MerkleRoot cm" using tree q x by blast
    have "\<exists>y. GetProof t cid = Some y" for cid using GetProof_total [OF assms(3,5) t(1), of cid] by blast
    then obtain pf where "\<And>cid. GetProof t cid = Some (pf cid)" by metis
    with t q x assms(7) show ?thesis
      by (auto simp: handleGetProof_def handleGetCommit_def rootMatches_def statusOf_def Let_def
          split: sum.splits option.splits prod.splits)
  qed
qed

text \<open>C25: while the database answers and the UI page is embedded, the HTTP server of the running
  program never answers any request with a server error: it is served, redirected, or refused as
  malformed, not found or not allowed; and no request changes the tables.\<close>

theorem api_no_server_error:
  assumes "running o1 u order page st" "epochsFit o1" "pack_ok (or_pack o1)" "\<And>m. mset (or_mapOrder o1 m) = mset m"
    "\<And>m. mset (order m) = mset m" "faults (sv_store st) = []" "page \<noteq> None"
    "ServeHTTP (keccakOf (or_syncer o1)) (or_pack o1) order page h (sv_store st) = (r, s')"
  shows "Http_status r \<in> {200, 301, 400, 404, 405} \<and> tbl s' = tbl (sv_store st)"
proof -
  have st: "statusOf (fst (recoveryMiddleware r')) \<in> {200, 400, 404}"
    if "r' = handleGetProof (keccakOf (or_syncer o1)) (or_pack o1) order req (sv_store st) \<or>
        r' = handleGetCommit (keccakOf (or_syncer o1)) (or_pack o1) order req (sv_store st)" for r' req
    using running_handlers [OF assms(1-6) that] by (auto simp: recoveryMiddleware_def)
  have "Http_status (fst (serveAPI (keccakOf (or_syncer o1)) (or_pack o1) order h (sv_store st))) \<in> {200, 400, 404}"
    using st [OF disjI1 [OF refl]] st [OF disjI2 [OF refl]]
    by (simp add: serveAPI_def Let_def case_prod_beta plainError_def)
  then have "Http_status (fst (ServeHTTP (keccakOf (or_syncer o1)) (or_pack o1) order page h (sv_store st)))
      \<in> {200, 301, 400, 404, 405}"
    using assms(7) by (auto simp: ServeHTTP_def handleUI_def plainError_def)
  with assms(8) ServeHTTP_frame [OF assms(8)] show ?thesis by simp
qed

text \<open>A sample run: a start on an empty database, a checkpoint that reaches the target 100, and the
  commit.\<close>

lemma sampleStart:
  "startServices 1 False 5 sampleOracle (NewAdaptiveBatchSize 2 2) (\<lparr>tbl = emptyTables, faults = []\<rparr>, 0) =
     Some (Inr \<lparr>sv_store = toyStoreOn (Some 1), sv_batch = NewAdaptiveBatchSize 2 2, sv_world = 0, sv_chan = [],
       sv_target = 100, sv_last = 0\<rparr>)"
proof -
  let ?s = "\<lparr>tbl = emptyTables\<lparr>chain_id := Some 1\<rparr>, faults = []\<rparr>"
  have y: "or_syncer sampleOracle = toySyncer" "client toySyncer = toyClient" by (simp_all add: sampleOracle_def toySyncer_def)
  have c: "GetChainIDRpc toyClient w = (Inr 1, w)" "GetFinalizedBlock toyClient w = (Inr 4, w)" for w
    by (simp_all add: GetChainIDRpc_def GetFinalizedBlock_def WithRetry_ok retS_def toyClient_def sampleClient_def)
  have o: "openState False toyClient (\<lparr>tbl = emptyTables, faults = []\<rparr>, 0) = (Inr 1, ?s, 0)"
    by (simp add: openState_def validateChainID_def c GetChainID_def SetChainID_def wrapS_def emptyTables_def)
  have "SyncToFinalized 1 toySyncer 5 (?s, NewAdaptiveBatchSize 2 2, 0) =
      Some (Inr (), toyStoreOn (Some 1), NewAdaptiveBatchSize 2 2, 0)"
    by (simp add: SyncToFinalized_def y c wrapS_def GetLastSyncedBlock_def UpdateLastSyncedBlock_def
        SyncToBlock_def emptyTables_def toyStoreOn_def)
  then show ?thesis
    by (simp add: startServices_def y o wrapS_def sampleOracle_facts)
       (simp add: sampleSchedule_def NextTarget_def PhaseAt_def)
qed

lemma sampleRunning:
  "\<exists>st c. running sampleOracle sampleUpdater (\<lambda>m. m) page st \<and> faults (sv_store st) = [] \<and>
     c \<in> set (oracle_commits (tbl (sv_store st)))"
proof -
  let ?cp = "\<lparr>CP_Epoch = 101, CP_BlockNum = 5, CP_BlockRoot = [7]\<rparr>"
  let ?st = "\<lparr>sv_store = toyStoreOn (Some 1), sv_batch = NewAdaptiveBatchSize 2 2, sv_world = 0, sv_chan = [],
       sv_target = 100, sv_last = 0\<rparr> :: nat service"
  have 1: "running sampleOracle sampleUpdater (\<lambda>m. m) page ?st"
    by (rule boot [OF sampleStart]) simp
  have room: "roomAt (or_schedule sampleOracle) (101 :: u64)"
    by (simp add: sampleOracle_def roomAt_def sampleSchedule_def)
  have "onFinalizedEvent (or_beacon sampleOracle) 101 [7] [] (0 :: nat) = ([?cp], 0)"
    by (simp add: onFinalizedEvent_def beaconCall_def fetchCheckpoint_def WithRetry_ok opS_simps sampleOracle_def
        sampleBeacon_def)
  then have "serviceStep sampleOracle sampleUpdater (\<lambda>m. m) page ?st (?st\<lparr>sv_chan := [?cp], sv_world := 0\<rparr>)"
    using room by (intro finalizedEvent) simp_all
  with 1 have 2: "running sampleOracle sampleUpdater (\<lambda>m. m) page (?st\<lparr>sv_chan := [?cp], sv_world := 0\<rparr>)" by (rule handled)
  obtain root s1 bs1 w1 where p: "prepareCommit (Suc (Suc 0)) sampleOracle ?cp 100
      (toyStoreOn (Some 1), NewAdaptiveBatchSize 2 2, 0) = Some (Inr root, s1, bs1, w1)" using samplePrepare_on by blast
  obtain err s2 bs2 w2 where q: "submitCommit (Suc (Suc 0)) sampleOracle ?cp 100 root (s1, bs1, w1) =
      Some (err, s2, bs2, w2)" using sampleSubmit by blast
  have n: "commitOf (toyStoreOn (Some 1)) 100 = None" by (simp add: commitOf_def toyStoreOn_def emptyTables_def)
  have "commitOf s2 100 \<noteq> None" using prepared_row [OF p n] submitCommit_row [OF q]
    by (auto simp: UpdateCommitStatus_row)
  then obtain c where c: "c \<in> set (oracle_commits (tbl s2))" by (auto simp: commitOf_def find_None_iff)
  have "NextTarget sampleSchedule 100 = Some 110" by code_simp
  then have "handleCheckpoint (Suc (Suc 0)) sampleOracle ?cp 100 (toyStoreOn (Some 1), NewAdaptiveBatchSize 2 2, 0) =
      Some (110, Some 100, s2, bs2, w2)"
    using p q by (simp add: handleCheckpoint_def commit_def sampleOracle_facts)
  then have "serviceStep sampleOracle sampleUpdater (\<lambda>m. m) page (?st\<lparr>sv_chan := [?cp], sv_world := 0\<rparr>)
      (?st\<lparr>sv_store := s2, sv_batch := bs2, sv_world := w2, sv_chan := [], sv_target := 110\<rparr>)"
    using checkpoint [where st = "?st\<lparr>sv_chan := [?cp], sv_world := 0\<rparr>" and cp = ?cp and ch = "[]"] by simp
  with 2 have 3: "running sampleOracle sampleUpdater (\<lambda>m. m) page
      (?st\<lparr>sv_store := s2, sv_batch := bs2, sv_world := w2, sv_chan := [], sv_target := 110\<rparr>)" by (rule handled)
  note handled [OF 3 outside [where fs = "[]" and w = 0]]
  with c show ?thesis by (intro exI conjI) auto
qed

lemma sampleSystem:
  "epochsFit sampleOracle" "pack_ok (or_pack sampleOracle)" "mset (or_mapOrder sampleOracle m) = mset m"
  "keccakOf (up_syncer sampleUpdater) = keccakOf (or_syncer sampleOracle)" "up_pack sampleUpdater = or_pack sampleOracle"
  "mset (up_mapOrder sampleUpdater m) = mset m"
  using sampleOracle_facts
  by (auto simp: epochsFit_def) (simp_all add: sampleOracle_def sampleUpdater_def samplePack_ok)

theorem system_invariant_witness:
  "\<exists>st c t. running sampleOracle sampleUpdater (\<lambda>m. m) (Some []) st \<and> c \<in> set (oracle_commits (tbl (sv_store st))) \<and>
     isTarget (or_schedule sampleOracle) (target_epoch c) \<and>
     buildTree (keccakOf (or_syncer sampleOracle)) (or_pack sampleOracle) (or_mapOrder sampleOracle)
       (Commit_ClusterBalances (scanCommit c)) = Some t \<and> Tree_Root t = merkle_root c"
proof -
  obtain st c where "running sampleOracle sampleUpdater (\<lambda>m. m) (Some []) st" "c \<in> set (oracle_commits (tbl (sv_store st)))"
    using sampleRunning by blast
  with system_invariant [OF _ sampleSystem] show ?thesis by blast
qed

definition sampleGet :: httpRequest where
  "sampleGet = \<lparr>Http_method = ''GET'', Http_path = [''api'', ''v1'', ''proof'', toHex toyID], Http_slash = False,
     Http_epoch = [], Http_full = []\<rparr>"

theorem api_no_server_error_witness:
  "\<exists>st c r s'. running sampleOracle sampleUpdater (\<lambda>m. m) (Some []) st \<and> c \<in> set (oracle_commits (tbl (sv_store st))) \<and>
     ServeHTTP (keccakOf (or_syncer sampleOracle)) (or_pack sampleOracle) (\<lambda>m. m) (Some []) sampleGet (sv_store st) =
       (r, s') \<and> Http_status r \<in> {200, 301, 400, 404, 405}"
proof -
  obtain st c where st: "running sampleOracle sampleUpdater (\<lambda>m. m) (Some []) st" "faults (sv_store st) = []"
    "c \<in> set (oracle_commits (tbl (sv_store st)))" using sampleRunning by blast
  obtain r s' where r: "ServeHTTP (keccakOf (or_syncer sampleOracle)) (or_pack sampleOracle) (\<lambda>m. m) (Some []) sampleGet
      (sv_store st) = (r, s')" by fastforce
  from api_no_server_error [OF st(1) sampleSystem(1-3) refl st(2) _ r] st r show ?thesis by blast
qed

section \<open>Commits survive\<close>

lemma commit_kept:
  assumes "commit fuel o1 cp target (s, bs, w) = Some (err, s', bs', w')" "commitsKept t0 (tbl s)"
  shows "commitsKept t0 (tbl s')"
proof -
  have ins: "tblInv (commitsKept t0) (InsertPendingCommit e root b bals)"
    and upd: "tblInv (commitsKept t0) (UpdateCommitStatus e st h)" for e root b bals st h
    using runOp_commitsKept [of "OpInsertPendingCommit e root b bals" t0] runOp_commitsKept [of "OpUpdateCommitStatus e st h" t0]
    by (simp_all add: runOp_def)
  obtain r s1 bs1 w1 where p: "prepareCommit fuel o1 cp target (s, bs, w) = Some (r, s1, bs1, w1)"
    using assms(1) by (auto simp: commit_def split: option.splits)
  obtain q sa bsa wa where q: "SyncToBlock fuel (or_syncer o1) (CP_BlockNum cp) (s, bs, w) = Some (q, sa, bsa, wa)"
    using p by (auto simp: prepareCommit_def split: option.splits)
  obtain v sb where v: "GetActiveValidators sa = (v, sb)" by fastforce
  have a: "commitsKept t0 (tbl sa)" using assms(2) SyncToBlock_commits [OF q] by (auto intro: commitsKept_same)
  have b: "tbl sb = tbl sa" by (rule GetActiveValidators_reads [THEN readsOnly_tbl, OF v])
  have s1: "commitsKept t0 (tbl s1)"
    using prepareCommit_store [OF p q v] a b invS_E [OF ins, of sb] by auto
  show ?thesis
  proof (cases r)
    case (Inl e)
    with assms(1) p s1 show ?thesis by (simp add: commit_def)
  next
    case (Inr root)
    with assms(1) p obtain st h where "s' = snd (UpdateCommitStatus target st h s1)"
      using submitCommit_row by (fastforce simp: commit_def)
    with invS_D [OF upd s1] show ?thesis by simp
  qed
qed

definition freshRestart :: "'w Oracle \<Rightarrow> 'w service \<Rightarrow> 'w service \<Rightarrow> bool" where
  "freshRestart o1 st st' \<longleftrightarrow>
     (\<exists>fuel deployBlock bs. startServices fuel True deployBlock o1 bs (sv_store st, sv_world st) = Some (Inr st'))"

lemma startServices_commits:
  assumes "startServices fuel fresh d o1 bs (s, w) = Some (Inr st)"
  shows "oracle_commits (tbl (sv_store st)) = (if fresh then [] else oracle_commits (tbl s))"
proof -
  obtain c s1 w1 where o: "openState fresh (client (or_syncer o1)) (s, w) = (Inr c, s1, w1)"
    using assms by (auto simp: startServices_def split: prod.splits sum.splits)
  have s1: "oracle_commits (tbl s1) = (if fresh then [] else oracle_commits (tbl s))"
    using openState_Inr [OF o] by (simp add: emptyTables_def)
  obtain s2 bs2 w2 where y: "SyncToFinalized fuel (or_syncer o1) d (s1, bs, w1) = Some (Inr (), s2, bs2, w2)" "sv_store st = s2"
    using assms o by (auto simp: startServices_def split: option.splits prod.splits sum.splits if_splits)
  have "tblInv (\<lambda>t. oracle_commits t = cs) (UpdateLastSyncedBlock b)" for b cs
    unfolding UpdateLastSyncedBlock_def by (intro inv_rules) simp
  from SyncToFinalized_inv [OF y(1) s1 this processBatch_commits] y(2) show ?thesis by simp
qed

lemma serviceStep_kept:
  assumes "serviceStep o1 u order page st st'" "\<not> freshRestart o1 st st'" "commitsKept t0 (tbl (sv_store st))"
  shows "commitsKept t0 (tbl (sv_store st'))"
  using assms(1)
proof cases
  case (checkpoint cp ch fuel t tried s bs w)
  from checkpoint(3) have "commitsKept t0 (tbl s)"
    by (cases rule: handleCheckpoint_cases) (use assms(3) commit_kept in auto)
  with checkpoint(1) show ?thesis by simp
next
  case (rootCommitted fuel ev l dn s bs w)
  with handleEvent_frame [OF rootCommitted(2)] assms(3) show ?thesis by simp
next
  case (httpRequest h r s)
  with ServeHTTP_frame [OF httpRequest(2)] assms(3) show ?thesis by simp
next
  case (restart fuel fresh d bs)
  then have "\<not> fresh" using assms(2) by (auto simp: freshRestart_def)
  with restart have "oracle_commits (tbl (sv_store st')) = oracle_commits (tbl (sv_store st))"
    using startServices_commits by fastforce
  with commitsKept_same [OF assms(3)] show ?thesis by simp
qed (use assms(3) in simp_all)

text \<open>C16: a stored commit is permanent. Along every run of the program, with restarts but without
  \<open>--fresh\<close>, a commit row keeps its root, its reference block and its balances, and once it is confirmed
  or failed it does not change at all.\<close>

theorem commits_survive:
  assumes "(\<lambda>a b. serviceStep o1 u order page a b \<and> \<not> freshRestart o1 a b)\<^sup>*\<^sup>* st st'"
    "c \<in> set (oracle_commits (tbl (sv_store st)))"
  shows "\<exists>c' \<in> set (oracle_commits (tbl (sv_store st'))).
     target_epoch c' = target_epoch c \<and> merkle_root c' = merkle_root c \<and> reference_block c' = reference_block c \<and>
     cluster_balances c' = cluster_balances c \<and> (status c \<noteq> CommitStatusPending \<longrightarrow> c' = c)"
proof -
  have "commitsKept (tbl (sv_store st)) (tbl (sv_store st'))"
    using assms(1) by induction (auto intro: commitsKept_refl serviceStep_kept)
  with assms(2) show ?thesis by (auto simp: commitsKept_def keptAs_def)
qed

lemma freshRestart_empty: "freshRestart o1 st st' \<Longrightarrow> oracle_commits (tbl (sv_store st')) = []"
  unfolding freshRestart_def using startServices_commits by fastforce

theorem commits_survive_witness:
  "\<exists>st st' c. running sampleOracle sampleUpdater (\<lambda>m. m) (Some []) st \<and> st' \<noteq> st \<and>
     c \<in> set (oracle_commits (tbl (sv_store st))) \<and>
     (\<exists>c' \<in> set (oracle_commits (tbl (sv_store st'))). merkle_root c' = merkle_root c)"
proof -
  obtain st c where st: "running sampleOracle sampleUpdater (\<lambda>m. m) (Some []) st" "faults (sv_store st) = []"
    "c \<in> set (oracle_commits (tbl (sv_store st)))" using sampleRunning by blast
  let ?st = "st\<lparr>sv_world := 0, sv_store := (sv_store st)\<lparr>faults := [Some CtxErr]\<rparr>\<rparr>"
  have "serviceStep sampleOracle sampleUpdater (\<lambda>m. m) (Some []) st ?st" by (rule outside)
  moreover have "\<not> freshRestart sampleOracle st ?st"
  proof
    assume "freshRestart sampleOracle st ?st"
    from freshRestart_empty [OF this] st(3) show False by simp
  qed
  ultimately have steps: "(\<lambda>a b. serviceStep sampleOracle sampleUpdater (\<lambda>m. m) (Some []) a b \<and>
      \<not> freshRestart sampleOracle a b)\<^sup>*\<^sup>* st ?st" by blast
  have "sv_store ?st \<noteq> sv_store st" using st(2) by (cases "sv_store st") simp
  then have "?st \<noteq> st" by metis
  with st commits_survive [OF steps st(3)] show ?thesis by blast
qed

end
