(* ===== verification/Subscription.thy ===== *)
theory Subscription
  imports Beacon "HOL-Library.Sublist"
begin

text \<open>
  \<open>SubscribeFinalizedCheckpoints\<close> of \<^verbatim>\<open>eth/beacon/client.go\<close>: the channel between the handler of
  the SSE events, which runs on a goroutine of the client library, the consumer (the oracle) and
  the goroutine that closes the channel when the context is done, as a step relation over their
  interleavings. The library delivers one event after the other; which ones, and when, is
  arbitrary.
\<close>

section \<open>The channel\<close>

text \<open>
  \<open>sub_pending\<close> is a checkpoint that the handler has fetched and is about to offer,
  \<open>sub_panicked\<close> a send on the closed channel, which panics even in a \<open>select\<close> with a default.
  \<open>sub_fetched\<close> and \<open>sub_taken\<close> record what the handler has fetched and what the consumer has received.
\<close>

record 'w subscription =
  sub_chan :: "FinalizedCheckpoint list"
  sub_closed :: bool
  sub_done :: bool
  sub_pending :: "FinalizedCheckpoint option"
  sub_panicked :: bool
  sub_world :: 'w
  sub_fetched :: "FinalizedCheckpoint list"
  sub_taken :: "FinalizedCheckpoint list"

text \<open>The call itself: \<open>events\<close> is the library's \<open>Events\<close>. When it fails the channel is closed and
  only the error is returned; else the subscription is live, with an empty channel of capacity 1.\<close>

definition SubscribeFinalizedCheckpoints :: "('w, unit) op \<Rightarrow> ('w, 'w subscription) op" where
  "SubscribeFinalizedCheckpoints events w =
     (case wrapS ''subscribe to finalized checkpoints'' events w of
        (Inl e, w') \<Rightarrow> (Inl e, w')
      | (Inr _, w') \<Rightarrow> (Inr \<lparr>sub_chan = [], sub_closed = False, sub_done = False, sub_pending = None,
            sub_panicked = False, sub_world = w', sub_fetched = [], sub_taken = []\<rparr>, w'))"

text \<open>The \<open>select\<close> of the handler: send if there is room, else drop.\<close>

definition offer :: "FinalizedCheckpoint \<Rightarrow> FinalizedCheckpoint list \<Rightarrow> FinalizedCheckpoint list" where
  "offer cp ch = (if length ch < 1 then ch @ [cp] else ch)"

inductive subStep :: "'w beaconClient \<Rightarrow> 'w subscription \<Rightarrow> 'w subscription \<Rightarrow> bool"
  for c where
  fetch:
    "\<not> sub_panicked st \<Longrightarrow> sub_pending st = None \<Longrightarrow>
     beaconCall c (fetchCheckpoint c epoch block) (sub_world st) = (Inr cp, w) \<Longrightarrow>
     subStep c st (st\<lparr>sub_pending := Some cp, sub_world := w, sub_fetched := sub_fetched st @ [cp]\<rparr>)"
| fetchFails:
    "\<not> sub_panicked st \<Longrightarrow> sub_pending st = None \<Longrightarrow>
     beaconCall c (fetchCheckpoint c epoch block) (sub_world st) = (Inl e, w) \<Longrightarrow>
     subStep c st (st\<lparr>sub_world := w\<rparr>)"
| send:
    "\<not> sub_panicked st \<Longrightarrow> sub_pending st = Some cp \<Longrightarrow> \<not> sub_closed st \<Longrightarrow>
     subStep c st (st\<lparr>sub_pending := None, sub_chan := offer cp (sub_chan st)\<rparr>)"
| sendClosed:
    "\<not> sub_panicked st \<Longrightarrow> sub_pending st = Some cp \<Longrightarrow> sub_closed st \<Longrightarrow>
     subStep c st (st\<lparr>sub_panicked := True\<rparr>)"
| receive:
    "\<not> sub_panicked st \<Longrightarrow> sub_chan st = cp # ch \<Longrightarrow>
     subStep c st (st\<lparr>sub_chan := ch, sub_taken := sub_taken st @ [cp]\<rparr>)"
| cancel:
    "\<not> sub_panicked st \<Longrightarrow> subStep c st (st\<lparr>sub_done := True\<rparr>)"
| closeChannel:
    "\<not> sub_panicked st \<Longrightarrow> sub_done st \<Longrightarrow> \<not> sub_closed st \<Longrightarrow>
     subStep c st (st\<lparr>sub_closed := True\<rparr>)"
| outside:
    "\<not> sub_panicked st \<Longrightarrow> subStep c st (st\<lparr>sub_world := w\<rparr>)"

inductive subscribed :: "'w beaconClient \<Rightarrow> ('w, unit) op \<Rightarrow> 'w subscription \<Rightarrow> bool"
  for c events where
  start: "SubscribeFinalizedCheckpoints events w = (Inr st, w') \<Longrightarrow> subscribed c events st"
| step: "subscribed c events st \<Longrightarrow> subStep c st st' \<Longrightarrow> subscribed c events st'"

section \<open>The invariant\<close>

text \<open>What was received and what is buffered are some of the checkpoints fetched before the
  pending one, in their order.\<close>

definition subInv :: "'w subscription \<Rightarrow> bool" where
  "subInv st \<longleftrightarrow> length (sub_chan st) \<le> 1 \<and> (sub_closed st \<longrightarrow> sub_done st) \<and>
     (sub_panicked st \<longrightarrow> sub_closed st \<and> sub_pending st \<noteq> None) \<and>
     (\<exists>old. sub_fetched st = old @ (case sub_pending st of None \<Rightarrow> [] | Some cp \<Rightarrow> [cp]) \<and>
        subseq (sub_taken st @ sub_chan st) old)"

lemma SubscribeFinalizedCheckpoints_inv:
  "SubscribeFinalizedCheckpoints events w = (Inr st, w') \<Longrightarrow> subInv st"
  by (auto simp: SubscribeFinalizedCheckpoints_def subInv_def split: prod.splits sum.splits)

lemma offer_subseq: "subseq (xs @ ch) old \<Longrightarrow> subseq (xs @ offer cp ch) (old @ [cp])"
  using list_emb_append_mono [of "(=)" "xs @ ch" old "[cp]" "[cp]"]
  by (auto simp: offer_def intro: subseq_rev_drop_many)

lemma subStep_inv: "subStep c st st' \<Longrightarrow> subInv st \<Longrightarrow> subInv st'"
proof (induction rule: subStep.induct)
  case (send st cp)
  then obtain old where "sub_fetched st = old @ [cp]" "subseq (sub_taken st @ sub_chan st) old"
    by (auto simp: subInv_def)
  with send offer_subseq show ?case by (fastforce simp: subInv_def offer_def)
qed (auto simp: subInv_def)

lemma subscribed_inv: "subscribed c events st \<Longrightarrow> subInv st"
  by (induction rule: subscribed.induct) (auto intro: SubscribeFinalizedCheckpoints_inv subStep_inv)

text \<open>While the channel is open, a fetch and the offer after it are what \<open>onFinalizedEvent\<close> does in
  one step.\<close>

lemma onFinalizedEvent_steps:
  assumes "\<not> sub_panicked st" "\<not> sub_closed st" "sub_pending st = None"
    "onFinalizedEvent c epoch block (sub_chan st) (sub_world st) = (ch, w)"
  shows "\<exists>fs. (subStep c)\<^sup>*\<^sup>* st (st\<lparr>sub_chan := ch, sub_world := w, sub_fetched := fs\<rparr>)"
proof (cases "beaconCall c (fetchCheckpoint c epoch block) (sub_world st)")
  case (Pair r w1)
  show ?thesis
  proof (cases r)
    case (Inl e)
    have "subStep c st (st\<lparr>sub_world := w1\<rparr>)" by (rule fetchFails) (use assms Pair Inl in auto)
    moreover have "ch = sub_chan st" "w = w1" using assms(4) Pair Inl by (simp_all add: onFinalizedEvent_def)
    ultimately show ?thesis by (intro exI [of _ "sub_fetched st"]) simp
  next
    case (Inr cp)
    let ?st = "st\<lparr>sub_pending := Some cp, sub_world := w1, sub_fetched := sub_fetched st @ [cp]\<rparr>"
    have "subStep c st ?st" by (rule fetch) (use assms Pair Inr in auto)
    moreover have "subStep c ?st (?st\<lparr>sub_pending := None, sub_chan := offer cp (sub_chan ?st)\<rparr>)"
      by (rule send) (use assms in simp_all)
    moreover have "ch = offer cp (sub_chan st)" "w = w1"
      using assms(4) Pair Inr by (simp_all add: onFinalizedEvent_def offer_def)
    ultimately have "(subStep c)\<^sup>*\<^sup>* st (?st\<lparr>sub_pending := None, sub_chan := ch\<rparr>)" "w = w1"
      by (simp_all add: converse_rtranclp_into_rtranclp)
    moreover have "?st\<lparr>sub_pending := None, sub_chan := ch\<rparr> =
        st\<lparr>sub_chan := ch, sub_world := w1, sub_fetched := sub_fetched st @ [cp]\<rparr>"
      using assms(3) by (cases st) simp
    ultimately show ?thesis by (intro exI [of _ "sub_fetched st @ [cp]"]) simp
  qed
qed

section \<open>Properties\<close>

text \<open>C28: the channel of finalized checkpoints under every interleaving of handler, consumer and shutdown:
  it never holds more than one checkpoint; the consumer receives checkpoints that were fetched,
  in the order of the events and each at most once per event; it is closed only after the context is
  done; and as long as the context is live no send panics.\<close>

theorem subscription_safe:
  assumes "subscribed c events st"
  shows "length (sub_chan st) \<le> 1 \<and> subseq (sub_taken st @ sub_chan st) (sub_fetched st) \<and>
    (sub_closed st \<longrightarrow> sub_done st) \<and> (sub_panicked st \<longrightarrow> sub_done st)"
  using subscribed_inv [OF assms] unfolding subInv_def by (auto intro: subseq_rev_drop_many)

definition sampleSub :: "bool \<Rightarrow> nat subscription" where
  "sampleSub taken = \<lparr>sub_chan = [], sub_closed = False, sub_done = False, sub_pending = None, sub_panicked = False,
     sub_world = 0, sub_fetched = (if taken then [\<lparr>CP_Epoch = 9, CP_BlockNum = 5, CP_BlockRoot = [7]\<rparr>] else []),
     sub_taken = (if taken then [\<lparr>CP_Epoch = 9, CP_BlockNum = 5, CP_BlockRoot = [7]\<rparr>] else [])\<rparr>"

lemma sampleBeacon_checkpoint:
  "beaconCall sampleBeacon (fetchCheckpoint sampleBeacon 9 [7]) w =
     (Inr \<lparr>CP_Epoch = 9, CP_BlockNum = 5, CP_BlockRoot = [7]\<rparr>, w)"
  by (simp add: beaconCall_def WithRetry_ok fetchCheckpoint_def sampleBeacon_def retS_def bindS_def wrapS_def)

lemma sampleSub_start: "subscribed sampleBeacon (retS ()) (sampleSub False)"
  by (rule subscribed.start [of _ 0])
     (simp add: SubscribeFinalizedCheckpoints_def sampleSub_def retS_def wrapS_def)

lemma sampleSub_taken: "subscribed sampleBeacon (retS ()) (sampleSub True)"
proof -
  let ?cp = "\<lparr>CP_Epoch = 9, CP_BlockNum = 5, CP_BlockRoot = [7]\<rparr>"
  note s1 = subscribed.step [OF sampleSub_start fetch [OF _ _ sampleBeacon_checkpoint]]
  note s2 = subscribed.step [OF s1 send [where cp = ?cp]]
  note s3 = subscribed.step [OF s2 receive [where cp = ?cp and ch = "[]"]]
  from s3 show ?thesis by (simp add: sampleSub_def offer_def)
qed

theorem subscription_safe_witness:
  "subscribed sampleBeacon (retS ()) (sampleSub True) \<and> length (sub_taken (sampleSub True)) = 1 \<and>
   subseq (sub_taken (sampleSub True)) (sub_fetched (sampleSub True))"
  using subscription_safe [OF sampleSub_taken] sampleSub_taken by (simp add: sampleSub_def)

text \<open>At shutdown a send may panic. The goroutine closes the channel while the handler holds a
  checkpoint that it has fetched: the send in its \<open>select\<close> is then on a closed channel, and the
  panic is on a goroutine of the client library, where nothing recovers it.\<close>

theorem subscription_send_on_closed:
  assumes "subscribed c events st" "\<not> sub_panicked st" "\<not> sub_closed st" "sub_pending st = None"
    "beaconCall c (fetchCheckpoint c epoch block) (sub_world st) = (Inr cp, w)"
  shows "\<exists>st'. subscribed c events st' \<and> sub_panicked st'"
proof -
  let ?s1 = "st\<lparr>sub_pending := Some cp, sub_world := w, sub_fetched := sub_fetched st @ [cp]\<rparr>"
  let ?s2 = "?s1\<lparr>sub_done := True\<rparr>"
  let ?s3 = "?s2\<lparr>sub_closed := True\<rparr>"
  have s1: "subscribed c events ?s1" by (rule subscribed.step [OF assms(1) fetch]) (use assms in auto)
  have s2: "subscribed c events ?s2" by (rule subscribed.step [OF s1 cancel]) (use assms in simp)
  have s3: "subscribed c events ?s3" by (rule subscribed.step [OF s2 closeChannel]) (use assms in simp_all)
  have "subscribed c events (?s3\<lparr>sub_panicked := True\<rparr>)"
    by (rule subscribed.step [OF s3 sendClosed [where cp = cp]]) (use assms in simp_all)
  then show ?thesis by (rule exI [of _ "?s3\<lparr>sub_panicked := True\<rparr>", OF conjI]) simp
qed

end
