(* ===== verification/Launch.thy ===== *)
theory Launch
  imports System Connect Subscription
begin

text \<open>
  \<open>run\<close> of \<^verbatim>\<open>cmd/oracle/commands/run.go\<close> from the configuration to the exit: what it opens, in
  which order, with the constructors of \<^verbatim>\<open>storage\<close>, \<^verbatim>\<open>eth/execution\<close> and \<^verbatim>\<open>eth/beacon\<close>, and what the
  deferred calls release on every path; \<open>runServices\<close> as the end of its errgroup. The
  network, the SQL driver, the file system and the metrics exporter are libraries and parameters.
\<close>

section \<open>The host\<close>

text \<open>
  A database handle, the metrics provider and a connection are resources of one type \<open>'c\<close>, and
  \<open>hangUp (net host)\<close> releases any of them. \<open>dbExec\<close> runs a statement outside the
  tables of the model (a pragma) and \<open>dbSchema\<close> the embedded schema. \<open>beaconDial\<close> is \<open>eth2http.New\<close>
  with an address and a timeout in seconds; its client lives as long as the context.
\<close>

record ('w, 'c) hostLib =
  net :: "('w, 'c) dialLib"
  setupMetrics :: "('w, 'c) op"
  mkdirAll :: "string \<Rightarrow> ('w, unit) op"
  sqlOpen :: "string \<Rightarrow> ('w, 'c) op"
  dbPing :: "'c \<Rightarrow> ('w, unit) op"
  dbExec :: "'c \<Rightarrow> string \<Rightarrow> ('w, unit) op"
  dbSchema :: "'c \<Rightarrow> ('w, unit) op"
  clientVersion :: "'c \<Rightarrow> ('w, string) op"
  execCalls :: "'c \<Rightarrow> 'w execClient"
  beaconDial :: "string \<Rightarrow> nat \<Rightarrow> ('w, 'w beaconClient) op"
  nodeVersion :: "'w beaconClient \<Rightarrow> ('w, string) op"

section \<open>Opening the database\<close>

text \<open>\<open>filepath.Clean\<close> and \<open>filepath.Dir\<close> with slashes.\<close>

fun splitSlash :: "string \<Rightarrow> string \<Rightarrow> string list" where
  "splitSlash acc [] = [acc]"
| "splitSlash acc (c # cs) = (if c = CHR ''/'' then acc # splitSlash [] cs else splitSlash (acc @ [c]) cs)"

fun cleanFrom :: "bool \<Rightarrow> string list \<Rightarrow> string list \<Rightarrow> string list" where
  "cleanFrom rooted acc [] = rev acc"
| "cleanFrom rooted acc (c # cs) =
     (if c = [] \<or> c = ''.'' then cleanFrom rooted acc cs
      else if c = ''..'' then
        (case acc of
           [] \<Rightarrow> cleanFrom rooted (if rooted then [] else [''..'']) cs
         | a # as \<Rightarrow> cleanFrom rooted (if a = ''..'' then ''..'' # acc else as) cs)
      else cleanFrom rooted (c # acc) cs)"

definition pathClean :: "string \<Rightarrow> string" where
  "pathClean p =
     (let rooted = (p \<noteq> [] \<and> hd p = CHR ''/'');
          parts = cleanFrom rooted [] (splitSlash [] p)
      in if rooted then ''/'' @ joinWith ''/'' parts
         else if parts = [] then ''.''
         else joinWith ''/'' parts)"

definition pathDir :: "string \<Rightarrow> string" where
  "pathDir p = pathClean (rev (dropWhile (\<lambda>c. c \<noteq> CHR ''/'') (rev p)))"

definition sqliteDSN :: "string \<Rightarrow> string" where
  "sqliteDSN dbPath = dbPath @ ''?_pragma=foreign_keys(1)&_pragma=busy_timeout('' @ dec 5000 @
     '')&_pragma=cache_size(-'' @ dec 64000 @ '')''"

definition dbPragmas :: "string list" where
  "dbPragmas = [''PRAGMA journal_mode=WAL'', ''PRAGMA synchronous=NORMAL'']"

fun setPragmas :: "('w, 'c) hostLib \<Rightarrow> 'c \<Rightarrow> string list \<Rightarrow> ('w, unit) op" where
  "setPragmas host db [] = retS ()"
| "setPragmas host db (p # ps) = bindS (wrapS (''set '' @ p) (dbExec host db p)) (\<lambda>_. setPragmas host db ps)"

text \<open>\<open>storage.New\<close>. The handle is not closed on the error paths after \<open>sql.Open\<close>.\<close>

definition NewStorage :: "('w, 'c) hostLib \<Rightarrow> string \<Rightarrow> ('w, 'c) op" where
  "NewStorage host dbPath =
     bindS (let dir = pathDir dbPath in
            if dir \<noteq> ''.'' \<and> dir \<noteq> [] then wrapS ''create db directory'' (mkdirAll host dir) else retS ()) (\<lambda>_.
     bindS (wrapS ''open database'' (sqlOpen host (sqliteDSN dbPath))) (\<lambda>db.
     bindS (wrapS ''ping database'' (dbPing host db)) (\<lambda>_.
     bindS (setPragmas host db dbPragmas) (\<lambda>_.
     bindS (wrapS ''apply schema'' (dbSchema host db)) (\<lambda>_.
     retS db)))))"

section \<open>The clients\<close>

record execConfig =
  EC_URL :: string
  EC_MinBatchSize :: u64
  EC_MaxBatchSize :: u64
  EC_RetryConfig :: "RetryConfig option"

text \<open>\<open>execution.New\<close>: the connection, the client over it and its batch size. The version of
  the node is only logged and its error ignored.\<close>

definition NewExecClient ::
    "('w, 'c) hostLib \<Rightarrow> execConfig \<Rightarrow> ('w, 'c \<times> 'w execClient \<times> AdaptiveBatchSize) op" where
  "NewExecClient host cfg w =
     (case dial (net host) (EC_URL cfg) w of
        (Inl err, w1) \<Rightarrow> (Inl (Wrap ''dial RPC'' err), w1)
      | (Inr c, w1) \<Rightarrow>
          (case clientVersion host c w1 of
             (_, w2) \<Rightarrow>
               (Inr (c, (execCalls host c)\<lparr>retryConfig :=
                      (case EC_RetryConfig cfg of None \<Rightarrow> DefaultRetryConfig | Some r \<Rightarrow> r)\<rparr>,
                   NewAdaptiveBatchSize (EC_MinBatchSize cfg) (EC_MaxBatchSize cfg)), w2)))"

record beaconConfig =
  BC_URL :: string
  BC_Timeout :: nat
  BC_RetryConfig :: "RetryConfig option"

text \<open>\<open>beacon.New\<close>.\<close>

definition NewBeaconClient :: "('w, 'c) hostLib \<Rightarrow> beaconConfig \<Rightarrow> ('w, 'w beaconClient) op" where
  "NewBeaconClient host cfg w =
     (case beaconDial host (BC_URL cfg) (if BC_Timeout cfg = 0 then 30 else BC_Timeout cfg) w of
        (Inl err, w1) \<Rightarrow> (Inl (Wrap (''beacon node '' @ BC_URL cfg) err), w1)
      | (Inr c, w1) \<Rightarrow>
          (case nodeVersion host c w1 of
             (_, w2) \<Rightarrow> (Inr (c\<lparr>beaconRetry :=
                 (case BC_RetryConfig cfg of None \<Rightarrow> DefaultRetryConfig | Some r \<Rightarrow> r)\<rparr>), w2)))"

section \<open>The services\<close>

text \<open>The metrics server ends like the API server, but ignores the error of its shutdown and wraps
  that of its listener (the text of a nil error wrapped with \<open>%w\<close> is \<open>%!w(<nil>)\<close>).\<close>

definition metricsRun :: "serverEnd \<Rightarrow> goerror" where
  "metricsRun e =
     (case e of
        CtxDone _ \<Rightarrow> CtxErr
      | ListenEnded (Some err) \<Rightarrow> Wrap ''metrics server'' err
      | ListenEnded None \<Rightarrow> ErrNew ''metrics server: %!w(<nil>)'')"

text \<open>How a task of the errgroup ends. The task of the initial sync starts the oracle and the
  updater and then ends without an error; the updater ends with the context's error only. \<open>Panicked\<close> is a panic in one
  of these goroutines or in one that they or the libraries started, which nothing recovers: it ends the process.\<close>

datatype taskEnd =
    MetricsEnd serverEnd
  | ApiEnd serverEnd
  | SyncEnd "goerror option"
  | OracleEnd goerror
  | UpdaterEnd
  | Panicked

definition taskError :: "taskEnd \<Rightarrow> goerror option" where
  "taskError t =
     (case t of
        MetricsEnd e \<Rightarrow> Some (metricsRun e)
      | ApiEnd e \<Rightarrow> serverRun e
      | SyncEnd e \<Rightarrow> map_option (Wrap ''initial sync'') e
      | OracleEnd e \<Rightarrow> Some e
      | UpdaterEnd \<Rightarrow> Some CtxErr
      | Panicked \<Rightarrow> None)"

text \<open>\<open>g.Wait()\<close>: the first error that a task returned, if any did.\<close>

fun groupWait :: "goerror option list \<Rightarrow> goerror option" where
  "groupWait [] = None"
| "groupWait (None # es) = groupWait es"
| "groupWait (Some e # es) = Some e"

text \<open>
  What \<open>runServices\<close> is given, and the state of the process: the database, the outside and the
  signer. \<open>serve\<close> is everything that happens while the services run (the steps of \<open>serviceStep\<close>); it tells
  in which order the tasks ended, and how. \<open>pr_crashed\<close> says that the process has died of a panic: then nothing more of
  \<open>run\<close> is executed, its deferred calls included, and the result of \<open>run\<close> has no meaning.
\<close>

record ('w, 'c) launched =
  la_config :: config
  la_exec :: "'w execClient"
  la_batch :: AdaptiveBatchSize
  la_beacon :: "'w beaconClient"
  la_contract :: "'c clientConns"
  la_syncerAddress :: bytes

record 'w process =
  pr_store :: store
  pr_world :: 'w
  pr_signer :: "signer option"
  pr_crashed :: bool

type_synonym ('w, 'c) scheduler = "('w, 'c) launched \<Rightarrow> 'w process \<Rightarrow> taskEnd list \<times> 'w process"

definition runServices :: "('w, 'c) scheduler \<Rightarrow> ('w, 'c) launched \<Rightarrow> ('w process, unit) op" where
  "runServices serve la p =
     (case serve la p of
        (ends, p') \<Rightarrow>
          (case groupWait (map taskError ends) of
             None \<Rightarrow> (Inr (), p'\<lparr>pr_crashed := Panicked \<in> set ends\<rparr>)
           | Some e \<Rightarrow> (Inl e, p'\<lparr>pr_crashed := Panicked \<in> set ends\<rparr>)))"

section \<open>The run\<close>

definition onWorld :: "('w, 'a) op \<Rightarrow> ('w process, 'a) op" where
  "onWorld m p = (case m (pr_world p) of (r, w) \<Rightarrow> (r, p\<lparr>pr_world := w\<rparr>))"

definition onStore :: "(store, 'a) op \<Rightarrow> ('w process, 'a) op" where
  "onStore m p = (case m (pr_store p) of (r, s) \<Rightarrow> (r, p\<lparr>pr_store := s\<rparr>))"

definition onBoth :: "(store \<times> 'w, 'a) op \<Rightarrow> ('w process, 'a) op" where
  "onBoth m p = (case m (pr_store p, pr_world p) of (r, s, w) \<Rightarrow> (r, p\<lparr>pr_store := s, pr_world := w\<rparr>))"

text \<open>\<open>x, err := acquire(); if err != nil { return err }; defer release(x)\<close> and the rest of the
  function, after which the deferred call runs, unless the process is dead.\<close>

definition deferring ::
    "('w process, 'a) op \<Rightarrow> ('a \<Rightarrow> 'w process \<Rightarrow> 'w process) \<Rightarrow> ('a \<Rightarrow> ('w process, 'b) op) \<Rightarrow> ('w process, 'b) op" where
  "deferring acquire release rest s =
     (case acquire s of
        (Inl e, s1) \<Rightarrow> (Inl e, s1)
      | (Inr x, s1) \<Rightarrow> (case rest x s1 of (r, s2) \<Rightarrow> (r, if pr_crashed s2 then s2 else release x s2)))"

text \<open>The signer, and its deferred \<open>Close\<close>.\<close>

definition openSigner :: "walletEnv \<Rightarrow> walletConfig \<Rightarrow> ('w process, signer) op" where
  "openSigner env cfg p =
     (case NewSigner env (Some cfg) of
        Inl e \<Rightarrow> (Inl (Wrap ''create signer'' e), p)
      | Inr sg \<Rightarrow> (Inr sg, p\<lparr>pr_signer := Some sg\<rparr>))"

definition closeSigner :: "'w process \<Rightarrow> 'w process" where
  "closeSigner p = p\<lparr>pr_signer := map_option Close (pr_signer p)\<rparr>"

definition contractConfig :: "config \<Rightarrow> bool \<Rightarrow> int \<Rightarrow> signer \<Rightarrow> clientConfig" where
  "contractConfig cfg withUpdater chainID sg =
     \<lparr>CC_RPCURL = EthRPC cfg, CC_WSRPCURL = (if withUpdater then EthWSRPC cfg else []),
      CC_ChainID = Some chainID, CC_Signer = Some (address sg), CC_TxPolicy = Some (TxPolicyOf cfg),
      CC_MEVRPCs = (if withUpdater then getMEVRPCs cfg else [])\<rparr>"

text \<open>Everything in the environment of the command: its flags, its files and its libraries.\<close>

record ('w, 'c) command =
  cmd_host :: "('w, 'c) hostLib"
  cmd_text :: textLib
  cmd_file :: "string \<Rightarrow> goerror + string"
  cmd_decode :: "string \<Rightarrow> config \<Rightarrow> goerror + config"
  cmd_zero :: config
  cmd_env :: walletEnv
  cmd_configPath :: string
  cmd_freshStart :: bool
  cmd_withUpdater :: bool

definition release :: "('w, 'c) command \<Rightarrow> 'c \<Rightarrow> 'w process \<Rightarrow> 'w process" where
  "release cmd c p = p\<lparr>pr_world := hangUp (net (cmd_host cmd)) c (pr_world p)\<rparr>"

definition loaded :: "('w, 'c) command \<Rightarrow> ('w process, config) op" where
  "loaded cmd p =
     (loadConfig (cmd_text cmd) (cmd_file cmd) (cmd_decode cmd) (cmd_zero cmd) (cmd_configPath cmd) (cmd_withUpdater cmd), p)"

text \<open>The end by a signal, which cancels the context, is no error.\<close>

definition ignoreCanceled :: "('s, unit) op \<Rightarrow> ('s, unit) op" where
  "ignoreCanceled m s =
     (case m s of
        (Inl e, s') \<Rightarrow> (if errIs e CtxErr then Inr () else Inl e, s')
      | (Inr _, s') \<Rightarrow> (Inr (), s'))"

text \<open>\<open>run\<close> from the execution client on.\<close>

definition runClients ::
    "('w, 'c) command \<Rightarrow> ('w, 'c) scheduler \<Rightarrow> config \<Rightarrow> signer \<Rightarrow> ('w process, unit) op" where
  "runClients cmd serve cfg sg =
     deferring (onWorld (wrapS ''create execution client'' (NewExecClient (cmd_host cmd)
         \<lparr>EC_URL = EthRPC cfg, EC_MinBatchSize = 0, EC_MaxBatchSize = MaxSyncBatchSize cfg, EC_RetryConfig = None\<rparr>)))
       (\<lambda>(c, _). release cmd c) (\<lambda>(_, ec, bs).
     bindS (onBoth (validateChainID ec)) (\<lambda>chainID.
     bindS (onWorld (wrapS ''create beacon client'' (NewBeaconClient (cmd_host cmd)
         \<lparr>BC_URL = BeaconURL cfg, BC_Timeout = 0, BC_RetryConfig = None\<rparr>))) (\<lambda>beacon.
     deferring (onWorld (wrapS ''create contract client''
         (NewClient (net (cmd_host cmd)) (contractConfig cfg (cmd_withUpdater cmd) chainID sg))))
       (\<lambda>conns p. p\<lparr>pr_world := CloseClient (net (cmd_host cmd)) conns (pr_world p)\<rparr>) (\<lambda>conns.
     ignoreCanceled (runServices serve \<lparr>la_config = cfg, la_exec = ec, la_batch = bs, la_beacon = beacon,
       la_contract = conns, la_syncerAddress = syncerAddress (cmd_text cmd) cfg\<rparr>)))))"

text \<open>The whole of \<open>run\<close>.\<close>

definition runCommand :: "('w, 'c) command \<Rightarrow> ('w, 'c) scheduler \<Rightarrow> ('w process, unit) op" where
  "runCommand cmd serve =
     bindS (loaded cmd) (\<lambda>cfg.
     deferring (onWorld (wrapS ''setup metrics'' (setupMetrics (cmd_host cmd)))) (release cmd) (\<lambda>_.
     deferring (openSigner (cmd_env cmd) (WalletOf cfg)) (\<lambda>_. closeSigner) (\<lambda>sg.
     deferring (onWorld (wrapS ''create storage'' (NewStorage (cmd_host cmd) (DBPath cfg)))) (release cmd) (\<lambda>_.
     bindS (if cmd_freshStart cmd then onStore (wrapS ''clear database'' ClearAllState) else retS ()) (\<lambda>_.
     runClients cmd serve cfg sg)))))"

section \<open>Resources\<close>

text \<open>What the libraries promise of the resources that are open: opening a connection, a handle or
  the metrics opens one that was not, or fails and opens none; the other calls open and close
  nothing.\<close>

definition opensOne :: "('w \<Rightarrow> 'c set) \<Rightarrow> ('w, 'c) op \<Rightarrow> bool" where
  "opensOne opened m \<longleftrightarrow>
     (\<forall>w. case m w of
        (Inl _, w') \<Rightarrow> opened w' = opened w
      | (Inr c, w') \<Rightarrow> c \<notin> opened w \<and> opened w' = insert c (opened w))"

definition keepsOpen :: "('w \<Rightarrow> 'c set) \<Rightarrow> ('w, 'a) op \<Rightarrow> bool" where
  "keepsOpen opened m \<longleftrightarrow> (\<forall>w. opened (snd (m w)) = opened w)"

definition hostOK :: "('w, 'c) hostLib \<Rightarrow> ('w \<Rightarrow> 'c set) \<Rightarrow> bool" where
  "hostOK host opened \<longleftrightarrow> dialOK (net host) opened \<and> opensOne opened (setupMetrics host) \<and>
     (\<forall>d. opensOne opened (sqlOpen host d)) \<and> (\<forall>d. keepsOpen opened (mkdirAll host d)) \<and>
     (\<forall>c. keepsOpen opened (dbPing host c) \<and> (\<forall>q. keepsOpen opened (dbExec host c q)) \<and>
        keepsOpen opened (dbSchema host c) \<and> keepsOpen opened (clientVersion host c) \<and>
        keepsOpen opened (chainIDCall (execCalls host c)) \<and>
        (\<forall>n w. opened (snd (randInt63n (timerOf (execCalls host c)) n w)) = opened w) \<and>
        (\<forall>n w. opened (snd (sleepFor (timerOf (execCalls host c)) n w)) = opened w)) \<and>
     (\<forall>u n. keepsOpen opened (beaconDial host u n)) \<and> (\<forall>b. keepsOpen opened (nodeVersion host b))"

text \<open>The two errors after which something stays open: the database could not be set up after it was opened,
  and the WebSocket endpoint could not be dialled.\<close>

definition leakyError :: "goerror \<Rightarrow> bool" where
  "leakyError e \<longleftrightarrow>
     (\<exists>p err. e = Wrap ''create storage'' (Wrap p err) \<and> p \<noteq> ''create db directory'' \<and> p \<noteq> ''open database'') \<or>
     (\<exists>err. e = Wrap ''create contract client'' (Wrap ''dial WebSocket'' err))"

definition leaks :: "'c set \<Rightarrow> 'c set \<Rightarrow> goerror option \<Rightarrow> bool" where
  "leaks O1 O2 err \<longleftrightarrow> (\<exists>l. O2 = O1 \<union> l \<and> O1 \<inter> l = {} \<and> (l \<noteq> {} \<longrightarrow> (\<exists>e. err = Some e \<and> leakyError e)))"

definition errOf :: "goerror + 'a \<Rightarrow> goerror option" where
  "errOf r = (case r of Inl e \<Rightarrow> Some e | Inr _ \<Rightarrow> None)"

abbreviation openIn :: "('w \<Rightarrow> 'c set) \<Rightarrow> 'w process \<Rightarrow> 'c set" where
  "openIn opened p \<equiv> opened (pr_world p)"

text \<open>
  How a part of the run leaves the resources. Either it ends without the services, and what is open is what was, up to a
  leak; or the services ran from \<open>q\<close> to \<open>q'\<close>: then everything that was opened on the way to \<open>q\<close> is
  released, and nothing else is touched, whatever the services opened or closed themselves; but nothing is
  released if they panicked.
\<close>

definition settled :: "('w \<Rightarrow> 'c set) \<Rightarrow> ('w, 'c) scheduler \<Rightarrow> 'w process \<Rightarrow> goerror + 'a \<Rightarrow> 'w process \<Rightarrow> bool" where
  "settled opened serve p r p' \<longleftrightarrow>
     \<not> pr_crashed p' \<and> leaks (openIn opened p) (openIn opened p') (errOf r) \<or>
     (\<exists>la q ends q'. serve la q = (ends, q') \<and> (pr_crashed p' \<longleftrightarrow> Panicked \<in> set ends) \<and>
        openIn opened p \<subseteq> openIn opened q \<and>
        openIn opened p' = (if pr_crashed p' then openIn opened q' else openIn opened q' - (openIn opened q - openIn opened p)))"

definition balanced :: "('w \<Rightarrow> 'c set) \<Rightarrow> ('w, 'c) scheduler \<Rightarrow> ('w process, 'a) op \<Rightarrow> bool" where
  "balanced opened serve m \<longleftrightarrow> (\<forall>p r p'. \<not> pr_crashed p \<longrightarrow> m p = (r, p') \<longrightarrow> settled opened serve p r p')"

text \<open>An acquisition and its release.\<close>

definition acquires :: "('w \<Rightarrow> 'c set) \<Rightarrow> ('w process, 'a) op \<Rightarrow> ('a \<Rightarrow> 'w process \<Rightarrow> 'w process) \<Rightarrow> bool" where
  "acquires opened m rel \<longleftrightarrow>
     (\<forall>p r p'. m p = (r, p') \<longrightarrow> pr_crashed p' = pr_crashed p) \<and> (\<forall>x q. pr_crashed (rel x q) = pr_crashed q) \<and>
     (\<forall>p e p'. m p = (Inl e, p') \<longrightarrow> leaks (openIn opened p) (openIn opened p') (Some e)) \<and>
     (\<forall>p x p'. m p = (Inr x, p') \<longrightarrow>
        (\<exists>C. openIn opened p' - C = openIn opened p \<and> C \<subseteq> openIn opened p' \<and>
          (\<forall>q. openIn opened (rel x q) = openIn opened q - C)))"

lemma acquires_D:
  assumes "acquires opened m rel"
  shows "m p = (r, p') \<Longrightarrow> pr_crashed p' = pr_crashed p" "pr_crashed (rel x q) = pr_crashed q"
    "m p = (Inl e, p') \<Longrightarrow> leaks (openIn opened p) (openIn opened p') (Some e)"
    "m p = (Inr x, p') \<Longrightarrow> \<exists>C. openIn opened p' - C = openIn opened p \<and> C \<subseteq> openIn opened p' \<and>
       (\<forall>q. openIn opened (rel x q) = openIn opened q - C)"
  using assms unfolding acquires_def by blast+

lemma leaks_same [simp]: "leaks S S r"
  by (auto simp: leaks_def)

lemma errOf_simps [simp]: "errOf (Inl e) = Some e" "errOf (Inr x) = None"
  by (simp_all add: errOf_def)

lemma leaks_release:
  assumes "leaks O1 O2 err" "O1 - C = O0"
  shows "leaks O0 (O2 - C) err"
proof -
  obtain l where l: "O2 = O1 \<union> l" "O1 \<inter> l = {}" "l \<noteq> {} \<longrightarrow> (\<exists>e. err = Some e \<and> leakyError e)"
    using assms(1) unfolding leaks_def by blast
  with assms(2) show ?thesis unfolding leaks_def by (intro exI [of _ "l - C"]) auto
qed

lemma settled_deferred:
  assumes "settled opened serve p1 r p2" "openIn opened p1 - C = openIn opened p" "C \<subseteq> openIn opened p1"
    "\<And>q. openIn opened (rel q) = openIn opened q - C" "\<And>q. pr_crashed (rel q) = pr_crashed q"
  shows "settled opened serve p r (if pr_crashed p2 then p2 else rel p2)"
proof (cases "\<not> pr_crashed p2 \<and> leaks (openIn opened p1) (openIn opened p2) (errOf r)")
  case True
  with leaks_release [OF _ assms(2)] assms(4,5) show ?thesis by (simp add: settled_def)
next
  case False
  then obtain la q ends q' where q: "serve la q = (ends, q')" "openIn opened p1 \<subseteq> openIn opened q"
    "pr_crashed p2 \<longleftrightarrow> Panicked \<in> set ends"
    "openIn opened p2 = (if pr_crashed p2 then openIn opened q' else openIn opened q' - (openIn opened q - openIn opened p1))"
    using assms(1) unfolding settled_def by blast
  have "openIn opened p \<subseteq> openIn opened q"
    "(openIn opened q' - (openIn opened q - openIn opened p1)) - C = openIn opened q' - (openIn opened q - openIn opened p)"
    using q(2) assms(2,3) by auto
  with q(1,3,4) assms(4,5) show ?thesis
    unfolding settled_def by (intro disjI2 exI [of _ la] exI [of _ q] exI [of _ ends] exI [of _ q']) simp
qed

lemma balanced_deferring:
  assumes "acquires opened m rel" "\<And>p x p'. m p = (Inr x, p') \<Longrightarrow> balanced opened serve (f x)"
  shows "balanced opened serve (deferring m rel f)"
  unfolding balanced_def
proof (intro allI impI)
  fix p r p' assume d: "deferring m rel f p = (r, p')" and alive: "\<not> pr_crashed p"
  obtain a p1 where m: "m p = (a, p1)" by fastforce
  note p1 = acquires_D(1) [OF assms(1) m]
  show "settled opened serve p r p'"
  proof (cases a)
    case (Inl e)
    with d m p1 alive acquires_D(3) [OF assms(1)] show ?thesis by (auto simp: deferring_def settled_def)
  next
    case (Inr x)
    from acquires_D(4) [OF assms(1) m [unfolded Inr]] obtain C where
      "openIn opened p1 - C = openIn opened p \<and> C \<subseteq> openIn opened p1 \<and> (\<forall>q. openIn opened (rel x q) = openIn opened q - C)" ..
    then have C: "openIn opened p1 - C = openIn opened p" "C \<subseteq> openIn opened p1"
      "\<And>q. openIn opened (rel x q) = openIn opened q - C" by simp_all
    obtain p2 where f: "f x p1 = (r, p2)" "p' = (if pr_crashed p2 then p2 else rel x p2)"
      using d m Inr by (auto simp: deferring_def split: prod.splits)
    have "settled opened serve p1 r p2" using assms(2) m Inr f(1) p1 alive unfolding balanced_def by metis
    from settled_deferred [OF this C acquires_D(2) [OF assms(1)]] f(2) show ?thesis by simp
  qed
qed

lemma settled_from: "openIn opened p1 = openIn opened p \<Longrightarrow> settled opened serve p1 r p' \<Longrightarrow> settled opened serve p r p'"
  by (simp only: settled_def)

lemma balanced_bindS:
  assumes "\<And>p r p'. m p = (r, p') \<Longrightarrow> openIn opened p' = openIn opened p \<and> pr_crashed p' = pr_crashed p"
    "\<And>p x p'. m p = (Inr x, p') \<Longrightarrow> balanced opened serve (f x)"
  shows "balanced opened serve (bindS m f)"
  unfolding balanced_def
proof (intro allI impI)
  fix p r p' assume b: "bindS m f p = (r, p')" and alive: "\<not> pr_crashed p"
  obtain a p1 where m: "m p = (a, p1)" by fastforce
  show "settled opened serve p r p'"
  proof (cases a)
    case (Inl e)
    with b m assms(1) [OF m] alive show ?thesis by (auto simp: bindS_def settled_def)
  next
    case (Inr x)
    then have "f x p1 = (r, p')" using b m by (simp add: bindS_def)
    with assms(2) m Inr assms(1) [OF m] alive have "settled opened serve p1 r p'" unfolding balanced_def by metis
    then show ?thesis by (rule settled_from [rotated]) (simp add: assms(1) [OF m])
  qed
qed

section \<open>What the parts of the run open\<close>

lemma keepsOpen_D: "keepsOpen opened m \<Longrightarrow> m w = (r, w') \<Longrightarrow> opened w' = opened w"
  unfolding keepsOpen_def by (metis snd_conv)

lemma keepsOpen_retS [simp]: "keepsOpen opened (retS x)"
  by (simp add: keepsOpen_def retS_def)

lemma keepsOpen_wrapS: "keepsOpen opened m \<Longrightarrow> keepsOpen opened (wrapS p m)"
  unfolding keepsOpen_def wrapS_def by (auto split: prod.splits sum.splits) (metis snd_conv)+

lemma keepsOpen_bindS:
  assumes "keepsOpen opened m" "\<And>x. keepsOpen opened (f x)"
  shows "keepsOpen opened (bindS m f)"
  unfolding keepsOpen_def
proof
  fix w
  obtain r w1 where m: "m w = (r, w1)" by fastforce
  from keepsOpen_D [OF assms(1) m] assms(2) m show "opened (snd (bindS m f w)) = opened w"
    by (cases r) (simp_all add: bindS_def keepsOpen_def)
qed

lemma onWorld_keeps:
  "keepsOpen opened m \<Longrightarrow> onWorld m p = (r, p') \<Longrightarrow> openIn opened p' = openIn opened p \<and> pr_crashed p' = pr_crashed p"
  by (auto simp: onWorld_def split: prod.splits dest: keepsOpen_D)

lemma onStore_world: "onStore m p = (r, p') \<Longrightarrow> pr_world p' = pr_world p \<and> pr_crashed p' = pr_crashed p"
  by (auto simp: onStore_def split: prod.splits)

lemma WithRetry_keeps:
  assumes "keepsOpen opened fn" "\<And>n w. opened (snd (randInt63n tm n w)) = opened w"
    "\<And>n w. opened (snd (sleepFor tm n w)) = opened w"
  shows "keepsOpen opened (WithRetry tm cfg fn r)"
proof -
  have b: "opened (snd (backoff tm cfg k w)) = opened w" for k w
    using assms(2) [of "jitterBound (baseBackoff cfg k)" w] by (simp add: backoff_def Let_def case_prod_beta)
  have "opened (snd (retryLoop tm cfg r fn n k w)) = opened w" for n k w
  proof (induction n arbitrary: k w)
    case 0
    then show ?case using assms(1) by (auto simp: split: prod.splits sum.splits dest: keepsOpen_D)
  next
    case (Suc n)
    obtain a w1 where f: "fn w = (a, w1)" by fastforce
    obtain d w2 where d: "backoff tm cfg k w1 = (d, w2)" by fastforce
    obtain c w3 where c: "sleepFor tm d w2 = (c, w3)" by fastforce
    have "opened w1 = opened w" "opened w2 = opened w1" "opened w3 = opened w2"
      using keepsOpen_D [OF assms(1) f] b [of k w1] assms(3) [of d w2] d c by simp_all
    with Suc f d c show ?case by (cases a) simp_all
  qed
  then show ?thesis by (simp add: keepsOpen_def WithRetry_def)
qed

lemma validateChainID_keeps:
  assumes "keepsOpen opened (GetChainIDRpc ec)" "validateChainID ec (s, w) = (r, s', w')"
  shows "opened w' = opened w"
proof -
  obtain c w1 where c: "wrapS ''get chain ID'' (GetChainIDRpc ec) w = (c, w1)" by fastforce
  have "w' = w1" using assms(2) c
    by (cases c) (auto simp: validateChainID_def split: prod.splits sum.splits option.splits if_splits)
  with keepsOpen_D [OF keepsOpen_wrapS [OF assms(1)] c] show ?thesis by simp
qed

text \<open>Acquisitions on the world alone.\<close>

lemma acquires_onWorld:
  fixes opened :: "'w \<Rightarrow> 'c set"
  assumes "\<And>w e w'. m w = (Inl e, w') \<Longrightarrow> leaks (opened w) (opened w') (Some e)"
    "\<And>w x w'. m w = (Inr x, w') \<Longrightarrow> \<exists>C. opened w' - C = opened w \<and> C \<subseteq> opened w' \<and>
       (\<forall>v. opened (rel x v) = opened v - C)"
  shows "acquires opened (onWorld m) (\<lambda>x p. p\<lparr>pr_world := rel x (pr_world p)\<rparr>)"
  unfolding acquires_def onWorld_def
proof (intro conjI allI impI)
  fix p p' :: "'w process" and r assume "(case m (pr_world p) of (r, w) \<Rightarrow> (r, p\<lparr>pr_world := w\<rparr>)) = (r, p')"
  then show "pr_crashed p' = pr_crashed p" by (auto split: prod.splits)
next
  fix x and q :: "'w process" show "pr_crashed (q\<lparr>pr_world := rel x (pr_world q)\<rparr>) = pr_crashed q" by simp
next
  fix p p' :: "'w process" and e assume "(case m (pr_world p) of (r, w) \<Rightarrow> (r, p\<lparr>pr_world := w\<rparr>)) = (Inl e, p')"
  then show "leaks (openIn opened p) (openIn opened p') (Some e)" by (auto split: prod.splits dest: assms(1))
next
  fix p p' :: "'w process" and x assume "(case m (pr_world p) of (r, w) \<Rightarrow> (r, p\<lparr>pr_world := w\<rparr>)) = (Inr x, p')"
  then have "m (pr_world p) = (Inr x, pr_world p')" by (auto split: prod.splits)
  from assms(2) [OF this] obtain C where "openIn opened p' - C = openIn opened p \<and> C \<subseteq> openIn opened p' \<and>
      (\<forall>v. opened (rel x v) = opened v - C)" ..
  then show "\<exists>C. openIn opened p' - C = openIn opened p \<and> C \<subseteq> openIn opened p' \<and>
      (\<forall>q :: 'w process. openIn opened (q\<lparr>pr_world := rel x (pr_world q)\<rparr>) = openIn opened q - C)"
    by (intro exI [of _ C]) simp
qed

lemma opensOne_D:
  assumes "opensOne opened m"
  shows "m w = (Inl e, w') \<Longrightarrow> opened w' = opened w"
    "m w = (Inr c, w') \<Longrightarrow> c \<notin> opened w \<and> opened w' = insert c (opened w)"
  using spec [OF assms [unfolded opensOne_def], of w] by simp_all

lemma hostOK_D:
  assumes "hostOK host opened"
  shows "dialOK (net host) opened" "opensOne opened (setupMetrics host)" "opensOne opened (sqlOpen host d)"
    "keepsOpen opened (mkdirAll host d)" "keepsOpen opened (dbPing host c)" "keepsOpen opened (dbExec host c q)"
    "keepsOpen opened (dbSchema host c)" "keepsOpen opened (clientVersion host c)"
    "keepsOpen opened (chainIDCall (execCalls host c))"
    "opened (snd (randInt63n (timerOf (execCalls host c)) n w)) = opened w"
    "opened (snd (sleepFor (timerOf (execCalls host c)) n w)) = opened w"
    "keepsOpen opened (beaconDial host u t)" "keepsOpen opened (nodeVersion host b)"
  using assms unfolding hostOK_def by (elim conjE; simp; fail)+

lemma acquires_one:
  assumes "hostOK (cmd_host cmd) opened"
    "\<And>w e w'. m w = (Inl e, w') \<Longrightarrow> leaks (opened w) (opened w') (Some (Wrap p e))"
    "\<And>w x w'. m w = (Inr x, w') \<Longrightarrow> h x \<notin> opened w \<and> opened w' = insert (h x) (opened w)"
  shows "acquires opened (onWorld (wrapS p m)) (\<lambda>x. release cmd (h x))"
  unfolding release_def
proof (rule acquires_onWorld [where rel = "\<lambda>x. hangUp (net (cmd_host cmd)) (h x)"])
  fix w e w' assume "wrapS p m w = (Inl e, w')"
  then show "leaks (opened w) (opened w') (Some e)"
    by (auto simp: wrapS_def split: prod.splits sum.splits dest: assms(2))
next
  fix w x w' assume "wrapS p m w = (Inr x, w')"
  then have "h x \<notin> opened w \<and> opened w' = insert (h x) (opened w)"
    by (auto simp: wrapS_def split: prod.splits sum.splits dest: assms(3))
  then show "\<exists>C. opened w' - C = opened w \<and> C \<subseteq> opened w' \<and>
      (\<forall>v. opened (hangUp (net (cmd_host cmd)) (h x) v) = opened v - C)"
    by (intro exI [of _ "{h x}"]) (simp add: dialOK_D(3) [OF hostOK_D(1) [OF assms(1)]])
qed

lemma setupMetrics_acquires:
  assumes "hostOK (cmd_host cmd) opened"
  shows "acquires opened (onWorld (wrapS p (setupMetrics (cmd_host cmd)))) (release cmd)"
  by (rule acquires_one [OF assms, where h = "\<lambda>x. x"])
     (auto dest: opensOne_D [OF hostOK_D(2) [OF assms]])

lemma NewExecClient_acquires:
  assumes "hostOK (cmd_host cmd) opened"
  shows "acquires opened (onWorld (wrapS p (NewExecClient (cmd_host cmd) cfg))) (\<lambda>x. release cmd (fst x))"
proof (rule acquires_one [OF assms])
  note d = dialOK_D(1,2) [OF hostOK_D(1) [OF assms]] keepsOpen_D [OF hostOK_D(8) [OF assms]]
  fix w e w' assume "NewExecClient (cmd_host cmd) cfg w = (Inl e, w')"
  then show "leaks (opened w) (opened w') (Some (Wrap p e))"
    by (auto simp: NewExecClient_def split: prod.splits sum.splits dest: d(2))
next
  note d = dialOK_D(1,2) [OF hostOK_D(1) [OF assms]] keepsOpen_D [OF hostOK_D(8) [OF assms]]
  fix w x w' assume "NewExecClient (cmd_host cmd) cfg w = (Inr x, w')"
  then obtain w1 v where "dial (net (cmd_host cmd)) (EC_URL cfg) w = (Inr (fst x), w1)"
      "clientVersion (cmd_host cmd) (fst x) w1 = (v, w')"
    by (auto simp: NewExecClient_def split: prod.splits sum.splits)
  with d(1,3) show "fst x \<notin> opened w \<and> opened w' = insert (fst x) (opened w)" by metis
qed

lemma setPragmas_keeps: "hostOK host opened \<Longrightarrow> keepsOpen opened (setPragmas host db ps)"
  by (induction ps) (auto intro!: keepsOpen_bindS keepsOpen_wrapS hostOK_D(6))

lemma setPragmas_error: "setPragmas host db ps w = (Inl e, w') \<Longrightarrow> \<exists>p err. e = Wrap (''set '' @ p) err"
  by (induction ps arbitrary: w) (auto simp: retS_def bindS_def wrapS_def split: prod.splits sum.splits)

text \<open>The set-up of an opened database: it may fail, but then not with the errors of the opening.\<close>

definition setupDB :: "('w, 'c) hostLib \<Rightarrow> 'c \<Rightarrow> ('w, 'c) op" where
  "setupDB host db =
     bindS (wrapS ''ping database'' (dbPing host db)) (\<lambda>_.
     bindS (setPragmas host db dbPragmas) (\<lambda>_.
     bindS (wrapS ''apply schema'' (dbSchema host db)) (\<lambda>_. retS db)))"

lemma setupDB_keeps: "hostOK host opened \<Longrightarrow> keepsOpen opened (setupDB host db)"
  unfolding setupDB_def
  by (intro keepsOpen_bindS keepsOpen_wrapS setPragmas_keeps keepsOpen_retS) (simp_all add: hostOK_D(5,7))

lemma setupDB_result:
  assumes "setupDB host db w = (r, w')"
  shows "case r of Inl e \<Rightarrow> leakyError (Wrap ''create storage'' e) | Inr c \<Rightarrow> c = db"
proof -
  have l: "leakyError (Wrap ''create storage'' (Wrap p err))" if "p \<noteq> ''create db directory''" "p \<noteq> ''open database''" for p err
    using that by (auto simp: leakyError_def)
  show ?thesis using assms unfolding setupDB_def
    by (auto simp: bindS_def retS_def wrapS_def split: prod.splits sum.splits intro!: l dest!: setPragmas_error)
qed

lemma NewStorage_acquires:
  assumes "hostOK (cmd_host cmd) opened"
  shows "acquires opened (onWorld (wrapS ''create storage'' (NewStorage (cmd_host cmd) path))) (release cmd)"
proof (rule acquires_one [OF assms, where h = "\<lambda>x. x"])
  let ?host = "cmd_host cmd"
  let ?dir = "if pathDir path \<noteq> ''.'' \<and> pathDir path \<noteq> [] then wrapS ''create db directory'' (mkdirAll ?host (pathDir path)) else retS ()"
  have s: "NewStorage ?host path = bindS ?dir (\<lambda>_. bindS (wrapS ''open database'' (sqlOpen ?host (sqliteDSN path))) (setupDB ?host))"
    by (simp add: NewStorage_def setupDB_def [abs_def] Let_def)
  have dir: "keepsOpen opened ?dir" using hostOK_D(4) [OF assms] by (simp add: keepsOpen_wrapS)
  note sq = opensOne_D [OF hostOK_D(3) [OF assms]]
  note su = keepsOpen_D [OF setupDB_keeps [OF assms]]
  { fix w r w' assume "NewStorage ?host path w = (r, w')"
    then obtain d w1 where d: "?dir w = (d, w1)" and rest: "case d of Inl e \<Rightarrow> r = Inl e \<and> w' = w1
        | Inr _ \<Rightarrow> bindS (wrapS ''open database'' (sqlOpen ?host (sqliteDSN path))) (setupDB ?host) w1 = (r, w')"
      unfolding s bindS_def by (cases "?dir w"; cases "fst (?dir w)") auto
    have w1: "opened w1 = opened w" using keepsOpen_D [OF dir d] .
    have "case r of Inl e \<Rightarrow> leaks (opened w) (opened w') (Some (Wrap ''create storage'' e))
        | Inr c \<Rightarrow> c \<notin> opened w \<and> opened w' = insert c (opened w)"
    proof (cases d)
      case (Inl e)
      with rest w1 show ?thesis by simp
    next
      case (Inr u)
      obtain q w2 where q: "sqlOpen ?host (sqliteDSN path) w1 = (q, w2)" by fastforce
      show ?thesis
      proof (cases q)
        case (Inl e)
        with rest Inr q sq(1) w1 show ?thesis by (auto simp: bindS_def wrapS_def)
      next
        case db: (Inr db)
        with rest Inr q have r: "setupDB ?host db w2 = (r, w')" by (simp add: bindS_def wrapS_def)
        have "db \<notin> opened w" "opened w' = insert db (opened w)"
          using sq(2) [OF q [unfolded db]] w1 su [OF r] by simp_all
        with setupDB_result [OF r] show ?thesis by (cases r) (auto simp: leaks_def intro!: exI [of _ "{db}"])
      qed
    qed }
  note main = this
  show "leaks (opened w) (opened w') (Some (Wrap ''create storage'' e))"
    if "NewStorage ?host path w = (Inl e, w')" for w e w' using main [OF that] by simp
  show "x \<notin> opened w \<and> opened w' = insert x (opened w)"
    if "NewStorage ?host path w = (Inr x, w')" for w x w' using main [OF that] by simp
qed

lemma NewClient_acquires:
  assumes "hostOK host opened" "distinct (CC_MEVRPCs cc)"
  shows "acquires opened (onWorld (wrapS ''create contract client'' (NewClient (net host) cc)))
     (\<lambda>conns p. p\<lparr>pr_world := CloseClient (net host) conns (pr_world p)\<rparr>)"
proof (rule acquires_onWorld)
  note ok = hostOK_D(1) [OF assms(1)]
  fix w e w' assume "wrapS ''create contract client'' (NewClient (net host) cc) w = (Inl e, w')"
  then obtain err where e: "e = Wrap ''create contract client'' err" "NewClient (net host) cc w = (Inl err, w')"
    by (auto simp: wrapS_def split: prod.splits sum.splits)
  from NewClient_released [OF ok assms(2) e(2)] obtain mev where
    m: "opened w' = opened w \<union> snd ` set mev \<and> opened w \<inter> snd ` set mev = {} \<and>
      (if \<exists>er. err = Wrap ''dial WebSocket'' er then map fst mev = CC_MEVRPCs cc else mev = [])"
    unfolding released_def sum.case ..
  then have "mev \<noteq> [] \<longrightarrow> leakyError e" using e(1) by (auto simp: leakyError_def split: if_splits)
  with m show "leaks (opened w) (opened w') (Some e)"
    unfolding leaks_def by (intro exI [of _ "snd ` set mev"]) simp
next
  note ok = hostOK_D(1) [OF assms(1)]
  fix w c w' assume "wrapS ''create contract client'' (NewClient (net host) cc) w = (Inr c, w')"
  then have "NewClient (net host) cc w = (Inr c, w')" by (auto simp: wrapS_def split: prod.splits sum.splits)
  from NewClient_released [OF ok assms(2) this] have "opened (CloseClient (net host) c w') = opened w"
    "set_option (wsConn c) \<union> insert (ethConn c) (snd ` set (mevConns c)) \<subseteq> opened w'"
    by (simp_all add: released_def)
  then show "\<exists>C. opened w' - C = opened w \<and> C \<subseteq> opened w' \<and> (\<forall>v. opened (CloseClient (net host) c v) = opened v - C)"
    by (intro exI [of _ "set_option (wsConn c) \<union> insert (ethConn c) (snd ` set (mevConns c))"])
       (auto simp: CloseClient_opened [OF ok])
qed

lemma NewBeaconClient_keeps:
  assumes "hostOK host opened"
  shows "keepsOpen opened (NewBeaconClient host cfg)"
  unfolding keepsOpen_def NewBeaconClient_def
  by (auto split: prod.splits sum.splits
      dest!: keepsOpen_D [OF hostOK_D(12) [OF assms]] keepsOpen_D [OF hostOK_D(13) [OF assms]])

lemma execClient_chainID_keeps:
  assumes "hostOK host opened" "NewExecClient host cfg w = (Inr (c, ec, bs), w')"
  shows "keepsOpen opened (GetChainIDRpc ec)"
proof -
  have "chainIDCall ec = chainIDCall (execCalls host c)" "timerOf ec = timerOf (execCalls host c)"
    using assms(2) by (auto simp: NewExecClient_def split: prod.splits sum.splits)
  then show ?thesis
    unfolding GetChainIDRpc_def by (intro keepsOpen_wrapS WithRetry_keeps) (simp_all add: hostOK_D(9-11) [OF assms(1)])
qed

lemma onBoth_chainID_keeps:
  "keepsOpen opened (GetChainIDRpc ec) \<Longrightarrow> onBoth (validateChainID ec) p = (r, p') \<Longrightarrow>
   openIn opened p' = openIn opened p \<and> pr_crashed p' = pr_crashed p"
  by (auto simp: onBoth_def split: prod.splits dest: validateChainID_keeps)

lemma services_settled: "balanced opened serve (ignoreCanceled (runServices serve la))"
  unfolding balanced_def
proof (intro allI impI)
  fix p r p' assume "ignoreCanceled (runServices serve la) p = (r, p')"
  moreover obtain ends q where e: "serve la p = (ends, q)" by fastforce
  ultimately have "p' = q\<lparr>pr_crashed := Panicked \<in> set ends\<rparr>"
    by (auto simp: ignoreCanceled_def runServices_def split: option.splits if_splits)
  with e show "settled opened serve p r p'"
    unfolding settled_def
    by (intro disjI2 exI [of _ la] exI [of _ p] exI [of _ ends] exI [of _ q]) simp
qed

lemma loaded_distinct:
  assumes "loaded cmd p = (Inr cfg, p')"
  shows "distinct (getMEVRPCs cfg)"
proof -
  obtain content cfg0 where "validate (cmd_text cmd) (cmd_withUpdater cmd) cfg0 = (cfg, [])"
    using assms by (auto simp: loaded_def loadConfig_def Let_def split: sum.splits prod.splits if_splits)
  then have "mevErrs (cmd_text cmd) [] 0 (getMEVRPCs cfg) = []" by (auto simp: validate_def Let_def)
  then show ?thesis using mevErrs_Nil by blast
qed

lemma runClients_balanced:
  assumes "hostOK (cmd_host cmd) opened" "distinct (getMEVRPCs cfg)"
  shows "balanced opened serve (runClients cmd serve cfg sg)"
proof -
  let ?exec = "NewExecClient (cmd_host cmd) \<lparr>EC_URL = EthRPC cfg, EC_MinBatchSize = 0,
      EC_MaxBatchSize = MaxSyncBatchSize cfg, EC_RetryConfig = None\<rparr>"
  have x: "(\<lambda>(c, _ :: 'a execClient \<times> AdaptiveBatchSize). release cmd c) = (\<lambda>x. release cmd (fst x))" by auto
  have d: "distinct (CC_MEVRPCs (contractConfig cfg (cmd_withUpdater cmd) chainID sg))" for chainID
    using assms(2) by (simp add: contractConfig_def)
  have ec: "keepsOpen opened (GetChainIDRpc ec)" if "onWorld (wrapS pre ?exec) p = (Inr (c, ec, bs), p')" for pre p c ec bs p'
    using that by (auto simp: onWorld_def wrapS_def split: prod.splits sum.splits intro: execClient_chainID_keeps [OF assms(1)])
  have beacon: "keepsOpen opened (wrapS pre (NewBeaconClient (cmd_host cmd) b))" for pre b
    by (rule keepsOpen_wrapS [OF NewBeaconClient_keeps [OF assms(1)]])
  show ?thesis
    unfolding runClients_def x
  proof (rule balanced_deferring [OF NewExecClient_acquires [OF assms(1)]], clarify)
    fix p p' c ec' bs assume "onWorld (wrapS ''create execution client'' ?exec) p = (Inr (c, ec', bs), p')"
    note k = ec [OF this]
    show "balanced opened serve (bindS (onBoth (validateChainID ec')) (\<lambda>chainID.
       bindS (onWorld (wrapS ''create beacon client'' (NewBeaconClient (cmd_host cmd)
           \<lparr>BC_URL = BeaconURL cfg, BC_Timeout = 0, BC_RetryConfig = None\<rparr>))) (\<lambda>beacon.
       deferring (onWorld (wrapS ''create contract client''
           (NewClient (net (cmd_host cmd)) (contractConfig cfg (cmd_withUpdater cmd) chainID sg))))
         (\<lambda>conns p. p\<lparr>pr_world := CloseClient (net (cmd_host cmd)) conns (pr_world p)\<rparr>) (\<lambda>conns.
       ignoreCanceled (runServices serve \<lparr>la_config = cfg, la_exec = ec', la_batch = bs, la_beacon = beacon,
         la_contract = conns, la_syncerAddress = syncerAddress (cmd_text cmd) cfg\<rparr>)))))"
      by (intro balanced_bindS balanced_deferring [OF NewClient_acquires [OF assms(1) d]] services_settled)
         (erule onBoth_chainID_keeps [OF k] onWorld_keeps [OF beacon])+
  qed
qed

lemma openSigner_world:
  "openSigner env cfg p = (r, p') \<Longrightarrow> pr_world p' = pr_world p \<and> pr_crashed p' = pr_crashed p"
  "pr_world (closeSigner p) = pr_world p \<and> pr_crashed (closeSigner p) = pr_crashed p"
  by (auto simp: openSigner_def closeSigner_def split: sum.splits)

lemma openSigner_acquires: "acquires opened (openSigner env cfg) (\<lambda>_. closeSigner)"
  unfolding acquires_def by (auto dest: openSigner_world(1) simp: openSigner_world(2) intro!: exI [of _ "{}"])

lemma runCommand_balanced:
  assumes "hostOK (cmd_host cmd) opened"
  shows "balanced opened serve (runCommand cmd serve)"
  unfolding runCommand_def
proof (rule balanced_bindS)
  show "openIn opened p' = openIn opened p \<and> pr_crashed p' = pr_crashed p" if "loaded cmd p = (r, p')" for p r p'
    using that by (simp add: loaded_def)
next
  fix p cfg p' assume "loaded cmd p = (Inr cfg, p')"
  note d = loaded_distinct [OF this]
  show "balanced opened serve (deferring (onWorld (wrapS ''setup metrics'' (setupMetrics (cmd_host cmd)))) (release cmd) (\<lambda>_.
     deferring (openSigner (cmd_env cmd) (WalletOf cfg)) (\<lambda>_. closeSigner) (\<lambda>sg.
     deferring (onWorld (wrapS ''create storage'' (NewStorage (cmd_host cmd) (DBPath cfg)))) (release cmd) (\<lambda>_.
     bindS (if cmd_freshStart cmd then onStore (wrapS ''clear database'' ClearAllState) else retS ()) (\<lambda>_.
     runClients cmd serve cfg sg)))))"
    by (intro balanced_deferring setupMetrics_acquires openSigner_acquires NewStorage_acquires assms
        balanced_bindS runClients_balanced [OF assms d])
       (auto simp: retS_def dest: onStore_world split: if_splits)
qed

text \<open>The key of the signer. Once \<open>closeSigner\<close> has run no key is left, whatever ran before it.\<close>

definition keyErased :: "'w process \<Rightarrow> bool" where
  "keyErased p \<longleftrightarrow> (\<forall>sg. pr_signer p = Some sg \<longrightarrow> privateKey sg = None)"

lemma keyErased_simps [simp]:
  "keyErased (closeSigner p)" "keyErased (p\<lparr>pr_world := w\<rparr>) = keyErased p"
  by (auto simp: keyErased_def closeSigner_def Close_def)

abbreviation deadOrErased :: "'w process \<Rightarrow> bool" where
  "deadOrErased p \<equiv> pr_crashed p \<or> keyErased p"

lemma invS_deferring:
  fixes m :: "('w process, 'a) op"
  assumes "invS deadOrErased m" "\<And>x. invS deadOrErased (f x)" "\<And>x s. deadOrErased s \<Longrightarrow> deadOrErased (rel x s)"
  shows "invS deadOrErased (deferring m rel f)"
proof (rule invS_I)
  fix s :: "'w process" assume s: "deadOrErased s"
  obtain a s1 where m: "m s = (a, s1)" by fastforce
  have s1: "deadOrErased s1" using invS_E [OF assms(1) s m] .
  show "deadOrErased (snd (deferring m rel f s))"
  proof (cases a)
    case (Inr x)
    obtain r s2 where f: "f x s1 = (r, s2)" by fastforce
    from invS_E [OF assms(2) s1 f] assms(3) have "deadOrErased (if pr_crashed s2 then s2 else rel x s2)" by presburger
    with m Inr f show ?thesis by (simp add: deferring_def)
  qed (use m s1 in \<open>simp add: deferring_def\<close>)
qed

lemma signer_bracket_erases: "invS deadOrErased (deferring (openSigner env cfg) (\<lambda>_. closeSigner) f)"
  by (rule invS_I) (auto simp: deferring_def openSigner_def split: prod.splits sum.splits)

lemma runCommand_erases: "invS deadOrErased (runCommand cmd serve)"
  unfolding runCommand_def
  by (intro inv_rules invS_deferring signer_bracket_erases)
     (auto simp: loaded_def onWorld_def release_def invS_def keyErased_def split: prod.splits)

section \<open>Properties\<close>

text \<open>The tasks of a run that a signal ended all return the context's error, and \<open>run\<close> none.\<close>

lemma canceled_run_is_clean:
  assumes "serve la p = (ends, p')" "Panicked \<notin> set ends"
    "\<And>t e. t \<in> set ends \<Longrightarrow> taskError t = Some e \<Longrightarrow> errIs e CtxErr"
  shows "ignoreCanceled (runServices serve la) p = (Inr (), p'\<lparr>pr_crashed := False\<rparr>)"
proof -
  have "errIs e CtxErr" if "groupWait (map taskError ts) = Some e" "set ts \<subseteq> set ends" for ts e
    using that
  proof (induction ts)
    case (Cons t ts)
    then show ?case using assms(3) by (cases "taskError t") auto
  qed simp
  then show ?thesis
    using assms(1,2) by (auto simp: ignoreCanceled_def runServices_def split: option.splits)
qed

text \<open>C27: \<open>run\<close> releases what it acquired. A run that fails before its services start leaves open what was
  open before it, and a run whose services have returned has released everything that it had opened for them, and
  nothing else, whatever the services did to other resources; in both cases the signer's key is erased. There are three
  exceptions. A database that was opened but could not be set up stays open, and so do the connections to
  the MEV endpoints when the WebSocket endpoint could not be dialled. And a panic of a goroutine of the services
  ends the process at once: no deferred call runs, and everything is left as the services had it. The process ends
  this way only if a goroutine panicked. The distinctness of
  the MEV endpoints, which this needs, comes from the validated configuration.\<close>

theorem run_releases:
  assumes "hostOK (cmd_host cmd) opened" "keyErased p" "\<not> pr_crashed p" "runCommand cmd serve p = (r, p')"
  shows "if pr_crashed p'
    then \<exists>la q ends q'. serve la q = (ends, q') \<and> Panicked \<in> set ends \<and> opened (pr_world p') = opened (pr_world q')
    else keyErased p' \<and>
      ((\<exists>l. opened (pr_world p') = opened (pr_world p) \<union> l \<and> opened (pr_world p) \<inter> l = {} \<and>
          (l \<noteq> {} \<longrightarrow> (\<exists>e. r = Inl e \<and> leakyError e))) \<or>
       (\<exists>la q ends q'. serve la q = (ends, q') \<and> Panicked \<notin> set ends \<and> opened (pr_world p) \<subseteq> opened (pr_world q) \<and>
          opened (pr_world p') = opened (pr_world q') - (opened (pr_world q) - opened (pr_world p))))"
proof -
  have "settled opened serve p r p'"
    using runCommand_balanced [OF assms(1)] assms(3,4) unfolding balanced_def by blast
  moreover have "errOf r = Some e \<longleftrightarrow> r = Inl e" for e by (cases r) simp_all
  moreover have "deadOrErased p'" by (rule invS_E [OF runCommand_erases disjI2 [OF assms(2)] assms(4)])
  ultimately have d: "pr_crashed p' \<or> keyErased p'"
    "\<not> pr_crashed p' \<and> (\<exists>l. openIn opened p' = openIn opened p \<union> l \<and> openIn opened p \<inter> l = {} \<and>
        (l \<noteq> {} \<longrightarrow> (\<exists>e. r = Inl e \<and> leakyError e))) \<or>
     (\<exists>la q ends q'. serve la q = (ends, q') \<and> (pr_crashed p' \<longleftrightarrow> Panicked \<in> set ends) \<and>
        openIn opened p \<subseteq> openIn opened q \<and>
        openIn opened p' = (if pr_crashed p' then openIn opened q' else openIn opened q' - (openIn opened q - openIn opened p)))"
    by (simp_all only: settled_def leaks_def)
  show ?thesis
  proof (cases "pr_crashed p'")
    case True
    with d(2) show ?thesis unfolding if_P [OF True] by blast
  next
    case False
    from d show ?thesis by (simp only: False simp_thms if_False)
  qed
qed

section \<open>What the services are started on\<close>

text \<open>The services as \<open>run\<close> starts them: with a configuration that was validated, on a database that is the one
  that was opened (or empty, with \<open>--fresh\<close>) and carries the chain that the node has reported.\<close>

definition checkedStart :: "('w, 'c) command \<Rightarrow> 'w process \<Rightarrow> ('w, 'c) launched \<Rightarrow> 'w process \<Rightarrow> bool" where
  "checkedStart cmd p la q \<longleftrightarrow>
     (\<exists>cfg0. validate (cmd_text cmd) (cmd_withUpdater cmd) cfg0 = (la_config la, [])) \<and>
     la_syncerAddress la = hexToAddress (cmd_text cmd) (SSVContract (la_config la)) \<and>
     (\<exists>c w w' t. GetChainIDRpc (la_exec la) w = (Inr c, w') \<and>
        t = (if cmd_freshStart cmd then emptyTables else tbl (pr_store p)) \<and>
        chain_id t \<in> {None, Some (word_of_int c)} \<and> tbl (pr_store q) = t\<lparr>chain_id := Some (word_of_int c)\<rparr>)"

lemma deferring_cong:
  "(\<And>x s'. m s = (Inr x, s') \<Longrightarrow> f x s' = g x s') \<Longrightarrow> deferring m rel f s = deferring m rel g s"
  by (auto simp: deferring_def split: prod.splits sum.splits)

lemma bindS_cong: "(\<And>x s'. m s = (Inr x, s') \<Longrightarrow> f x s' = g x s') \<Longrightarrow> bindS m f s = bindS m g s"
  by (auto simp: bindS_def split: prod.splits sum.splits)

lemma ignoreCanceled_cong: "serve la q = serve' la q \<Longrightarrow>
    ignoreCanceled (runServices serve la) q = ignoreCanceled (runServices serve' la) q"
  by (simp add: ignoreCanceled_def runServices_def)

lemma onWorld_store: "onWorld m p = (r, p') \<Longrightarrow> pr_store p' = pr_store p"
  by (auto simp: onWorld_def split: prod.splits)

lemma runClients_cong:
  assumes "\<And>la q c w w'. la_config la = cfg \<Longrightarrow> la_syncerAddress la = syncerAddress (cmd_text cmd) cfg \<Longrightarrow>
      GetChainIDRpc (la_exec la) w = (Inr c, w') \<Longrightarrow> chain_id (tbl (pr_store p)) \<in> {None, Some (word_of_int c)} \<Longrightarrow>
      tbl (pr_store q) = (tbl (pr_store p))\<lparr>chain_id := Some (word_of_int c)\<rparr> \<Longrightarrow> serve la q = serve' la q"
  shows "runClients cmd serve cfg sg p = runClients cmd serve' cfg sg p"
  unfolding runClients_def
proof (rule deferring_cong, clarify, rule bindS_cong, rule bindS_cong, rule deferring_cong, rule ignoreCanceled_cong)
  fix c ec bs p1 chainID p2 beacon p3 conns q
  assume e: "onWorld (wrapS ''create execution client'' (NewExecClient (cmd_host cmd)
        \<lparr>EC_URL = EthRPC cfg, EC_MinBatchSize = 0, EC_MaxBatchSize = MaxSyncBatchSize cfg, EC_RetryConfig = None\<rparr>)) p =
      (Inr (c, ec, bs), p1)"
    and v: "onBoth (validateChainID ec) p1 = (Inr chainID, p2)"
    and b: "onWorld (wrapS ''create beacon client'' (NewBeaconClient (cmd_host cmd)
        \<lparr>BC_URL = BeaconURL cfg, BC_Timeout = 0, BC_RetryConfig = None\<rparr>)) p2 = (Inr beacon, p3)"
    and n: "onWorld (wrapS ''create contract client''
        (NewClient (net (cmd_host cmd)) (contractConfig cfg (cmd_withUpdater cmd) chainID sg))) p3 = (Inr conns, q)"
  obtain s w where vs: "validateChainID ec (pr_store p1, pr_world p1) = (Inr chainID, s, w)" "pr_store p2 = s"
    using v by (auto simp: onBoth_def split: prod.splits)
  have "chain_id (tbl (pr_store p)) \<in> {None, Some (word_of_int chainID)}"
    "tbl s = (tbl (pr_store p))\<lparr>chain_id := Some (word_of_int chainID)\<rparr>" "GetChainIDRpc ec (pr_world p1) = (Inr chainID, w)"
    using validateChainID_Inr [OF vs(1)] onWorld_store [OF e] by simp_all
  moreover have "pr_store q = s" using onWorld_store [OF b] onWorld_store [OF n] vs(2) by simp
  ultimately show "serve \<lparr>la_config = cfg, la_exec = ec, la_batch = bs, la_beacon = beacon, la_contract = conns,
        la_syncerAddress = syncerAddress (cmd_text cmd) cfg\<rparr> q =
      serve' \<lparr>la_config = cfg, la_exec = ec, la_batch = bs, la_beacon = beacon, la_contract = conns,
        la_syncerAddress = syncerAddress (cmd_text cmd) cfg\<rparr> q"
    by (intro assms) simp_all
qed

lemma loaded_valid:
  "loaded cmd p = (Inr cfg, p') \<Longrightarrow>
     p' = p \<and> (\<exists>cfg0. validate (cmd_text cmd) (cmd_withUpdater cmd) cfg0 = (cfg, []))"
  by (auto simp: loaded_def loadConfig_def Let_def split: sum.splits prod.splits if_splits)

text \<open>C36: the services start on a checked state only. Whatever the services are, a run does
  not depend on what they would do on any other state: with a configuration that did not pass validation, or on
  a database that carries another chain than the node's or other rows than those it was opened with.\<close>

theorem services_start_checked:
  fixes cmd :: "('w, 'c) command"
  assumes "\<And>la q. checkedStart cmd p la q \<Longrightarrow> serve la q = serve' la q"
  shows "runCommand cmd serve p = runCommand cmd serve' p"
  unfolding runCommand_def
proof (rule bindS_cong, rule deferring_cong, rule deferring_cong, rule deferring_cong, rule bindS_cong, rule runClients_cong)
  fix cfg m sg db u c w w' and la :: "('w, 'c) launched" and p0 p1 p2 p3 p4 q :: "'w process"
  assume l: "loaded cmd p = (Inr cfg, p0)"
    and m: "onWorld (wrapS ''setup metrics'' (setupMetrics (cmd_host cmd))) p0 = (Inr m, p1)"
    and g: "openSigner (cmd_env cmd) (WalletOf cfg) p1 = (Inr sg, p2)"
    and d: "onWorld (wrapS ''create storage'' (NewStorage (cmd_host cmd) (DBPath cfg))) p2 = (Inr db, p3)"
    and f: "(if cmd_freshStart cmd then onStore (wrapS ''clear database'' ClearAllState) else retS ()) p3 = (Inr u, p4)"
    and la: "la_config la = cfg" "la_syncerAddress la = syncerAddress (cmd_text cmd) cfg"
      "GetChainIDRpc (la_exec la) w = (Inr c, w')" "chain_id (tbl (pr_store p4)) \<in> {None, Some (word_of_int c)}"
      "tbl (pr_store q) = (tbl (pr_store p4))\<lparr>chain_id := Some (word_of_int c)\<rparr>"
  have "pr_store p2 = pr_store p1" using g by (auto simp: openSigner_def split: sum.splits)
  then have p3: "pr_store p3 = pr_store p" using loaded_valid [OF l] onWorld_store [OF m] onWorld_store [OF d] by simp
  have "tbl (pr_store p4) = (if cmd_freshStart cmd then emptyTables else tbl (pr_store p))"
    using f p3 by (auto simp: onStore_def retS_def wrapS_def split: if_splits prod.splits sum.splits dest: ClearAllState_Inr)
  with la(3-5) have "\<exists>c w w' t. GetChainIDRpc (la_exec la) w = (Inr c, w') \<and>
      t = (if cmd_freshStart cmd then emptyTables else tbl (pr_store p)) \<and>
      chain_id t \<in> {None, Some (word_of_int c)} \<and> tbl (pr_store q) = t\<lparr>chain_id := Some (word_of_int c)\<rparr>" by metis
  with la(1,2) loaded_valid [OF l] have "checkedStart cmd p la q" by (simp add: checkedStart_def syncerAddress_def)
  then show "serve la q = serve' la q" by (rule assms)
qed

text \<open>A host whose resources are numbered, with a database that takes the schema or does not.\<close>

definition sampleHost :: "bool \<Rightarrow> (nat \<times> nat list, nat) hostLib" where
  "sampleHost works = \<lparr>net = sampleDial [], setupMetrics = dial (sampleDial []) ''metrics'', mkdirAll = (\<lambda>_. retS ()),
     sqlOpen = dial (sampleDial []), dbPing = (\<lambda>_. retS ()), dbExec = (\<lambda>_ _. retS ()),
     dbSchema = (\<lambda>_. if works then retS () else failS (LibErr ''database is locked'')),
     clientVersion = (\<lambda>_. retS ''geth''),
     execCalls = (\<lambda>_. \<lparr>filterLogs = (\<lambda>_ _ _ _. retS []), batchHeaders = (\<lambda>_. retS []), headerFinalized = retS 4,
       headerLatest = retS 4, chainIDCall = retS 1,
       timerOf = \<lparr>randInt63n = (\<lambda>n w. (0, w)), sleepFor = (\<lambda>d w. (True, w)), ctxDone = (\<lambda>_. False)\<rparr>,
       retryConfig = DefaultRetryConfig\<rparr>),
     beaconDial = (\<lambda>_ _. retS \<lparr>apiFinality = retS 9, apiBlockNumber = (\<lambda>_. retS (Inr 5)), apiFinalizedHeaderRoot = retS [7],
       apiValidators = (\<lambda>ks. retS []),
       beaconTimer = \<lparr>randInt63n = (\<lambda>n w. (0, w)), sleepFor = (\<lambda>d w. (True, w)), ctxDone = (\<lambda>_. False)\<rparr>,
       beaconRetry = DefaultRetryConfig\<rparr>), nodeVersion = (\<lambda>_. retS ''teku'')\<rparr>"

definition sampleCommand :: "bool \<Rightarrow> (nat \<times> nat list, nat) command" where
  "sampleCommand works = \<lparr>cmd_host = sampleHost works, cmd_text = sampleLib, cmd_file = Inr,
     cmd_decode = (\<lambda>_ _. Inr sampleConfig), cmd_zero = sampleConfig, cmd_env = sampleEnv,
     cmd_configPath = ''config.yaml'', cmd_freshStart = False, cmd_withUpdater = True\<rparr>"

definition sampleServe :: "(nat \<times> nat list, nat) scheduler" where
  "sampleServe la p = ([ApiEnd (CtxDone None), MetricsEnd (CtxDone None), SyncEnd (Some CtxErr)], p)"

lemma sampleHost_ok: "hostOK (cmd_host (sampleCommand works)) openedIn"
  using sampleDial_ok [of "[]"]
  by (auto simp: hostOK_def sampleCommand_def sampleHost_def opensOne_def keepsOpen_def sampleDial_def openedIn_def
      retS_def failS_def)

definition sampleProcess0 :: "(nat \<times> nat list) process" where
  "sampleProcess0 = \<lparr>pr_store = \<lparr>tbl = emptyTables, faults = []\<rparr>, pr_world = (0, []), pr_signer = None, pr_crashed = False\<rparr>"

definition sampleLoaded :: config where
  "sampleLoaded = sampleConfig\<lparr>DBPath := ''x.db'', LogLevel := ''Info''\<rparr>"

lemma sample_loaded: "loaded (sampleCommand works) p = (Inr sampleLoaded, p)"
proof -
  have "fst (validate sampleLib True sampleConfig) = sampleLoaded"
    by (simp add: validate_def Let_def sampleLoaded_def) code_simp
  then have "validate sampleLib True sampleConfig = (sampleLoaded, [])"
    using sampleConfig_valid by (metis prod.collapse)
  then show ?thesis by (simp add: loaded_def sampleCommand_def loadConfig_def)
qed

lemma sample_signer: "NewSigner sampleEnv (Some (WalletOf sampleLoaded)) = Inr \<lparr>privateKey = Some 9, keyD = 9, address = [9]\<rparr>"
  by code_simp

lemma sample_dir: "pathDir (DBPath sampleLoaded) = ''.''"
  by code_simp

lemma sample_contract:
  "NewClient (sampleDial []) (contractConfig sampleLoaded True 1 \<lparr>privateKey = Some 9, keyD = 9, address = [9]\<rparr>) (3, [2, 1, 0]) =
     (Inr \<lparr>ethConn = 3, wsConn = Some 6, mevConns = [(''http://a'', 4), (''http://b'', 5)]\<rparr>, 7, [6, 5, 4, 3, 2, 1, 0])"
  by code_simp

lemma sampleDial_simps:
  "dial (sampleDial []) (c # url) (n, cs) = (Inr n, n + 1, n # cs)"
  "hangUp (sampleDial []) k (n, cs) = (n, filter (\<lambda>d. d \<noteq> k) cs)" "connOrder (sampleDial []) ks = ks"
  by (simp_all add: sampleDial_def)

lemma sampleHost_simps:
  "net (sampleHost works) = sampleDial []" "setupMetrics (sampleHost works) = dial (sampleDial []) ''metrics''"
  "sqlOpen (sampleHost works) = dial (sampleDial [])" "dbPing (sampleHost works) c = retS ()"
  "dbExec (sampleHost works) c q = retS ()"
  "dbSchema (sampleHost works) c = (if works then retS () else failS (LibErr ''database is locked''))"
  by (simp_all add: sampleHost_def)

lemma sampleCommand_simps:
  "cmd_host (sampleCommand works) = sampleHost works" "cmd_env (sampleCommand works) = sampleEnv"
  "cmd_withUpdater (sampleCommand works) = True" "cmd_freshStart (sampleCommand works) = False"
  by (simp_all add: sampleCommand_def)

lemma sample_storage:
  "NewStorage (sampleHost works) (DBPath sampleLoaded) (1, [0]) =
     (if works then Inr 1 else Inl (Wrap ''apply schema'' (LibErr ''database is locked'')), 2, [1, 0])"
proof -
  obtain c d where d: "sqliteDSN (DBPath sampleLoaded) = c # d"
    by (cases "sqliteDSN (DBPath sampleLoaded)") (auto simp: sqliteDSN_def)
  have "NewStorage (sampleHost works) (DBPath sampleLoaded) =
      bindS (retS ()) (\<lambda>_. bindS (wrapS ''open database'' (sqlOpen (sampleHost works) (c # d))) (setupDB (sampleHost works)))"
    by (simp add: NewStorage_def setupDB_def [abs_def] Let_def sample_dir d)
  then show ?thesis
    by (simp add: setupDB_def sampleHost_simps sampleDial_simps dbPragmas_def bindS_def wrapS_def retS_def failS_def
        del: One_nat_def)
qed

lemma sample_leak:
  "\<exists>p. runCommand (sampleCommand False) sampleServe sampleProcess0 =
     (Inl (Wrap ''create storage'' (Wrap ''apply schema'' (LibErr ''database is locked''))), p) \<and> pr_world p = (2, [1]) \<and> \<not> pr_crashed p"
  by (simp add: runCommand_def bindS_def sample_loaded deferring_def onWorld_def wrapS_def sampleCommand_simps sampleHost_simps
      sampleDial_simps openSigner_def sample_signer sample_storage sampleProcess0_def release_def closeSigner_def
      del: One_nat_def)

lemma sample_exec:
  "\<exists>ec bs. NewExecClient (sampleHost works) \<lparr>EC_URL = EthRPC sampleLoaded, EC_MinBatchSize = 0, EC_MaxBatchSize = m,
      EC_RetryConfig = None\<rparr> (2, [1, 0]) = (Inr (2, ec, bs), 3, [2, 1, 0]) \<and> chainIDCall ec = retS 1"
  by (simp add: NewExecClient_def sampleHost_def sampleDial_simps sampleLoaded_def sampleConfig_def retS_def
      del: One_nat_def)

lemma sample_chain:
  assumes "chainIDCall ec = retS 1"
  shows "\<exists>s. validateChainID ec (\<lparr>tbl = emptyTables, faults = []\<rparr>, w) = (Inr 1, s, w)"
proof -
  have "GetChainIDRpc ec w = (Inr 1, w)" by (simp add: GetChainIDRpc_def wrapS_def WithRetry_ok assms retS_def)
  then show ?thesis
    by (simp add: validateChainID_def GetChainID_def SetChainID_def wrapS_def emptyTables_def)
qed

text \<open>The services of the examples end by a signal, or one of them panics; the three runs are a clean one, one that leaves the
  database open and one that a panic ends.\<close>

definition samplePanic :: "(nat \<times> nat list, nat) scheduler" where
  "samplePanic la p = ([Panicked], p)"

lemma sampleServe_ends: "ignoreCanceled (runServices sampleServe la) p = (Inr (), p\<lparr>pr_crashed := False\<rparr>)"
  by (rule canceled_run_is_clean [where ends = "[ApiEnd (CtxDone None), MetricsEnd (CtxDone None), SyncEnd (Some CtxErr)]"])
     (auto simp: sampleServe_def taskError_def serverRun_def metricsRun_def)

lemma samplePanic_ends: "ignoreCanceled (runServices samplePanic la) p = (Inr (), p\<lparr>pr_crashed := True\<rparr>)"
  by (simp add: samplePanic_def runServices_def ignoreCanceled_def taskError_def)

lemma sample_clients:
  assumes "\<And>la p. ignoreCanceled (runServices serve la) p = (Inr (), p\<lparr>pr_crashed := dies\<rparr>)"
  shows "\<exists>p'. runClients (sampleCommand works) serve sampleLoaded \<lparr>privateKey = Some 9, keyD = 9, address = [9]\<rparr>
      \<lparr>pr_store = \<lparr>tbl = emptyTables, faults = []\<rparr>, pr_world = (2, [1, 0]), pr_signer = sg, pr_crashed = False\<rparr> = (Inr (), p') \<and>
     pr_world p' = (7, if dies then [6, 5, 4, 3, 2, 1, 0] else [1, 0]) \<and> pr_crashed p' = dies"
proof -
  obtain ec bs where e: "NewExecClient (sampleHost works) \<lparr>EC_URL = EthRPC sampleLoaded, EC_MinBatchSize = 0,
      EC_MaxBatchSize = MaxSyncBatchSize sampleLoaded, EC_RetryConfig = None\<rparr> (2, [1, 0]) = (Inr (2, ec, bs), 3, [2, 1, 0])"
    "chainIDCall ec = retS 1" using sample_exec by blast
  obtain s where s: "validateChainID ec (\<lparr>tbl = emptyTables, faults = []\<rparr>, 3, [2, 1, 0]) = (Inr 1, s, 3, [2, 1, 0])"
    using sample_chain [OF e(2)] by blast
  obtain b where b: "NewBeaconClient (sampleHost works) \<lparr>BC_URL = BeaconURL sampleLoaded, BC_Timeout = 0,
      BC_RetryConfig = None\<rparr> (3, [2, 1, 0]) = (Inr b, 3, [2, 1, 0])"
    by (simp add: NewBeaconClient_def sampleHost_def retS_def)
  show ?thesis
    by (simp add: runClients_def deferring_def bindS_def onWorld_def onBoth_def wrapS_def sampleCommand_simps e(1) s b assms
        sample_contract sampleHost_simps release_def CloseClient_def hangUpAll_def sampleDial_simps del: One_nat_def)
qed

lemma sample_run:
  assumes "\<And>la p. ignoreCanceled (runServices serve la) p = (Inr (), p\<lparr>pr_crashed := dies\<rparr>)"
  shows "\<exists>p. runCommand (sampleCommand True) serve sampleProcess0 = (Inr (), p) \<and>
     pr_world p = (7, if dies then [6, 5, 4, 3, 2, 1, 0] else []) \<and> pr_crashed p = dies"
proof -
  obtain p where c: "runClients (sampleCommand True) serve sampleLoaded \<lparr>privateKey = Some 9, keyD = 9, address = [9]\<rparr>
      \<lparr>pr_store = \<lparr>tbl = emptyTables, faults = []\<rparr>, pr_world = (2, [1, 0]),
        pr_signer = Some \<lparr>privateKey = Some 9, keyD = 9, address = [9]\<rparr>, pr_crashed = False\<rparr> = (Inr (), p)"
    "pr_world p = (7, if dies then [6, 5, 4, 3, 2, 1, 0] else [1, 0])" "pr_crashed p = dies"
    using sample_clients [OF assms] by blast
  show ?thesis
    by (simp add: runCommand_def bindS_def retS_def sample_loaded deferring_def onWorld_def wrapS_def sampleCommand_simps
        sampleHost_simps sampleDial_simps openSigner_def sample_signer sample_storage sampleProcess0_def release_def
        closeSigner_def c del: One_nat_def)
qed

lemma sample_clean:
  "\<exists>p. runCommand (sampleCommand True) sampleServe sampleProcess0 = (Inr (), p) \<and> pr_world p = (7, []) \<and> \<not> pr_crashed p"
  using sample_run [OF sampleServe_ends] by simp

lemma sample_panic:
  "\<exists>p. runCommand (sampleCommand True) samplePanic sampleProcess0 = (Inr (), p) \<and> pr_world p = (7, [6, 5, 4, 3, 2, 1, 0]) \<and>
     pr_crashed p"
  using sample_run [OF samplePanic_ends] by simp

theorem run_releases_witness:
  "(\<exists>p'. runCommand (sampleCommand True) sampleServe sampleProcess0 = (Inr (), p') \<and>
      openedIn (pr_world p') = {} \<and> keyErased p') \<and>
   (\<exists>e p'. runCommand (sampleCommand False) sampleServe sampleProcess0 = (Inl e, p') \<and>
      openedIn (pr_world p') = {1} \<and> keyErased p') \<and>
   (\<exists>r p'. runCommand (sampleCommand True) samplePanic sampleProcess0 = (r, p') \<and>
      openedIn (pr_world p') = {..<7}) \<and>
   (\<exists>la q ends q'. samplePanic la q = (ends, q') \<and> openedIn (pr_world q') = {..<7})"
proof -
  have k: "keyErased sampleProcess0" "\<not> pr_crashed sampleProcess0" by (simp_all add: keyErased_def sampleProcess0_def)
  have z: "openedIn (pr_world sampleProcess0) = {}" "openedIn (2, [1]) = {1}" "openedIn (7, [6, 5, 4, 3, 2, 1, 0]) = {..<7}"
    by (auto simp: sampleProcess0_def openedIn_def)
  have same: "q' = q" if "sampleServe la q = (ends, q')" for la q ends q' using that by (simp add: sampleServe_def)
  note run = run_releases [OF sampleHost_ok k]
  obtain p1 where p1: "runCommand (sampleCommand True) sampleServe sampleProcess0 = (Inr (), p1)" "\<not> pr_crashed p1"
    using sample_clean by blast
  obtain e p2 where p2: "runCommand (sampleCommand False) sampleServe sampleProcess0 = (Inl e, p2)" "pr_world p2 = (2, [1])"
    "\<not> pr_crashed p2" using sample_leak by blast
  obtain p3 where p3: "runCommand (sampleCommand True) samplePanic sampleProcess0 = (Inr (), p3)"
    "pr_world p3 = (7, [6, 5, 4, 3, 2, 1, 0])" "pr_crashed p3" using sample_panic by blast
  have "openedIn (pr_world p1) = {}" "keyErased p1" using run [OF p1(1)] p1(2) z(1) by (auto dest: same)
  moreover have "keyErased p2" using run [OF p2(1)] p2(3) by simp
  moreover have "\<exists>la q ends q'. samplePanic la q = (ends, q') \<and> openedIn (pr_world q') = {..<7}"
    using run [OF p3(1)] unfolding p3(2) z(3) if_P [OF p3(3)] by metis
  ultimately show ?thesis using p1(1) p2(1,2) p3(1,2) z(2,3) by auto
qed

theorem services_start_checked_witness:
  "fst (runCommand (sampleCommand True) (\<lambda>la q. if checkedStart (sampleCommand True) sampleProcess0 la q
     then sampleServe la q else ([SyncEnd (Some (ErrNew ''unchecked''))], q)) sampleProcess0) = Inr ()"
proof -
  have "runCommand (sampleCommand True) (\<lambda>la q. if checkedStart (sampleCommand True) sampleProcess0 la q
     then sampleServe la q else ([SyncEnd (Some (ErrNew ''unchecked''))], q)) sampleProcess0 =
     runCommand (sampleCommand True) sampleServe sampleProcess0"
    by (rule services_start_checked) simp
  with sample_clean show ?thesis by auto
qed

end
