(* ===== verification/Codec.thy ===== *)
theory Codec
  imports Config
begin

text \<open>
  The text columns of the table of clusters (\<^verbatim>\<open>storage/storage.go\<close>): the operator identifiers as
  a JSON array and the balance in decimal, as \<open>upsertCluster\<close> writes them and \<open>scanClusterRow\<close> reads
  them. \<open>Storage\<close> keeps the values; that a row survives its texts is proved here.
\<close>

section \<open>Operator identifiers\<close>

text \<open>\<open>json.Marshal\<close> of a slice of \<open>uint64\<close>; \<open>None\<close> is the nil slice.\<close>

definition encodeOperatorIDs :: "u64 list option \<Rightarrow> string" where
  "encodeOperatorIDs ids =
     (case ids of
        None \<Rightarrow> ''null''
      | Some is \<Rightarrow> ''['' @ joinWith '','' (map (\<lambda>i. dec (unat i)) is) @ '']'')"

text \<open>White space, and text without that around it.\<close>

definition jsonSpace :: "char \<Rightarrow> bool" where
  "jsonSpace c \<longleftrightarrow> c = CHR '' '' \<or> c = CHR 0x09 \<or> c = CHR 0x0A \<or> c = CHR 0x0D"

definition trimJSON :: "string \<Rightarrow> string" where
  "trimJSON s = rev (dropWhile jsonSpace (rev (dropWhile jsonSpace s)))"

definition isDigit :: "char \<Rightarrow> bool" where
  "isDigit c \<longleftrightarrow> 48 \<le> (of_char c :: nat) \<and> (of_char c :: nat) \<le> 57"

definition decValue :: "string \<Rightarrow> nat" where
  "decValue s = foldl (\<lambda>n c. 10 * n + (of_char c - 48)) 0 s"

text \<open>
  An element that \<open>json.Unmarshal\<close> can store in a \<open>uint64\<close>: \<open>null\<close>, which leaves the zero value, or a
  number without sign, fraction, exponent and leading zeros, below \<open>2^64\<close>. As such elements
  contain neither commas nor brackets, the texts that decode are a \<open>null\<close> or a bracketed list of
  elements between commas; \<open>jsonErr\<close> is the error for any other text.
\<close>

definition elemValue :: "string \<Rightarrow> u64 option" where
  "elemValue s =
     (if s = ''null'' then Some 0
      else if s \<noteq> [] \<and> list_all isDigit s \<and> (length s = 1 \<or> hd s \<noteq> CHR ''0'') \<and> decValue s < 2 ^ 64
      then Some (of_nat (decValue s)) else None)"

definition arrayOf :: "string \<Rightarrow> u64 list option" where
  "arrayOf mid =
     (if trimJSON mid = [] then Some []
      else those (map (\<lambda>e. elemValue (trimJSON e)) (splitFrom [] mid)))"

definition decodeOperatorIDs :: "(string \<Rightarrow> goerror) \<Rightarrow> string \<Rightarrow> goerror + u64 list option" where
  "decodeOperatorIDs jsonErr data =
     (let t = trimJSON data in
      if t = ''null'' then Inr None
      else if 2 \<le> length t \<and> hd t = CHR ''['' \<and> last t = CHR '']'' then
        (case arrayOf (butlast (tl t)) of
           Some ids \<Rightarrow> Inr (Some ids)
         | None \<Rightarrow> Inl (Wrap ''decode operator IDs'' (jsonErr data)))
      else Inl (Wrap ''decode operator IDs'' (jsonErr data)))"

section \<open>Rows as texts\<close>

text \<open>\<open>SetString(s, 10)\<close> of \<open>big.Int\<close>: an optional sign and digits.\<close>

definition bigSetString :: "string \<Rightarrow> int option" where
  "bigSetString s =
     (let neg = (s \<noteq> [] \<and> hd s = CHR ''-'');
          ds = (if s \<noteq> [] \<and> hd s \<in> {CHR ''-'', CHR ''+''} then tl s else s)
      in if ds \<noteq> [] \<and> list_all isDigit ds
         then Some (if neg then - int (decValue ds) else int (decValue ds)) else None)"

text \<open>The columns of a row of \<open>clusters\<close>.\<close>

record clusterColumns =
  col_cluster_id :: bytes
  col_owner_address :: bytes
  col_operator_ids :: string
  col_validator_count :: u32
  col_network_fee_index :: u64
  col_idx :: u64
  col_is_active :: nat
  col_balance :: string

definition columnsOf :: "ClusterRow \<Rightarrow> clusterColumns" where
  "columnsOf c = \<lparr>col_cluster_id = Row_ClusterID c, col_owner_address = Row_OwnerAddress c,
     col_operator_ids = encodeOperatorIDs (Some (Row_OperatorIDs c)), col_validator_count = Row_ValidatorCount c,
     col_network_fee_index = Row_NetworkFeeIndex c, col_idx = Row_Index c,
     col_is_active = boolToInt (Row_IsActive c), col_balance = decInt (Row_Balance c)\<rparr>"

definition scanColumns :: "(string \<Rightarrow> goerror) \<Rightarrow> clusterColumns \<Rightarrow> goerror + ClusterRow" where
  "scanColumns jsonErr r =
     (case decodeOperatorIDs jsonErr (col_operator_ids r) of
        Inl e \<Rightarrow> Inl e
      | Inr ids \<Rightarrow>
          (case bigSetString (col_balance r) of
             None \<Rightarrow> Inl (ErrNew (''invalid balance value: '' @ col_balance r))
           | Some b \<Rightarrow>
               Inr \<lparr>Row_ClusterID = col_cluster_id r, Row_OwnerAddress = col_owner_address r,
                 Row_OperatorIDs = (case ids of None \<Rightarrow> [] | Some is \<Rightarrow> is),
                 Row_ValidatorCount = col_validator_count r, Row_NetworkFeeIndex = col_network_fee_index r,
                 Row_Index = col_idx r, Row_IsActive = intToBool (col_is_active r), Row_Balance = b\<rparr>))"

section \<open>Decimal texts\<close>

lemma of_char_digitChar: "d < 10 \<Longrightarrow> (of_char (digitChar d) :: nat) = 48 + d"
  by (simp add: digitChar_def)

lemma decValue_snoc: "decValue (s @ [c]) = 10 * decValue s + (of_char c - 48)"
  by (simp add: decValue_def)

lemma dec_digits: "dec n \<noteq> [] \<and> list_all isDigit (dec n) \<and> decValue (dec n) = n"
proof (induction n rule: dec.induct)
  case (1 n)
  show ?case
  proof (cases "n < 10")
    case True
    then show ?thesis by (simp add: dec.simps isDigit_def decValue_def of_char_digitChar)
  next
    case False
    have "isDigit (digitChar (n mod 10))" by (simp add: isDigit_def of_char_digitChar)
    moreover have "dec n = dec (n div 10) @ [digitChar (n mod 10)]" using False by (subst dec.simps) simp
    ultimately show ?thesis using 1 [OF False] by (simp add: decValue_snoc of_char_digitChar)
  qed
qed

lemma dec_leading: "length (dec n) = 1 \<or> hd (dec n) \<noteq> CHR ''0''"
proof (induction n rule: dec.induct)
  case (1 n)
  show ?case
  proof (cases "n < 10")
    case True
    then show ?thesis by (simp add: dec.simps)
  next
    case False
    have "hd (dec (n div 10)) \<noteq> CHR ''0''"
    proof (cases "n div 10 < 10")
      case True
      have "(of_char (digitChar (n div 10)) :: nat) \<noteq> 48" using True False by (simp add: of_char_digitChar)
      then have "digitChar (n div 10) \<noteq> CHR ''0''" by force
      with True show ?thesis by (simp add: dec.simps)
    next
      case gt: False
      then have "length (dec (n div 10)) \<noteq> 1" using dec_digits by (subst dec.simps) simp
      with 1 [OF False] show ?thesis by simp
    qed
    moreover have "dec n = dec (n div 10) @ [digitChar (n mod 10)]" using False by (subst dec.simps) simp
    ultimately show ?thesis using dec_digits [of "n div 10"] by simp
  qed
qed

lemma isDigit_plain: "isDigit c \<Longrightarrow> \<not> jsonSpace c \<and> c \<notin> {CHR '','', CHR ''-'', CHR ''+'', CHR ''n''}"
  by (auto simp: isDigit_def jsonSpace_def)

lemma dec_elem: "n < 2 ^ 64 \<Longrightarrow> elemValue (dec n) = Some (of_nat n)"
  using dec_digits [of n] dec_leading [of n] isDigit_plain
  by (cases "dec n") (auto simp: elemValue_def)

text \<open>Text with no space at its ends.\<close>

lemma trimJSON_id:
  assumes "s = [] \<or> \<not> jsonSpace (hd s) \<and> \<not> jsonSpace (last s)"
  shows "trimJSON s = s"
proof (cases s)
  case (Cons c cs)
  then have "dropWhile jsonSpace s = s" using assms by simp
  moreover have "dropWhile jsonSpace (rev s) = rev s"
    using assms Cons by (cases "rev s") (auto simp: last_conv_nth rev_nth hd_rev [symmetric])
  ultimately show ?thesis by (simp add: trimJSON_def)
qed (simp add: trimJSON_def)

lemma dec_trim: "trimJSON (dec n) = dec n"
proof (rule trimJSON_id)
  have "\<forall>c \<in> set (dec n). \<not> jsonSpace c" using dec_digits [of n] isDigit_plain by (auto simp: list_all_iff)
  then show "dec n = [] \<or> \<not> jsonSpace (hd (dec n)) \<and> \<not> jsonSpace (last (dec n))" by auto
qed

lemma splitFrom_plain: "CHR '','' \<notin> set p \<Longrightarrow> splitFrom acc p = [acc @ p]"
  by (induction p arbitrary: acc) auto

lemma splitFrom_comma: "CHR '','' \<notin> set p \<Longrightarrow> splitFrom acc (p @ '','' @ q) = (acc @ p) # splitFrom [] q"
  by (induction p arbitrary: acc) auto

lemma splitFrom_joinWith:
  "ps \<noteq> [] \<Longrightarrow> \<forall>p \<in> set ps. CHR '','' \<notin> set p \<Longrightarrow> splitFrom [] (joinWith '','' ps) = ps"
proof (induction ps)
  case (Cons p ps)
  show ?case
  proof (cases ps)
    case Nil
    with Cons.prems show ?thesis by (simp add: splitFrom_plain)
  next
    case (Cons q qs)
    with Cons.IH Cons.prems splitFrom_comma [of p "[]" "joinWith '','' ps"] show ?thesis by simp
  qed
qed simp

lemma joinWith_dec:
  "is \<noteq> [] \<Longrightarrow> joinWith '','' (map dec is) \<noteq> [] \<and>
     isDigit (hd (joinWith '','' (map dec is))) \<and> isDigit (last (joinWith '','' (map dec is)))"
proof (induction "is")
  case (Cons i "is")
  have d: "dec i \<noteq> []" "isDigit (hd (dec i))" "isDigit (last (dec i))"
    using dec_digits [of i] by (auto simp: list_all_iff)
  show ?case
  proof (cases "is")
    case Nil
    with d show ?thesis by simp
  next
    case (Cons j js)
    with Cons.IH d show ?thesis by simp
  qed
qed simp

lemma arrayOf_encoded: "arrayOf (joinWith '','' (map (\<lambda>i. dec (unat i)) is)) = Some is"
proof (cases "is = []")
  case True
  then show ?thesis by (simp add: arrayOf_def trimJSON_def)
next
  case False
  let ?ps = "map (\<lambda>i. dec (unat i)) is"
  have j: "joinWith '','' ?ps \<noteq> []" "isDigit (hd (joinWith '','' ?ps))" "isDigit (last (joinWith '','' ?ps))"
    using joinWith_dec [of "map unat is"] False by (simp_all add: comp_def)
  then have t: "trimJSON (joinWith '','' ?ps) = joinWith '','' ?ps" by (intro trimJSON_id) (simp add: isDigit_plain)
  have "CHR '','' \<notin> set (dec n)" for n using dec_digits [of n] isDigit_plain by (auto simp: list_all_iff)
  then have sp: "splitFrom [] (joinWith '','' ?ps) = ?ps" by (intro splitFrom_joinWith) (use False in auto)
  have "elemValue (trimJSON (dec (unat i))) = Some i" for i :: u64
  proof -
    have "unat i < 2 ^ 64" using unsigned_less [of i] by simp
    then show ?thesis using dec_elem [of "unat i"] by (simp add: dec_trim)
  qed
  then have "those (map (\<lambda>e. elemValue (trimJSON e)) ?ps) = Some (map (\<lambda>i. i) is)"
    unfolding map_map comp_def by (intro those_map_Some) simp
  then show ?thesis using t sp j(1) by (simp add: arrayOf_def)
qed

lemma decode_encode: "decodeOperatorIDs jsonErr (encodeOperatorIDs ids) = Inr ids"
proof (cases ids)
  case None
  have "trimJSON ''null'' = ''null''" by code_simp
  with None show ?thesis by (simp add: encodeOperatorIDs_def decodeOperatorIDs_def)
next
  case (Some "is")
  let ?t = "encodeOperatorIDs (Some is)"
  have e: "?t = CHR ''['' # (joinWith '','' (map (\<lambda>i. dec (unat i)) is) @ '']'')" by (simp add: encodeOperatorIDs_def)
  then have "trimJSON ?t = ?t" by (intro trimJSON_id) (simp add: jsonSpace_def)
  with Some show ?thesis by (simp add: decodeOperatorIDs_def Let_def e butlast_append arrayOf_encoded)
qed

lemma bigSetString_decInt: "bigSetString (decInt z) = Some z"
proof (cases "z < 0")
  case True
  then show ?thesis using dec_digits [of "nat (- z)"] by (simp add: decInt_def bigSetString_def)
next
  case False
  obtain c cs where c: "dec (nat z) = c # cs" using dec_digits [of "nat z"] by (cases "dec (nat z)") auto
  with dec_digits [of "nat z"] have "isDigit c" by simp
  with isDigit_plain [OF this] False c dec_digits [of "nat z"] show ?thesis by (simp add: decInt_def bigSetString_def)
qed

section \<open>Properties\<close>

text \<open>C40: a cluster row survives the texts of its columns: whatever its operators and its
  balance, \<open>scanClusterRow\<close> decodes the JSON array and the decimal text that \<open>upsertCluster\<close> wrote to the row
  itself, without an error; this is the row that the table of values in \<open>Storage\<close> gives back.\<close>

theorem cluster_columns_roundtrip:
  "scanColumns jsonErr (columnsOf c) = Inr c \<and> scanClusterRow (rowToRec c) = c"
  by (simp add: scanColumns_def columnsOf_def decode_encode bigSetString_decInt scanClusterRow_def rowToRec_def
      boolToInt_def intToBool_def)

end
