(* ===== verification/CommitText.thy ===== *)
theory CommitText
  imports Codec
begin

text \<open>
  The column \<open>cluster_balances\<close> of a commit (\<^verbatim>\<open>storage/storage.go\<close>): the JSON text that
  \<open>InsertPendingCommit\<close> writes, with the cluster identifiers in base 64, and the queries for commits
  read. Only this program writes the column, so decoding is spelled out on the texts
  that \<open>json.Marshal\<close> produces; what \<open>json.Unmarshal\<close> does with any other text is the parameter
  \<open>otherText\<close>.
\<close>

section \<open>Base 64\<close>

text \<open>The standard alphabet, with padding.\<close>

definition b64Char :: "nat \<Rightarrow> char" where
  "b64Char n =
     (if n < 26 then char_of (65 + n) else if n < 52 then char_of (71 + n)
      else if n < 62 then char_of (n - 4) else if n = 62 then CHR ''+'' else CHR ''/'')"

definition b64Value :: "char \<Rightarrow> nat option" where
  "b64Value c =
     (let n = of_char c in
      if 65 \<le> n \<and> n \<le> 90 then Some (n - 65) else if 97 \<le> n \<and> n \<le> 122 then Some (n - 71)
      else if 48 \<le> n \<and> n \<le> 57 then Some (n + 4)
      else if c = CHR ''+'' then Some 62 else if c = CHR ''/'' then Some 63 else None)"

fun b64Encode :: "bytes \<Rightarrow> string" where
  "b64Encode [] = []"
| "b64Encode [a] =
     (let n = unat a * 16 in [b64Char (n div 64), b64Char (n mod 64), CHR ''='', CHR ''=''])"
| "b64Encode [a, b] =
     (let n = (unat a * 256 + unat b) * 4 in
      [b64Char (n div 4096), b64Char (n div 64 mod 64), b64Char (n mod 64), CHR ''=''])"
| "b64Encode (a # b # c # bs) =
     (let n = (unat a * 256 + unat b) * 256 + unat c in
      [b64Char (n div 262144), b64Char (n div 4096 mod 64), b64Char (n div 64 mod 64), b64Char (n mod 64)] @
      b64Encode bs)"

fun b64Decode :: "string \<Rightarrow> bytes option" where
  "b64Decode [] = Some []"
| "b64Decode [p, q, r, s] =
     (case (b64Value p, b64Value q, b64Value r, b64Value s) of
        (Some x, Some y, Some z, Some v) \<Rightarrow>
          (let n = ((x * 64 + y) * 64 + z) * 64 + v in
           Some [of_nat (n div 65536), of_nat (n div 256 mod 256), of_nat (n mod 256)])
      | (Some x, Some y, Some z, None) \<Rightarrow>
          (if s = CHR ''='' then let n = ((x * 64 + y) * 64 + z) div 4 in Some [of_nat (n div 256), of_nat (n mod 256)]
           else None)
      | (Some x, Some y, None, None) \<Rightarrow>
          (if r = CHR ''='' \<and> s = CHR ''='' then Some [of_nat ((x * 64 + y) div 16)] else None)
      | _ \<Rightarrow> None)"
| "b64Decode (p # q # r # s # t # ts) =
     (case (b64Value p, b64Value q, b64Value r, b64Value s, b64Decode (t # ts)) of
        (Some x, Some y, Some z, Some v, Some bs) \<Rightarrow>
          (let n = ((x * 64 + y) * 64 + z) * 64 + v in
           Some (of_nat (n div 65536) # of_nat (n div 256 mod 256) # of_nat (n mod 256) # bs))
      | _ \<Rightarrow> None)"
| "b64Decode _ = None"

section \<open>The text of the balances\<close>

text \<open>\<open>json.Marshal\<close> of a slice of \<open>ClusterBalance\<close>. The slice that has no entry is nil: both \<open>fetchBalances\<close>
  and \<open>aggregateByCluster\<close> return nil then.\<close>

definition balanceText :: "ClusterBalance \<Rightarrow> string" where
  "balanceText b = ''{'' @ quote ''ClusterID'' @ '':'' @ quote (b64Encode (CB_ClusterID b)) @ '','' @
     quote ''EffectiveBalance'' @ '':'' @ dec (unat (CB_EffectiveBalance b)) @ ''}''"

definition balancesJSON :: "ClusterBalance list \<Rightarrow> string" where
  "balancesJSON bals =
     (if bals = [] then ''null'' else ''['' @ joinWith '','' (map balanceText bals) @ '']'')"

text \<open>Reading it back, from the front.\<close>

definition stripPrefix :: "string \<Rightarrow> string \<Rightarrow> string option" where
  "stripPrefix p s = (if hasPrefix s p then Some (drop (length p) s) else None)"

definition parseNumber :: "string \<Rightarrow> (u32 \<times> string) option" where
  "parseNumber s =
     (let ds = takeWhile isDigit s in
      if ds \<noteq> [] \<and> (length ds = 1 \<or> hd ds \<noteq> CHR ''0'') \<and> decValue ds < 2 ^ 32
      then Some (of_nat (decValue ds), dropWhile isDigit s) else None)"

definition parseBalance :: "string \<Rightarrow> (ClusterBalance \<times> string) option" where
  "parseBalance s =
     Option.bind (stripPrefix (''{'' @ quote ''ClusterID'' @ '':'' @ [CHR 0x22]) s) (\<lambda>s1.
     Option.bind (b64Decode (takeWhile (\<lambda>c. c \<noteq> CHR 0x22) s1)) (\<lambda>cid.
     Option.bind (stripPrefix ([CHR 0x22] @ '','' @ quote ''EffectiveBalance'' @ '':'')
       (dropWhile (\<lambda>c. c \<noteq> CHR 0x22) s1)) (\<lambda>s2.
     Option.bind (parseNumber s2) (\<lambda>(n, s3).
     Option.bind (stripPrefix ''}'' s3) (\<lambda>s4.
     Some (\<lparr>CB_ClusterID = cid, CB_EffectiveBalance = n\<rparr>, s4))))))"

text \<open>The elements up to the closing bracket; each takes at least one character, so the length of the
  text is fuel enough.\<close>

fun parseBalances :: "nat \<Rightarrow> string \<Rightarrow> ClusterBalance list option" where
  "parseBalances 0 s = None"
| "parseBalances (Suc k) s =
     Option.bind (parseBalance s) (\<lambda>(b, s1).
       if s1 = '']'' then Some [b]
       else Option.bind (stripPrefix '','' s1) (\<lambda>s2. map_option (Cons b) (parseBalances k s2)))"

definition unmarshalBalances :: "(string \<Rightarrow> goerror + ClusterBalance list) \<Rightarrow> string \<Rightarrow> goerror + ClusterBalance list" where
  "unmarshalBalances otherText data =
     (if data = ''null'' then Inr []
      else case Option.bind (stripPrefix ''['' data) (\<lambda>s. parseBalances (length s) s) of
        Some bals \<Rightarrow> Inr bals
      | None \<Rightarrow> otherText data)"

section \<open>Commit rows as texts\<close>

record commitColumns =
  col_target_epoch :: u64
  col_merkle_root :: bytes
  col_reference_block :: u64
  col_cluster_balances :: "string option"
  col_status :: CommitStatus
  col_tx_hash :: "bytes option"

definition commitColumnsOf :: "commitRec \<Rightarrow> commitColumns" where
  "commitColumnsOf c = \<lparr>col_target_epoch = target_epoch c, col_merkle_root = merkle_root c,
     col_reference_block = reference_block c, col_cluster_balances = map_option balancesJSON (cluster_balances c),
     col_status = status c, col_tx_hash = tx_hash c\<rparr>"

text \<open>The scan of \<open>GetCommitByBlock\<close>: a NULL column is left out.\<close>

definition scanCommitColumns ::
    "(string \<Rightarrow> goerror + ClusterBalance list) \<Rightarrow> commitColumns \<Rightarrow> goerror + OracleCommit" where
  "scanCommitColumns otherText r =
     (case (case col_cluster_balances r of
              None \<Rightarrow> Inr []
            | Some text \<Rightarrow> unmarshalBalances otherText text) of
        Inl e \<Rightarrow> Inl (Wrap ''unmarshal cluster balances'' e)
      | Inr bals \<Rightarrow>
          Inr \<lparr>Commit_TargetEpoch = col_target_epoch r, Commit_MerkleRoot = col_merkle_root r,
            Commit_ReferenceBlock = col_reference_block r, Commit_ClusterBalances = bals,
            Commit_Status = col_status r, Commit_TxHash = col_tx_hash r\<rparr>)"

section \<open>Base 64 is read back\<close>

lemma b64Value_b64Char: "n < 64 \<Longrightarrow> b64Value (b64Char n) = Some n"
proof -
  assume "n < 64"
  then consider "n < 26" | "26 \<le> n" "n < 52" | "52 \<le> n" "n < 62" | "n = 62" | "n = 63" by linarith
  then show ?thesis by cases (auto simp: b64Value_def b64Char_def Let_def)
qed

lemma b64Value_padding: "b64Value (CHR ''='') = None" "b64Value (CHR 0x22) = None"
  by code_simp+

lemma b64Char_plain: "n < 64 \<Longrightarrow> b64Char n \<noteq> CHR ''='' \<and> b64Char n \<noteq> CHR 0x22"
  using b64Value_b64Char [of n] b64Value_padding by (metis option.distinct(1))

lemma unat_byte: "unat (b :: u8) < 256"
  using unsigned_less [of b] by simp

text \<open>The numbers of a group: the sextets of a number below \<open>2^24\<close> are digits, and give it back.\<close>

lemma sextets:
  fixes n :: nat
  assumes "n < 16777216"
  shows "n div 262144 < 64" "((n div 262144 * 64 + n div 4096 mod 64) * 64 + n div 64 mod 64) * 64 + n mod 64 = n"
proof -
  show "n div 262144 < 64" using assms by (simp add: less_mult_imp_div_less)
  have d: "n div 4096 = n div 64 div 64" "n div 262144 = n div 64 div 64 div 64" by (simp_all add: div_mult2_eq [symmetric])
  show "((n div 262144 * 64 + n div 4096 mod 64) * 64 + n div 64 mod 64) * 64 + n mod 64 = n"
    unfolding d by (simp only: div_mult_mod_eq)
qed

lemma low_byte: "(k * 256 + unat (c :: u8)) div 256 = k" "(k * 256 + unat c) mod 256 = unat c"
  using unat_byte [of c] by simp_all

lemma octets:
  "((unat a * 256 + unat b) * 256 + unat c) div 65536 = unat (a :: u8)"
  "((unat a * 256 + unat b) * 256 + unat c) div 256 mod 256 = unat (b :: u8)"
  "((unat a * 256 + unat b) * 256 + unat c) mod 256 = unat (c :: u8)"
proof -
  have "x div 65536 = x div 256 div 256" for x :: nat by (simp add: div_mult2_eq [symmetric])
  then show "((unat a * 256 + unat b) * 256 + unat c) div 65536 = unat a" by (simp only: low_byte)
  show "((unat a * 256 + unat b) * 256 + unat c) div 256 mod 256 = unat b"
    "((unat a * 256 + unat b) * 256 + unat c) mod 256 = unat c" by (simp_all only: low_byte)
qed

lemma group_lt: "(unat a * 256 + unat b) * 256 + unat c < 16777216" for a b c :: u8
proof -
  have "unat a \<le> 255" "unat b \<le> 255" "unat c \<le> 255" using unat_byte [of a] unat_byte [of b] unat_byte [of c] by simp_all
  then show ?thesis by simp
qed

lemma b64Encode_shape: "bs \<noteq> [] \<Longrightarrow> \<exists>p q r s ts. b64Encode bs = p # q # r # s # ts"
  by (cases bs rule: b64Encode.cases) (simp_all add: Let_def)

lemma b64_full_group:
  fixes a b c :: u8
  assumes "n = (unat a * 256 + unat b) * 256 + unat c"
  shows "b64Value (b64Char (n div 262144)) = Some (n div 262144)" "b64Value (b64Char (n div 4096 mod 64)) = Some (n div 4096 mod 64)"
    "b64Value (b64Char (n div 64 mod 64)) = Some (n div 64 mod 64)" "b64Value (b64Char (n mod 64)) = Some (n mod 64)"
  using sextets(1) [of n] group_lt [of a b c] assms by (simp_all add: b64Value_b64Char)

lemma b64_roundtrip: "b64Decode (b64Encode bs) = Some bs"
proof (induction bs rule: b64Encode.induct)
  case (2 a)
  let ?n = "unat a * 16"
  have n: "?n div 64 < 64" using unat_byte [of a] by simp
  have "(?n div 64 * 64 + ?n mod 64) div 16 = unat a" by (simp only: div_mult_mod_eq)
  then show ?case using n by (simp add: Let_def b64Value_b64Char b64Value_padding)
next
  case (3 a b)
  let ?m = "unat a * 256 + unat b" and ?n = "(unat a * 256 + unat b) * 4"
  have n: "?n div 4096 < 64" using unat_byte [of a] unat_byte [of b] by (simp add: less_mult_imp_div_less)
  have "?n div 4096 = ?n div 64 div 64" by (simp add: div_mult2_eq [symmetric])
  then have "(?n div 4096 * 64 + ?n div 64 mod 64) * 64 + ?n mod 64 = ?n" by (simp only: div_mult_mod_eq)
  then have "((?n div 4096 * 64 + ?n div 64 mod 64) * 64 + ?n mod 64) div 4 = ?m" by simp
  then show ?case using n low_byte [of "unat a" b] by (simp add: Let_def b64Value_b64Char b64Value_padding)
next
  case (4 a b c bs)
  define n where n: "n = (unat a * 256 + unat b) * 256 + unat c"
  note v = b64_full_group [OF n] sextets(2) [of n] and o = octets [of a b c, folded n]
  have lt: "n < 16777216" using group_lt [of a b c] n by simp
  have e: "b64Encode (a # b # c # bs) = b64Char (n div 262144) # b64Char (n div 4096 mod 64) #
      b64Char (n div 64 mod 64) # b64Char (n mod 64) # b64Encode bs" by (simp add: Let_def n)
  show ?case
  proof (cases bs)
    case Nil
    with e v lt o show ?thesis by (simp add: Let_def)
  next
    case (Cons x xs)
    then obtain t ts where t: "b64Encode bs = t # ts" using b64Encode_shape [of bs] by auto
    with "4" have "b64Decode (t # ts) = Some bs" by (simp add: Let_def)
    with e v lt o t show ?thesis by (simp add: Let_def)
  qed
qed simp

section \<open>The balances are read back\<close>

lemma stripPrefix_append [simp]: "stripPrefix p (p @ s) = Some s"
  by (simp add: stripPrefix_def hasPrefix_def)

lemma quote_free: "n < 64 \<Longrightarrow> (CHR 0x22 = b64Char n) = False"
  using b64Char_plain by metis

lemma b64Encode_no_quote: "CHR 0x22 \<notin> set (b64Encode bs)"
proof (induction bs rule: b64Encode.induct)
  case (2 a)
  have "unat a * 16 div 64 < 64" using unat_byte [of a] by simp
  then show ?case by (simp add: Let_def quote_free)
next
  case (3 a b)
  have "(unat a * 256 + unat b) * 4 div 4096 < 64" using unat_byte [of a] unat_byte [of b] by (simp add: less_mult_imp_div_less)
  then show ?case by (simp add: Let_def quote_free)
next
  case (4 a b c bs)
  have "((unat a * 256 + unat b) * 256 + unat c) div 262144 < 64" by (rule sextets(1) [OF group_lt])
  with 4 show ?case by (simp add: Let_def quote_free)
qed simp

lemma takeWhile_until: "c \<notin> set xs \<Longrightarrow> takeWhile (\<lambda>x. x \<noteq> c) (xs @ c # ys) = xs \<and> dropWhile (\<lambda>x. x \<noteq> c) (xs @ c # ys) = c # ys"
  by (induction xs) auto

lemma parseNumber_dec:
  assumes "n < 2 ^ 32" "\<not> isDigit c"
  shows "parseNumber (dec n @ c # rest) = Some (of_nat n, c # rest)"
proof -
  have d: "\<forall>x \<in> set (dec n). isDigit x" using dec_digits [of n] by (simp add: list_all_iff)
  then have "takeWhile isDigit (dec n @ c # rest) = dec n" "dropWhile isDigit (dec n @ c # rest) = c # rest"
    using assms(2) by (simp_all add: takeWhile_append dropWhile_append)
  then show ?thesis using assms(1) dec_digits [of n] dec_leading [of n] by (simp add: parseNumber_def)
qed

lemma parseBalance_text: "parseBalance (balanceText b @ rest) = Some (b, rest)"
proof -
  let ?id = "b64Encode (CB_ClusterID b)"
  let ?n = "dec (unat (CB_EffectiveBalance b)) @ CHR ''}'' # rest"
  have t: "balanceText b @ rest = (''{'' @ quote ''ClusterID'' @ '':'' @ [CHR 0x22]) @
      (?id @ CHR 0x22 # ('','' @ quote ''EffectiveBalance'' @ '':'' @ ?n))"
    by (simp add: balanceText_def quote_def)
  have "CHR 0x22 # ('','' @ quote ''EffectiveBalance'' @ '':'' @ ?n) =
      ([CHR 0x22] @ '','' @ quote ''EffectiveBalance'' @ '':'') @ ?n" by simp
  then have p: "stripPrefix ([CHR 0x22] @ '','' @ quote ''EffectiveBalance'' @ '':'')
      (CHR 0x22 # ('','' @ quote ''EffectiveBalance'' @ '':'' @ ?n)) = Some ?n" by (simp only: stripPrefix_append)
  have n: "parseNumber ?n = Some (CB_EffectiveBalance b, CHR ''}'' # rest)"
    using parseNumber_dec [of "unat (CB_EffectiveBalance b)" "CHR ''}''" rest] unsigned_less [of "CB_EffectiveBalance b"]
    by (simp add: isDigit_def)
  have e: "stripPrefix ''}'' (CHR ''}'' # rest) = Some rest" by (simp add: stripPrefix_def hasPrefix_def)
  show ?thesis
    unfolding parseBalance_def t stripPrefix_append Option.bind.simps takeWhile_until [OF b64Encode_no_quote, THEN conjunct1]
      takeWhile_until [OF b64Encode_no_quote, THEN conjunct2] b64_roundtrip p n prod.case e by simp
qed

lemma parseBalances_text:
  "bals \<noteq> [] \<Longrightarrow> length bals \<le> k \<Longrightarrow> parseBalances k (joinWith '','' (map balanceText bals) @ '']'') = Some bals"
proof (induction bals arbitrary: k)
  case (Cons b bals)
  then obtain j where k: "k = Suc j" by (cases k) auto
  show ?case
  proof (cases bals)
    case Nil
    with k show ?thesis by (simp add: parseBalance_text)
  next
    case c: (Cons b' bs)
    have "joinWith '','' (map balanceText (b # bals)) @ '']'' =
        balanceText b @ ('','' @ (joinWith '','' (map balanceText bals) @ '']''))" by (simp add: c)
    then have "parseBalances k (joinWith '','' (map balanceText (b # bals)) @ '']'') =
        map_option (Cons b) (parseBalances j (joinWith '','' (map balanceText bals) @ '']''))"
      unfolding k by (simp only: parseBalances.simps parseBalance_text) (simp add: stripPrefix_def hasPrefix_def)
    with Cons.IH [of j] Cons.prems(2) c k show ?thesis by simp
  qed
qed simp

lemma balanceText_length: "1 \<le> length (balanceText b)"
  by (simp add: balanceText_def)

lemma joinWith_length: "\<forall>t \<in> set ts. 1 \<le> length t \<Longrightarrow> length ts \<le> length (joinWith sep ts)"
  by (induction sep ts rule: joinWith.induct) fastforce+

lemma unmarshal_marshal: "unmarshalBalances otherText (balancesJSON bals) = Inr bals"
proof (cases "bals = []")
  case False
  let ?s = "joinWith '','' (map balanceText bals) @ '']''"
  have "length (map balanceText bals) \<le> length (joinWith '','' (map balanceText bals))"
    by (rule joinWith_length) (auto intro: balanceText_length [simplified])
  then have "parseBalances (length ?s) ?s = Some bals" by (intro parseBalances_text False) simp
  moreover have "balancesJSON bals = ''['' @ ?s" using False by (simp add: balancesJSON_def)
  moreover have "stripPrefix ''['' (''['' @ ?s) = Some ?s" by (rule stripPrefix_append)
  ultimately show ?thesis by (simp add: unmarshalBalances_def)
qed (simp add: balancesJSON_def unmarshalBalances_def)

section \<open>Properties\<close>

text \<open>C37: the balances of a commit survive their text: whatever clusters and balances a commit row has,
  the JSON text with base-64 identifiers that \<open>InsertPendingCommit\<close> writes is decoded by the queries to
  the same balances in the same order, without an error, so the tree that the updater and the API rebuild is over
  the balances that were committed.\<close>

theorem commit_columns_roundtrip:
  "scanCommitColumns otherText (commitColumnsOf c) = Inr (scanCommit c)"
  by (auto simp: scanCommitColumns_def commitColumnsOf_def scanCommit_def unmarshal_marshal split: option.splits)

end
