(* ===== verification/Fetch.thy ===== *)
theory Fetch
  imports Beacon
begin

text \<open>
  The concurrency of \<open>GetValidatorBalances\<close> (\<^verbatim>\<open>eth/beacon/client.go\<close>): an errgroup with at most ten
  goroutines at a time, one per batch of keys, each with its own retries, that write one map under
  a mutex; as a step relation over their interleavings. The outside is whatever it is at the time
  of a call. \<open>Beacon\<close> runs the batches one after the other; both give the same balances.
\<close>

section \<open>The goroutines\<close>

definition balanceFetchConcurrency :: nat where
  "balanceFetchConcurrency = 10"

text \<open>Batches not yet started, running ones with the retries they have left, the shared map, and the first
  error of the group.\<close>

record fetchState =
  ft_pending :: "bytes list list"
  ft_running :: "(bytes list \<times> nat) list"
  ft_merged :: "bytes \<rightharpoonup> u64"
  ft_err :: "goerror option"

definition fetchInit :: "bytes list \<Rightarrow> fetchState" where
  "fetchInit pubkeys = \<lparr>ft_pending = keyBatches (map (copyTo 48) pubkeys), ft_running = [],
     ft_merged = Map.empty, ft_err = None\<rparr>"

definition firstErr :: "goerror option \<Rightarrow> goerror \<Rightarrow> goerror option" where
  "firstErr old e = (case old of None \<Rightarrow> Some e | Some e0 \<Rightarrow> Some e0)"

text \<open>
  \<open>g.Go\<close> starts the next batch when fewer than the limit run, also after an error. A call answers, or
  fails and is repeated as \<open>WithRetry\<close> does: not if its error is not retriable or no retry is left. A
  goroutine that waits for its next try gives up when the context is done: that of the caller, or that of the
  group, which the first error cancels.
\<close>

inductive fetchStep :: "'w beaconClient \<Rightarrow> fetchState \<Rightarrow> fetchState \<Rightarrow> bool" for c where
  start:
    "ft_pending st = b # bs \<Longrightarrow> length (ft_running st) < balanceFetchConcurrency \<Longrightarrow>
     fetchStep c st (st\<lparr>ft_pending := bs, ft_running := ft_running st @ [(b, MaxRetries (beaconRetry c))]\<rparr>)"
| answered:
    "ft_running st = xs @ (b, n) # ys \<Longrightarrow> apiValidators c b w = (Inr vs, w') \<Longrightarrow>
     fetchStep c st (st\<lparr>ft_running := xs @ ys, ft_merged := mergeBalances (ft_merged st) vs\<rparr>)"
| retried:
    "ft_running st = xs @ (b, Suc n) # ys \<Longrightarrow> apiValidators c b w = (Inl e, w') \<Longrightarrow>
     IsRetriable (Wrap ''get validators'' e) \<Longrightarrow>
     fetchStep c st (st\<lparr>ft_running := xs @ (b, n) # ys\<rparr>)"
| exhausted:
    "ft_running st = xs @ (b, 0) # ys \<Longrightarrow> apiValidators c b w = (Inl e, w') \<Longrightarrow>
     IsRetriable (Wrap ''get validators'' e) \<Longrightarrow>
     fetchStep c st (st\<lparr>ft_running := xs @ ys,
       ft_err := firstErr (ft_err st) (Wrap (''after '' @ dec (MaxRetries (beaconRetry c) + 1) @ '' attempts'')
         (Wrap ''get validators'' e))\<rparr>)"
| refused:
    "ft_running st = xs @ (b, n) # ys \<Longrightarrow> apiValidators c b w = (Inl e, w') \<Longrightarrow>
     \<not> IsRetriable (Wrap ''get validators'' e) \<Longrightarrow>
     fetchStep c st (st\<lparr>ft_running := xs @ ys, ft_err := firstErr (ft_err st) (Wrap ''get validators'' e)\<rparr>)"
| cancelled:
    "ft_running st = xs @ (b, n) # ys \<Longrightarrow> n < MaxRetries (beaconRetry c) \<Longrightarrow>
     ft_err st \<noteq> None \<or> ctxDone (beaconTimer c) w \<Longrightarrow>
     fetchStep c st (st\<lparr>ft_running := xs @ ys, ft_err := firstErr (ft_err st) CtxErr\<rparr>)"

inductive_cases fetchStepE: "fetchStep c st st'"

definition finished :: "fetchState \<Rightarrow> bool" where
  "finished st \<longleftrightarrow> ft_pending st = [] \<and> ft_running st = []"

text \<open>\<open>g.Wait()\<close> and what is returned.\<close>

definition fetchResult :: "fetchState \<Rightarrow> goerror + (bytes \<rightharpoonup> u64)" where
  "fetchResult st = (case ft_err st of Some e \<Rightarrow> Inl e | None \<Rightarrow> Inr (ft_merged st))"

section \<open>The invariant\<close>

text \<open>The batches are those that were merged (\<open>done\<close>), those given up (\<open>lost\<close>, only with an error), and the
  rest.\<close>

definition fetchInv :: "(bytes \<rightharpoonup> u64) \<Rightarrow> bytes list list \<Rightarrow> fetchState \<Rightarrow> bool" where
  "fetchInv state batches st \<longleftrightarrow> length (ft_running st) \<le> balanceFetchConcurrency \<and>
     (\<exists>done lost. mset batches = mset done + mset lost + mset (map fst (ft_running st)) + mset (ft_pending st) \<and>
        (lost \<noteq> [] \<longrightarrow> ft_err st \<noteq> None) \<and>
        (\<forall>k. ft_merged st k = (if k \<in> set (concat done) then state k else None)))"

lemma firstErr_Some [simp]: "firstErr old e \<noteq> None"
  by (simp add: firstErr_def split: option.splits)

lemma fetchInv_lost:
  assumes "fetchInv state batches st" "ft_running st = xs @ (b, n) # ys" "err \<noteq> None"
  shows "fetchInv state batches (st\<lparr>ft_running := xs @ ys, ft_err := err\<rparr>)"
proof -
  obtain ok lost where i: "mset batches = mset ok + mset lost + mset (map fst (ft_running st)) + mset (ft_pending st)"
    "\<forall>k. ft_merged st k = (if k \<in> set (concat ok) then state k else None)" "length (ft_running st) \<le> balanceFetchConcurrency"
    using assms(1) unfolding fetchInv_def by blast
  then have "mset batches = mset ok + mset (b # lost) + mset (map fst (xs @ ys)) + mset (ft_pending st)"
    using assms(2) by simp
  with i assms(2,3) show ?thesis unfolding fetchInv_def by (intro conjI exI [of _ ok] exI [of _ "b # lost"]) simp_all
qed

lemma fetchStep_inv:
  assumes "answersFrom c state" "fetchStep c st st'" "fetchInv state batches st"
  shows "fetchInv state batches st'"
  using assms(2)
proof cases
  case (start b bs)
  with assms(3) show ?thesis by (fastforce simp: fetchInv_def)
next
  case (answered xs b n ys w vs w')
  obtain ok lost where i: "mset batches = mset ok + mset lost + mset (map fst (ft_running st)) + mset (ft_pending st)"
    "lost \<noteq> [] \<longrightarrow> ft_err st \<noteq> None"
    "\<forall>k. ft_merged st k = (if k \<in> set (concat ok) then state k else None)" "length (ft_running st) \<le> balanceFetchConcurrency"
    using assms(3) unfolding fetchInv_def by blast
  have "mergeBalances (ft_merged st) vs k = (if k \<in> set (concat (b # ok)) then state k else None)" for k
    using mergeBalances_answer [OF answersFrom_D [OF assms(1) answered(3)], of "ft_merged st" k] i(3) by auto
  moreover have "mset batches = mset (b # ok) + mset lost + mset (map fst (xs @ ys)) + mset (ft_pending st)"
    using i(1) answered(2) by simp
  ultimately show ?thesis using i answered(1,2)
    unfolding fetchInv_def by (intro conjI exI [of _ "b # ok"] exI [of _ lost]) simp_all
next
  case (retried xs b n ys w e w')
  with assms(3) show ?thesis by (auto simp: fetchInv_def)
next
  case (exhausted xs b ys w e w')
  show ?thesis unfolding exhausted(1) by (rule fetchInv_lost [OF assms(3) exhausted(2) firstErr_Some])
next
  case (refused xs b n ys w e w')
  show ?thesis unfolding refused(1) by (rule fetchInv_lost [OF assms(3) refused(2) firstErr_Some])
next
  case (cancelled xs b n ys w)
  show ?thesis unfolding cancelled(1) by (rule fetchInv_lost [OF assms(3) cancelled(2) firstErr_Some])
qed

lemma fetchInit_inv: "fetchInv state (keyBatches (map (copyTo 48) pks)) (fetchInit pks)"
  by (auto simp: fetchInv_def fetchInit_def intro!: exI [of _ "[]"])

lemma fetch_inv:
  assumes "answersFrom c state" "(fetchStep c)\<^sup>*\<^sup>* (fetchInit pks) st"
  shows "fetchInv state (keyBatches (map (copyTo 48) pks)) st"
  using assms(2) by induction (auto intro: fetchInit_inv fetchStep_inv [OF assms(1)])

section \<open>Every run ends\<close>

definition workLeft :: "'w beaconClient \<Rightarrow> fetchState \<Rightarrow> nat" where
  "workLeft c st = length (ft_pending st) * (MaxRetries (beaconRetry c) + 2) + sum_list (map (\<lambda>r. Suc (snd r)) (ft_running st))"

lemma fetchStep_work: "fetchStep c st st' \<Longrightarrow> workLeft c st' < workLeft c st"
  by (induction rule: fetchStep.induct) (simp_all add: workLeft_def)

lemma fetch_steps_bounded: "(fetchStep c ^^ n) st st' \<Longrightarrow> workLeft c st' + n \<le> workLeft c st"
proof (induction n arbitrary: st')
  case (Suc n)
  then obtain s where "(fetchStep c ^^ n) st s" "fetchStep c s st'" by auto
  with Suc.IH fetchStep_work show ?case by fastforce
qed simp

lemma fetch_never_stuck:
  assumes "\<not> finished st"
  shows "\<exists>st'. fetchStep c st st'"
proof (cases "ft_running st")
  case Nil
  then obtain b bs where "ft_pending st = b # bs" using assms by (cases "ft_pending st") (auto simp: finished_def)
  from start [OF this] Nil show ?thesis by (auto simp: balanceFetchConcurrency_def)
next
  case (Cons r rs)
  obtain b n where r: "r = (b, n)" by fastforce
  have run: "ft_running st = [] @ (b, n) # rs" using Cons r by simp
  obtain q w' where q: "apiValidators c b undefined = (q, w')" by fastforce
  show ?thesis
  proof (cases q)
    case (Inl e)
    show ?thesis
    proof (cases "IsRetriable (Wrap ''get validators'' e)")
      case True
      with q Inl run show ?thesis by (cases n) (blast intro: exhausted retried)+
    qed (use q Inl run in \<open>blast intro: refused\<close>)
  qed (use q run in \<open>blast intro: answered\<close>)
qed

lemma fetch_finished:
  assumes "fetchInv state (keyBatches (map (copyTo 48) pks)) st" "finished st" "fetchResult st = Inr r"
  shows "r = (\<lambda>k. if k \<in> copyTo 48 ` set pks then state k else None)"
proof -
  obtain ok lost where i: "mset (keyBatches (map (copyTo 48) pks)) = mset ok + mset lost"
    "lost \<noteq> [] \<longrightarrow> ft_err st \<noteq> None" "\<forall>k. ft_merged st k = (if k \<in> set (concat ok) then state k else None)"
    using assms(1,2) unfolding fetchInv_def finished_def by auto
  have "ft_err st = None" "ft_merged st = r" using assms(3) by (auto simp: fetchResult_def split: option.splits)
  with i have "set ok = set (keyBatches (map (copyTo 48) pks))" by (auto dest: mset_eq_setD)
  then have "set (concat ok) = copyTo 48 ` set pks"
    using keyBatches_concat [of "map (copyTo 48) pks"] by (metis set_concat set_map)
  with i(3) have "ft_merged st k = (if k \<in> copyTo 48 ` set pks then state k else None)" for k by metis
  with \<open>ft_merged st = r\<close> show ?thesis by blast
qed

section \<open>Property\<close>

text \<open>C30: the concurrent fetch of the balances, whatever the interleaving of its goroutines, of their retries and
  of the cancellation: at most ten requests run at a time; until it is finished some goroutine can
  step, and every run has at most \<open>MaxRetries + 2\<close> steps a batch, so it ends; and if it
  ends without an error, the map it returns is exactly the balances of the requested keys, whichever
  batch was merged first: no batch is lost.\<close>

theorem concurrent_fetch_exact:
  assumes "answersFrom c state" "(fetchStep c ^^ n) (fetchInit pks) st"
  shows "length (ft_running st) \<le> 10 \<and>
    (finished st \<or> (\<exists>st'. fetchStep c st st')) \<and>
    n \<le> length (keyBatches (map (copyTo 48) pks)) * (MaxRetries (beaconRetry c) + 2) \<and>
    (finished st \<longrightarrow> fetchResult st = Inr r \<longrightarrow> r = (\<lambda>k. if k \<in> copyTo 48 ` set pks then state k else None))"
proof -
  have inv: "fetchInv state (keyBatches (map (copyTo 48) pks)) st"
    using fetch_inv [OF assms(1) relpowp_imp_rtranclp [OF assms(2)]] .
  then have "length (ft_running st) \<le> 10" by (simp add: fetchInv_def balanceFetchConcurrency_def)
  moreover have "n \<le> length (keyBatches (map (copyTo 48) pks)) * (MaxRetries (beaconRetry c) + 2)"
    using fetch_steps_bounded [OF assms(2)] by (simp add: workLeft_def fetchInit_def)
  ultimately show ?thesis using fetch_never_stuck fetch_finished [OF inv] by blast
qed

lemma sampleFetch_batches: "keyBatches (map (copyTo 48) [replicate 48 1]) = [[replicate 48 1]]"
  by (simp add: keyBatches.simps balanceFetchBatchSize_def copyTo_def)

lemma sampleFetch_run:
  "\<exists>st. (fetchStep sampleBeacon ^^ 2) (fetchInit [replicate 48 1]) st \<and> finished st \<and>
     fetchResult st = Inr [replicate 48 1 \<mapsto> 33000000000]"
proof -
  let ?s = "fetchInit [replicate 48 1]"
  have "ft_pending ?s = [replicate 48 1] # []" "length (ft_running ?s) < balanceFetchConcurrency"
    unfolding fetchInit_def sampleFetch_batches by (simp_all add: balanceFetchConcurrency_def)
  note one = start [OF this, of sampleBeacon]
  have "ft_running (?s\<lparr>ft_pending := [], ft_running := ft_running ?s @ [([replicate 48 1], MaxRetries (beaconRetry sampleBeacon))]\<rparr>)
      = [] @ ([replicate 48 1], MaxRetries (beaconRetry sampleBeacon)) # []" by (simp add: fetchInit_def)
  moreover have "apiValidators sampleBeacon [replicate 48 1] 0 = (Inr [(replicate 48 1, 33000000000)], 0)"
    by (simp add: sampleBeacon_def retS_def)
  ultimately have two: "fetchStep sampleBeacon
      (?s\<lparr>ft_pending := [], ft_running := ft_running ?s @ [([replicate 48 1], MaxRetries (beaconRetry sampleBeacon))]\<rparr>)
      (?s\<lparr>ft_pending := [], ft_running := [], ft_merged := [replicate 48 1 \<mapsto> 33000000000]\<rparr>)" (is "fetchStep _ _ ?f")
    using answered by (fastforce simp: mergeBalances_def fetchInit_def)
  have "(fetchStep sampleBeacon ^^ 2) ?s ?f" using one two by (auto simp: numeral_2_eq_2)
  moreover have "finished ?f \<and> fetchResult ?f = Inr [replicate 48 1 \<mapsto> 33000000000]"
    by (simp add: finished_def fetchResult_def fetchInit_def)
  ultimately show ?thesis by blast
qed

theorem concurrent_fetch_exact_witness:
  "\<exists>st r. (fetchStep sampleBeacon ^^ 2) (fetchInit [replicate 48 1]) st \<and> finished st \<and> fetchResult st = Inr r \<and>
     r = (\<lambda>k. if k \<in> copyTo 48 ` set [replicate 48 1] then Some 33000000000 else None)"
proof -
  obtain st r where "(fetchStep sampleBeacon ^^ 2) (fetchInit [replicate 48 1]) st" "finished st" "fetchResult st = Inr r"
    using sampleFetch_run by blast
  with concurrent_fetch_exact [OF sampleBeacon_answers this(1)] show ?thesis by blast
qed

end
