(* ===== verification/Metrics.thy ===== *)
theory Metrics
  imports Updater
begin

text \<open>
  The measurements of \<^verbatim>\<open>observability.go\<close> in \<^verbatim>\<open>observability/\<close>, \<^verbatim>\<open>oracle/\<close>, \<^verbatim>\<open>txmanager/\<close> and
  \<^verbatim>\<open>updater/\<close>: the operations that record them, written out once more with the list of what
  has been recorded so far, and what the counters say about the run. Aggregating and exporting the measurements
  is done by the OpenTelemetry library.
\<close>

section \<open>Instruments\<close>

text \<open>\<open>Add\<close> is one addition to a counter under an outcome, \<open>Record\<close> one value of a gauge.\<close>

datatype measurement = Add string string int | Record string int

type_synonym measured = "measurement list"

definition MetricNamespace :: string where
  "MetricNamespace = ''ssv.oracle''"

text \<open>An instrument whose creation failed is logged and used all the same.\<close>

definition NewMetric :: "'m \<Rightarrow> goerror option \<Rightarrow> string list \<Rightarrow> 'm \<times> string list" where
  "NewMetric metric err log =
     (metric, if err = None then log else log @ [''Failed to create metric''])"

definition Setup :: "('w, 'e) op \<Rightarrow> ('e \<Rightarrow> 'p) \<Rightarrow> ('w, 'p) op" where
  "Setup newExporter newProvider =
     bindS (wrapS ''create prometheus exporter'' newExporter) (\<lambda>exporter. retS (newProvider exporter))"

section \<open>Transactions\<close>

definition txCounter :: string where
  "txCounter = MetricNamespace @ ''.tx''"

definition txOutcomeSuccess :: string where "txOutcomeSuccess = ''success''"

definition txOutcomeReverted :: string where "txOutcomeReverted = ''reverted''"

definition txOutcomeCancelled :: string where "txOutcomeCancelled = ''cancelled''"

definition txOutcomeError :: string where "txOutcomeError = ''error''"

definition recordTx :: "string \<Rightarrow> measured \<Rightarrow> measured" where
  "recordTx outcome ms = ms @ [Add txCounter outcome 1]"

definition recordTxReceipt :: "goerror option \<Rightarrow> measured \<Rightarrow> measured" where
  "recordTxReceipt err ms =
     (case err of
        None \<Rightarrow> recordTx txOutcomeSuccess ms
      | Some e \<Rightarrow> if IsRevertError e then recordTx txOutcomeReverted ms else recordTx txOutcomeError ms)"

definition giveUpTxM ::
    "nat \<Rightarrow> 'w TxManager \<Rightarrow> u64 \<Rightarrow> int \<Rightarrow> goerror \<Rightarrow> measured \<Rightarrow> 'w \<Rightarrow> (txResult \<times> measured \<times> 'w) option" where
  "giveUpTxM fuel m nonce fee err ms w =
     (case cancelTx fuel m nonce fee w of
        None \<Rightarrow> None
      | Some (_, w') \<Rightarrow> Some ((None, Some err), recordTx txOutcomeCancelled ms, w'))"

definition sendWaitM ::
    "nat \<Rightarrow> 'w TxManager \<Rightarrow> TxOpts \<Rightarrow> u64 \<Rightarrow> nat \<Rightarrow> int \<Rightarrow> int \<Rightarrow> signedTx \<Rightarrow>
     (int \<Rightarrow> int \<Rightarrow> 'w \<Rightarrow> (txResult \<times> measured \<times> 'w) option) \<Rightarrow> measured \<Rightarrow> 'w \<Rightarrow>
     (txResult \<times> measured \<times> 'w) option" where
  "sendWaitM fuel m opts nonce left tip fee tx retry ms w =
     (case waitForReceipt fuel m tx w of
        None \<Rightarrow> None
      | Some (Inr r, w1) \<Rightarrow>
          let (res, w2) = handleReceipt m opts tx r w1 in Some (res, recordTxReceipt (snd res) ms, w2)
      | Some (Inl err, w1) \<Rightarrow>
          if ctxDone (clock m) w1 then Some ((None, Some CtxErr), ms, w1)
          else if left = 0 then giveUpTxM fuel m nonce fee errMaxAttemptsExhausted ms w1
          else (case bumpOrResuggest m tip fee w1 of
                  (None, w2) \<Rightarrow> giveUpTxM fuel m nonce fee errMaxGasReached ms w2
                | (Some (newTip, newFee), w2) \<Rightarrow> retry newTip newFee w2))"

fun sendLoopM ::
    "nat \<Rightarrow> 'w TxManager \<Rightarrow> TxOpts \<Rightarrow> u64 \<Rightarrow> u64 \<Rightarrow> nat \<Rightarrow> int \<Rightarrow> int \<Rightarrow> bool \<Rightarrow> signedTx list \<Rightarrow> measured \<Rightarrow> 'w \<Rightarrow>
     (txResult \<times> measured \<times> 'w) option" where
  "sendLoopM fuel m opts nonce gas 0 tip fee mev published ms w =
     giveUpTxM fuel m nonce fee errMaxAttemptsExhausted ms w"
| "sendLoopM fuel m opts nonce gas (Suc left) tip fee mev published ms w =
     (case buildAndSignTx m opts nonce gas tip fee
             (case Opts_Value opts of None \<Rightarrow> 0 | Some v \<Rightarrow> v) w of
        (Inl e, w1) \<Rightarrow> Some ((None, Some e), recordTx txOutcomeError ms, w1)
      | (Inr tx, w1) \<Rightarrow>
          (case (if mev then sendToMEVRPCs m tx w1 else callSendTransaction m tx w1) of
             (sendRes, w2) \<Rightarrow>
               (case sendRes of
                  Inl err \<Rightarrow>
                    if isTxAlreadyKnown err
                    then sendWaitM fuel m opts nonce left tip fee tx
                           (\<lambda>t f. sendLoopM fuel m opts nonce gas left t f False (published @ [tx]) ms) ms w2
                    else if isNonceTooLow err
                    then (case findMinedReceipt m opts published w2 of
                            (Some res, w3) \<Rightarrow> Some (res, recordTxReceipt (snd res) ms, w3)
                          | (None, w3) \<Rightarrow>
                              Some ((None, Some (Wrap2 errNonceTooLow err)), recordTx txOutcomeError ms, w3))
                    else if isInsufficientFunds err
                    then Some ((None, Some (Wrap2 errInsufficientFunds err)), recordTx txOutcomeError ms, w2)
                    else if isUnderpriced err
                    then (case bumpOrResuggest m tip fee w2 of
                            (None, w3) \<Rightarrow> giveUpTxM fuel m nonce fee errMaxGasReached ms w3
                          | (Some (newTip, newFee), w3) \<Rightarrow>
                              sendLoopM fuel m opts nonce gas left newTip newFee mev published ms w3)
                    else if left \<noteq> 0
                    then (case sleepFor (clock m) (RetryDelay (policy m)) w2 of
                            (False, w3) \<Rightarrow> Some ((None, Some CtxErr), ms, w3)
                          | (True, w3) \<Rightarrow> sendLoopM fuel m opts nonce gas left tip fee mev published ms w3)
                    else Some ((None, Some (Wrap ''send tx'' err)), recordTx txOutcomeError ms, w2)
                | Inr _ \<Rightarrow> sendWaitM fuel m opts nonce left tip fee tx
                           (\<lambda>t f. sendLoopM fuel m opts nonce gas left t f False (published @ [tx]) ms) ms w2)))"

definition SendTransactionM ::
    "nat \<Rightarrow> 'w TxManager \<Rightarrow> TxOpts \<Rightarrow> measured \<Rightarrow> 'w \<Rightarrow> (txResult \<times> measured \<times> 'w) option" where
  "SendTransactionM fuel m opts ms w =
     (case estimateGas m opts w of
        (Inl e, w1) \<Rightarrow>
          Some ((None, Some e), recordTx (if IsRevertError e then txOutcomeReverted else txOutcomeError) ms, w1)
      | (Inr gasLimit, w1) \<Rightarrow>
          (case suggestGasFees m w1 of
             (Inl e, w2) \<Rightarrow> Some ((None, Some e), recordTx txOutcomeError ms, w2)
           | (Inr (tip, fee), w2) \<Rightarrow>
               (case wrapS ''get nonce'' (callPendingNonceAt m (signerAddress m)) w2 of
                  (Inl e, w3) \<Rightarrow> Some ((None, Some e), recordTx txOutcomeError ms, w3)
                | (Inr nonce, w3) \<Rightarrow>
                    sendLoopM fuel m opts nonce gasLimit (nat (MaxAttempts (policy m))) tip fee
                      (Opts_MEVProtected opts \<and> mevClients m \<noteq> []) [] ms w3)))"

text \<open>What is recorded for a result: nothing if the context was done, else one addition.\<close>

definition txOutcomes :: "txResult \<Rightarrow> string set" where
  "txOutcomes res =
     (case snd res of
        None \<Rightarrow> {txOutcomeSuccess}
      | Some e \<Rightarrow>
          if e = CtxErr then {}
          else if e = errMaxGasReached \<or> e = errMaxAttemptsExhausted then {txOutcomeCancelled}
          else if fst res \<noteq> None then {txOutcomeReverted}
          else if IsRevertError e then {txOutcomeReverted, txOutcomeError} else {txOutcomeError})"

definition txRecorded :: "txResult \<Rightarrow> measured \<Rightarrow> measured \<Rightarrow> bool" where
  "txRecorded res ms ms' \<longleftrightarrow>
     (if txOutcomes res = {} then ms' = ms else \<exists>o1\<in>txOutcomes res. ms' = recordTx o1 ms)"

definition forget :: "('a \<times> measured \<times> 'w) option \<Rightarrow> ('a \<times> 'w) option" where
  "forget r = map_option (\<lambda>(a, ms, w). (a, w)) r"

lemma forget_simps [simp]: "forget None = None" "forget (Some (a, ms, w)) = Some (a, w)"
  by (simp_all add: forget_def)

text \<open>An operation with measurements, beside the one without them; the rules follow the shape of both.\<close>

definition metered :: "(txResult \<times> 'w) option \<Rightarrow> measured \<Rightarrow> (txResult \<times> measured \<times> 'w) option \<Rightarrow> bool" where
  "metered plain ms r \<longleftrightarrow> forget r = plain \<and> (\<forall>res ms' w'. r = Some (res, ms', w') \<longrightarrow> txRecorded res ms ms')"

lemma metered_Some: "txRecorded res ms ms' \<Longrightarrow> metered (Some (res, w)) ms (Some (res, ms', w))"
  by (simp add: metered_def)

lemma metered_None: "metered None ms None"
  by (simp add: metered_def)

lemma metered_if:
  "(c \<Longrightarrow> metered p ms r) \<Longrightarrow> (\<not> c \<Longrightarrow> metered p' ms r') \<Longrightarrow> metered (if c then p else p') ms (if c then r else r')"
  by simp

lemma metered_prod:
  "(\<And>a b. x = (a, b) \<Longrightarrow> metered (p a b) ms (r a b)) \<Longrightarrow>
   metered (case x of (a, b) \<Rightarrow> p a b) ms (case x of (a, b) \<Rightarrow> r a b)"
  by (cases x) simp

lemma metered_sum:
  "(\<And>a. x = Inl a \<Longrightarrow> metered (p a) ms (r a)) \<Longrightarrow> (\<And>b. x = Inr b \<Longrightarrow> metered (p' b) ms (r' b)) \<Longrightarrow>
   metered (case x of Inl a \<Rightarrow> p a | Inr b \<Rightarrow> p' b) ms (case x of Inl a \<Rightarrow> r a | Inr b \<Rightarrow> r' b)"
  by (cases x) simp_all

lemma metered_option:
  "(x = None \<Longrightarrow> metered p ms r) \<Longrightarrow> (\<And>b. x = Some b \<Longrightarrow> metered (p' b) ms (r' b)) \<Longrightarrow>
   metered (case x of None \<Rightarrow> p | Some b \<Rightarrow> p' b) ms (case x of None \<Rightarrow> r | Some b \<Rightarrow> r' b)"
  by (cases x) simp_all

lemma metered_bool:
  "(x \<Longrightarrow> metered p ms r) \<Longrightarrow> (\<not> x \<Longrightarrow> metered p' ms r') \<Longrightarrow>
   metered (case x of True \<Rightarrow> p | False \<Rightarrow> p') ms (case x of True \<Rightarrow> r | False \<Rightarrow> r')"
  by (cases x) simp_all

lemmas metered_rules = metered_None metered_if metered_prod metered_sum metered_option metered_bool

lemma txRecorded_error:
  "e \<noteq> CtxErr \<Longrightarrow> e \<noteq> errMaxGasReached \<Longrightarrow> e \<noteq> errMaxAttemptsExhausted \<Longrightarrow>
   txRecorded (None, Some e) ms (recordTx txOutcomeError ms)"
  by (simp add: txRecorded_def txOutcomes_def)

lemma txRecorded_wrapped:
  "txRecorded (None, Some (Wrap a e)) ms (recordTx txOutcomeError ms)"
  "txRecorded (None, Some (Wrap2 e e')) ms (recordTx txOutcomeError ms)"
  by (simp_all add: txRecorded_error errMaxGasReached_def errMaxAttemptsExhausted_def)

lemma txRecorded_ctx: "txRecorded (r, Some CtxErr) ms ms"
  by (simp add: txRecorded_def txOutcomes_def)

lemma txRecorded_receipt:
  assumes "handleReceipt m opts tx r w = (res, w')"
  shows "txRecorded res ms (recordTxReceipt (snd res) ms)"
proof (cases "snd res")
  case (Some e)
  with assms obtain reason h where "res = (Some r, Some e)" "e = RevertError reason False h"
    by (auto simp: handleReceipt_def split: if_splits prod.splits)
  then show ?thesis
    by (simp add: txRecorded_def txOutcomes_def recordTxReceipt_def errMaxGasReached_def errMaxAttemptsExhausted_def)
qed (simp add: txRecorded_def txOutcomes_def recordTxReceipt_def)

lemma findMinedReceipt_recorded:
  "findMinedReceipt m opts txs w = (Some res, w') \<Longrightarrow> txRecorded res ms (recordTxReceipt (snd res) ms)"
proof (induction txs arbitrary: w)
  case (Cons tx txs)
  then show ?case
    by (auto split: sum.splits prod.splits intro: txRecorded_receipt)
qed simp

lemma metered_giveUp:
  "err = errMaxGasReached \<or> err = errMaxAttemptsExhausted \<Longrightarrow>
   metered (giveUpTx fuel m nonce fee err w) ms (giveUpTxM fuel m nonce fee err ms w)"
  by (auto simp: giveUpTx_def giveUpTxM_def txRecorded_def txOutcomes_def errMaxGasReached_def
      errMaxAttemptsExhausted_def intro!: metered_rules metered_Some)

lemma metered_sendWait:
  assumes "\<And>t f w. metered (retry t f w) ms (retryM t f w)"
  shows "metered (sendWait fuel m opts nonce left tip fee tx retry w) ms
    (sendWaitM fuel m opts nonce left tip fee tx retryM ms w)"
proof -
  have r: "metered (Some (handleReceipt m opts tx r w1)) ms
      (let (res, w2) = handleReceipt m opts tx r w1 in Some (res, recordTxReceipt (snd res) ms, w2))" for r w1
    by (cases "handleReceipt m opts tx r w1") (simp add: metered_Some txRecorded_receipt)
  show ?thesis
    unfolding sendWait_def sendWaitM_def
    by (intro metered_rules r metered_giveUp metered_Some txRecorded_ctx assms) simp_all
qed

lemma metered_sendLoop:
  "metered (sendLoop fuel m opts nonce gas left tip fee mev published w) ms
     (sendLoopM fuel m opts nonce gas left tip fee mev published ms w)"
proof (induction left arbitrary: tip fee mev published w)
  case 0
  show ?case by (simp add: metered_giveUp)
next
  case (Suc left)
  have sign: "txRecorded (None, Some e) ms (recordTx txOutcomeError ms)"
    if "buildAndSignTx m opts nonce gas tip fee v w = (Inl e, w1)" for e v w1
    using that txRecorded_wrapped by (auto simp: buildAndSignTx_def wrapS_def split: sum.splits prod.splits)
  show ?case
    unfolding sendLoop.simps sendLoopM.simps
    apply (intro metered_rules metered_sendWait Suc.IH metered_giveUp metered_Some txRecorded_ctx txRecorded_wrapped)
    apply (simp_all add: findMinedReceipt_recorded sign)
    done
qed

lemma metered_SendTransaction: "metered (SendTransaction fuel m opts w) ms (SendTransactionM fuel m opts ms w)"
proof -
  have gas: "txRecorded (None, Some e) ms (recordTx (if IsRevertError e then txOutcomeReverted else txOutcomeError) ms)"
    if "estimateGas m opts w = (Inl e, w1)" for e w1
    using that by (auto simp: estimateGas_def txRecorded_def txOutcomes_def errMaxGasReached_def
        errMaxAttemptsExhausted_def split: if_splits sum.splits prod.splits)
  have fees: "txRecorded (None, Some e) ms (recordTx txOutcomeError ms)"
    if "suggestGasFees m w1 = (Inl e, w2)" for e w1 w2
    using that txRecorded_wrapped
    by (auto simp: suggestGasFees_def wrapS_def bindS_def failS_def retS_def Let_def split: if_splits sum.splits prod.splits)
  show ?thesis
    unfolding SendTransaction_def SendTransactionM_def
    by (intro metered_rules metered_sendLoop metered_Some)
       (auto simp: gas fees wrapS_def txRecorded_wrapped split: sum.splits prod.splits)
qed

section \<open>The oracle\<close>

definition commitCounter :: string where
  "commitCounter = MetricNamespace @ ''.commit''"

definition nextTargetGauge :: string where
  "nextTargetGauge = MetricNamespace @ ''.next_target_epoch''"

definition clusterGauge :: string where
  "clusterGauge = MetricNamespace @ ''.cluster_count''"

definition validatorGauge :: string where
  "validatorGauge = MetricNamespace @ ''.validator_count''"

definition totalEffBalanceGauge :: string where
  "totalEffBalanceGauge = MetricNamespace @ ''.total_effective_balance''"

definition outcomeSuccess :: string where "outcomeSuccess = ''success''"

definition outcomeMissed :: string where "outcomeMissed = ''missed''"

definition outcomeAlreadyCommitted :: string where "outcomeAlreadyCommitted = ''already_committed''"

definition outcomeConflict :: string where "outcomeConflict = ''conflict''"

definition outcomeReverted :: string where "outcomeReverted = ''reverted''"

definition outcomeError :: string where "outcomeError = ''error''"

definition recordCommit :: "string \<Rightarrow> measured \<Rightarrow> measured" where
  "recordCommit outcome ms = ms @ [Add commitCounter outcome 1]"

definition recordNextTarget :: "u64 \<Rightarrow> measured \<Rightarrow> measured" where
  "recordNextTarget epoch ms = ms @ [Record nextTargetGauge (sint epoch)]"

definition recordCommitStats :: "nat \<Rightarrow> nat \<Rightarrow> u64 \<Rightarrow> measured \<Rightarrow> measured" where
  "recordCommitStats nClusters nValidators nETH ms =
     ms @ [Record clusterGauge (int nClusters), Record validatorGauge (int nValidators),
       Record totalEffBalanceGauge (sint nETH)]"

definition totalEffBalance :: "ClusterBalance list \<Rightarrow> u64" where
  "totalEffBalance clusterBalances = foldl (\<lambda>t bal. t + ucast (CB_EffectiveBalance bal)) 0 clusterBalances"

definition prepareCommitM ::
    "nat \<Rightarrow> 'w Oracle \<Rightarrow> FinalizedCheckpoint \<Rightarrow> u64 \<Rightarrow> measured \<Rightarrow> 'w oracleState \<Rightarrow>
     ((goerror + bytes) \<times> measured \<times> 'w oracleState) option" where
  "prepareCommitM fuel o1 cp target ms x =
     (case SyncToBlock fuel (or_syncer o1) (CP_BlockNum cp) x of
        None \<Rightarrow> None
      | Some (Inl e, x1) \<Rightarrow> Some (Inl (Wrap (''sync to block '' @ dec (unat (CP_BlockNum cp))) e), ms, x1)
      | Some (Inr _, s1, bs, w1) \<Rightarrow>
          (case wrapS ''get active validators'' GetActiveValidators s1 of
             (Inl e, s2) \<Rightarrow> Some (Inl e, ms, s2, bs, w1)
           | (Inr vals, s2) \<Rightarrow>
               (case wrapS ''verify finalized block''
                       (VerifyFinalizedBlockRoot (or_beacon o1) (CP_BlockRoot cp)) w1 of
                  (Inl e, w2) \<Rightarrow> Some (Inl e, ms, s2, bs, w2)
                | (Inr _, w2) \<Rightarrow>
                    (case wrapS ''fetch balances''
                            (fetchBalances (or_totalsOrder o1) (or_beacon o1) vals) w2 of
                       (Inl e, w3) \<Rightarrow> Some (Inl e, ms, s2, bs, w3)
                     | (Inr (clusterBalances, n), w3) \<Rightarrow>
                         let ms' = recordCommitStats (length clusterBalances) n (totalEffBalance clusterBalances) ms in
                         (case buildTree (keccakOf (or_syncer o1)) (or_pack o1) (or_mapOrder o1) clusterBalances of
                            None \<Rightarrow> None
                          | Some t \<Rightarrow>
                              (case wrapS ''store pending commit''
                                  (InsertPendingCommit target (Tree_Root t) (CP_BlockNum cp) clusterBalances) s2 of
                                 (Inl e, s3) \<Rightarrow> Some (Inl e, ms', s3, bs, w3)
                               | (Inr _, s3) \<Rightarrow> Some (Inr (Tree_Root t), ms', s3, bs, w3)))))))"

definition handleCommitErrorM ::
    "u64 \<Rightarrow> receipt option \<Rightarrow> goerror \<Rightarrow> measured \<Rightarrow> store \<Rightarrow> goerror option \<times> measured \<times> store" where
  "handleCommitErrorM target rcpt err ms s =
     (let (_, s') = UpdateCommitStatus target CommitStatusFailed (map_option Receipt_TxHash rcpt) s
      in if IsRevertError err then (None, recordCommit outcomeReverted ms, s')
         else (Some (Wrap ''commit failed'' err), ms, s'))"

definition submitCommitM ::
    "nat \<Rightarrow> 'w Oracle \<Rightarrow> FinalizedCheckpoint \<Rightarrow> u64 \<Rightarrow> bytes \<Rightarrow> measured \<Rightarrow> 'w oracleState \<Rightarrow>
     (goerror option \<times> measured \<times> 'w oracleState) option" where
  "submitCommitM fuel o1 cp target merkleRoot ms x =
     (case x of (s, bs, w) \<Rightarrow>
       let (known, w1) = GetCommittedRoot (or_contract o1) (CP_BlockNum cp) w in
       (case (case known of Inr r \<Rightarrow> if r \<noteq> zeroRoot then Some r else None | Inl _ \<Rightarrow> None) of
          Some r \<Rightarrow>
            if r = merkleRoot
            then let ms' = recordCommit outcomeAlreadyCommitted ms;
                     (_, s1) = UpdateCommitStatus target CommitStatusConfirmed None s
                 in Some (None, ms', s1, bs, w1)
            else let ms' = recordCommit outcomeConflict ms;
                     (_, s1) = UpdateCommitStatus target CommitStatusFailed None s
                 in Some (None, ms', s1, bs, w1)
        | None \<Rightarrow>
            (case CommitRoot fuel (or_contract o1) merkleRoot (CP_BlockNum cp) w1 of
               None \<Rightarrow> None
             | Some ((rcpt, Some err), w2) \<Rightarrow>
                 let (r, ms', s1) = handleCommitErrorM target rcpt err ms s in Some (r, ms', s1, bs, w2)
             | Some ((Some rcpt, None), w2) \<Rightarrow>
                 let (_, s1) = UpdateCommitStatus target CommitStatusConfirmed (Some (Receipt_TxHash rcpt)) s
                 in Some (None, recordCommit outcomeSuccess ms, s1, bs, w2)
             | Some ((None, None), w2) \<Rightarrow> None)))"

definition commitM ::
    "nat \<Rightarrow> 'w Oracle \<Rightarrow> FinalizedCheckpoint \<Rightarrow> u64 \<Rightarrow> measured \<Rightarrow> 'w oracleState \<Rightarrow>
     (goerror option \<times> measured \<times> 'w oracleState) option" where
  "commitM fuel o1 cp target ms x =
     (case prepareCommitM fuel o1 cp target ms x of
        None \<Rightarrow> None
      | Some (Inl e, ms1, x1) \<Rightarrow> Some (Some e, ms1, x1)
      | Some (Inr root, ms1, x1) \<Rightarrow> submitCommitM fuel o1 cp target root ms1 x1)"

definition handleCheckpointM ::
    "nat \<Rightarrow> 'w Oracle \<Rightarrow> FinalizedCheckpoint \<Rightarrow> u64 \<Rightarrow> measured \<Rightarrow> 'w oracleState \<Rightarrow>
     (u64 \<times> u64 option \<times> measured \<times> 'w oracleState) option" where
  "handleCheckpointM fuel o1 cp nextTarget ms x =
     (if CP_Epoch cp = 0 then Some (nextTarget, None, ms, x)
      else let fullyFinalized = CP_Epoch cp - 1 in
        if fullyFinalized < nextTarget then Some (nextTarget, None, ms, x)
        else if nextTarget < fullyFinalized
        then map_option (\<lambda>t. (t, None, recordNextTarget t (recordCommit outcomeMissed ms), x))
               (NextTarget (or_schedule o1) fullyFinalized)
        else (case commitM fuel o1 cp nextTarget ms x of
            None \<Rightarrow> None
          | Some (err, ms1, x1) \<Rightarrow>
              map_option (\<lambda>t. (t, Some nextTarget,
                   recordNextTarget t (if err = None then ms1 else recordCommit outcomeError ms1), x1))
                (NextTarget (or_schedule o1) fullyFinalized)))"

fun runLoopM ::
    "nat \<Rightarrow> 'w Oracle \<Rightarrow> FinalizedCheckpoint list \<Rightarrow> u64 \<Rightarrow> measured \<Rightarrow> 'w oracleState \<Rightarrow>
     ((FinalizedCheckpoint \<times> u64) list \<times> measured \<times> 'w oracleState) option" where
  "runLoopM fuel o1 [] nextTarget ms x = Some ([], ms, x)"
| "runLoopM fuel o1 (cp # cps) nextTarget ms x =
     (case handleCheckpointM fuel o1 cp nextTarget ms x of
        None \<Rightarrow> None
      | Some (t, tried, ms1, x1) \<Rightarrow>
          (case runLoopM fuel o1 cps t ms1 x1 of
             None \<Rightarrow> None
           | Some (ts, ms2, x2) \<Rightarrow> Some ((case tried of None \<Rightarrow> ts | Some d \<Rightarrow> (cp, d) # ts), ms2, x2)))"

definition RunM ::
    "nat \<Rightarrow> 'w Oracle \<Rightarrow> FinalizedCheckpoint list \<Rightarrow> measured \<Rightarrow> 'w oracleState \<Rightarrow>
     ((goerror \<times> (FinalizedCheckpoint \<times> u64) list) \<times> measured \<times> 'w oracleState) option" where
  "RunM fuel o1 cps ms x =
     (case x of (s, bs, w) \<Rightarrow>
       (case wrapS ''get finalized epoch'' (GetFinalizedEpoch (or_beacon o1)) w of
          (Inl e, w1) \<Rightarrow> Some ((e, []), ms, s, bs, w1)
        | (Inr finalizedEpoch, w1) \<Rightarrow>
            if finalizedEpoch = 0
            then Some ((ErrNew ''cannot start at genesis (epoch 0): no fully finalized epoch exists'', []), ms, s, bs, w1)
            else (case NextTarget (or_schedule o1) (finalizedEpoch - 1) of
                None \<Rightarrow> None
              | Some t \<Rightarrow>
                  (case runLoopM fuel o1 cps t (recordNextTarget t ms) (s, bs, w1) of
                     None \<Rightarrow> None
                   | Some (ts, ms2, s2, bs2, w2) \<Rightarrow>
                       Some ((if ctxDone (beaconTimer (or_beacon o1)) w2 then CtxErr
                              else ErrNew ''finalized checkpoint subscription closed'', ts), ms2, s2, bs2, w2)))))"

section \<open>The updater\<close>

definition updaterClustersCounter :: string where
  "updaterClustersCounter = MetricNamespace @ ''.updater.clusters''"

definition clusterOutcomeUpdated :: string where "clusterOutcomeUpdated = ''updated''"

definition clusterOutcomeSkipped :: string where "clusterOutcomeSkipped = ''skipped''"

definition clusterOutcomeFailed :: string where "clusterOutcomeFailed = ''failed''"

definition recordClusterUpdates :: "processStats \<Rightarrow> measured \<Rightarrow> measured" where
  "recordClusterUpdates stats ms =
     ms @ [Add updaterClustersCounter clusterOutcomeUpdated (int (st_updated stats)),
       Add updaterClustersCounter clusterOutcomeSkipped (int (st_skipped stats)),
       Add updaterClustersCounter clusterOutcomeFailed (int (st_failed stats))]"

text \<open>The statistics of a commit are recorded where \<open>processCommit\<close> has worked on its clusters.\<close>

definition processCommitM ::
    "nat \<Rightarrow> 'w Updater \<Rightarrow> OracleCommit \<Rightarrow> measured \<Rightarrow> 'w oracleState \<Rightarrow>
     ((goerror + processStats) \<times> measured \<times> 'w oracleState) option" where
  "processCommitM fuel u cm ms x =
     (case processCommit fuel u cm x of
        None \<Rightarrow> None
      | Some (Inl e, x1) \<Rightarrow> Some (Inl e, ms, x1)
      | Some (Inr stats, x1) \<Rightarrow>
          Some (Inr stats, if Commit_ClusterBalances cm = [] then ms else recordClusterUpdates stats ms, x1))"

section \<open>The syncer\<close>

definition syncerLastBlock :: string where
  "syncerLastBlock = MetricNamespace @ ''.syncer.last_block''"

text \<open>\<open>SyncToBlock\<close> records the block it has reached on both successful paths.\<close>

definition SyncToBlockM ::
    "nat \<Rightarrow> 'w EventSyncer \<Rightarrow> u64 \<Rightarrow> measured \<Rightarrow> 'w oracleState \<Rightarrow>
     ((goerror + unit) \<times> measured \<times> 'w oracleState) option" where
  "SyncToBlockM fuel sy targetBlock ms x =
     (case SyncToBlock fuel sy targetBlock x of
        None \<Rightarrow> None
      | Some (Inl e, x1) \<Rightarrow> Some (Inl e, ms, x1)
      | Some (Inr _, x1) \<Rightarrow>
          let lastSynced = last_synced_block (tbl (fst x)) in
          Some (Inr (), ms @ [Record syncerLastBlock
            (sint (if targetBlock \<le> lastSynced then lastSynced else targetBlock))], x1))"

section \<open>What the counters say\<close>

text \<open>The sum of a counter under the outcomes in \<open>os\<close>, and the last value of a gauge.\<close>

fun counted :: "string \<Rightarrow> string set \<Rightarrow> measured \<Rightarrow> int" where
  "counted name os [] = 0"
| "counted name os (Add n o1 k # ms) = (if n = name \<and> o1 \<in> os then k else 0) + counted name os ms"
| "counted name os (Record n v # ms) = counted name os ms"

fun gauged :: "string \<Rightarrow> measured \<Rightarrow> int option" where
  "gauged name [] = None"
| "gauged name (Add n o1 k # ms) = gauged name ms"
| "gauged name (Record n v # ms) = (case gauged name ms of None \<Rightarrow> if n = name then Some v else None | Some v' \<Rightarrow> Some v')"

lemma counted_append [simp]: "counted name os (ms @ ms') = counted name os ms + counted name os ms'"
  by (induction name os ms rule: counted.induct) simp_all

lemma gauged_append [simp]:
  "gauged name (ms @ ms') = (case gauged name ms' of None \<Rightarrow> gauged name ms | Some v \<Rightarrow> Some v)"
  by (induction name ms rule: gauged.induct) (simp_all split: option.splits)

lemmas instrument_names = commitCounter_def nextTargetGauge_def clusterGauge_def validatorGauge_def
  totalEffBalanceGauge_def MetricNamespace_def

definition settledOutcomes :: "string set" where
  "settledOutcomes = {outcomeSuccess, outcomeAlreadyCommitted, outcomeConflict, outcomeReverted, outcomeError}"

lemma outcome_names [simp]:
  "outcomeSuccess \<in> settledOutcomes" "outcomeAlreadyCommitted \<in> settledOutcomes" "outcomeConflict \<in> settledOutcomes"
  "outcomeReverted \<in> settledOutcomes" "outcomeError \<in> settledOutcomes" "outcomeMissed \<notin> settledOutcomes"
  by (simp_all add: settledOutcomes_def outcomeSuccess_def outcomeAlreadyCommitted_def outcomeConflict_def
      outcomeReverted_def outcomeError_def outcomeMissed_def)

lemma counted_record [simp]:
  "counted commitCounter os (recordCommit o1 ms) = counted commitCounter os ms + (if o1 \<in> os then 1 else 0)"
  "counted name os (recordNextTarget e ms) = counted name os ms"
  "counted name os (recordCommitStats a b t ms) = counted name os ms"
  by (simp_all add: recordCommit_def recordNextTarget_def recordCommitStats_def)

lemma gauged_record [simp]:
  "gauged nextTargetGauge (recordNextTarget e ms) = Some (sint e)"
  "gauged name (recordCommit o1 ms) = gauged name ms"
  by (simp_all add: recordCommit_def recordNextTarget_def)

lemma prepareCommitM_forget: "forget (prepareCommitM fuel o1 cp target ms x) = prepareCommit fuel o1 cp target x"
  by (simp add: prepareCommitM_def prepareCommit_def Let_def split: option.splits sum.splits prod.splits)

lemma prepareCommitM_counted:
  "prepareCommitM fuel o1 cp target ms x = Some (r, ms', x') \<Longrightarrow> counted name os ms' = counted name os ms"
  by (auto simp: prepareCommitM_def Let_def split: option.splits sum.splits prod.splits)

lemma submitCommitM_forget:
  "forget (submitCommitM fuel o1 cp target root ms x) = submitCommit fuel o1 cp target root x"
  by (simp add: submitCommitM_def submitCommit_def handleCommitErrorM_def handleCommitError_def Let_def
      split: option.splits sum.splits prod.splits)

lemma submitCommitM_counted:
  "submitCommitM fuel o1 cp target root ms x = Some (err, ms', x') \<Longrightarrow>
   counted commitCounter settledOutcomes ms' = counted commitCounter settledOutcomes ms + (if err = None then 1 else 0)"
  by (auto simp: submitCommitM_def handleCommitErrorM_def Let_def split: option.splits sum.splits prod.splits if_splits)

lemma forget_commitM: "forget (commitM fuel o1 cp target ms x) = commit fuel o1 cp target x"
proof (cases "prepareCommitM fuel o1 cp target ms x")
  case None
  then show ?thesis using prepareCommitM_forget [of fuel o1 cp target ms x]
    by (simp add: commitM_def commit_def)
next
  case (Some r)
  obtain q ms1 x1 where r: "r = (q, ms1, x1)" by (cases r)
  then have "prepareCommit fuel o1 cp target x = Some (q, x1)"
    using prepareCommitM_forget [of fuel o1 cp target ms x] Some by simp
  with Some r show ?thesis
    by (cases q) (simp_all add: commitM_def commit_def submitCommitM_forget)
qed

lemma commitM_Some: "commitM fuel o1 cp target ms x = Some (err, ms', x') \<Longrightarrow> commit fuel o1 cp target x = Some (err, x')"
  using forget_commitM [of fuel o1 cp target ms x] by simp

lemma commitM_counted:
  assumes "commitM fuel o1 cp target ms x = Some (err, ms', x')"
  shows "counted commitCounter settledOutcomes ms' = counted commitCounter settledOutcomes ms + (if err = None then 1 else 0)"
    "counted commitCounter {outcomeMissed} ms' = counted commitCounter {outcomeMissed} ms"
proof -
  obtain q ms1 x1 where p: "prepareCommitM fuel o1 cp target ms x = Some (q, ms1, x1)"
    using assms by (auto simp: commitM_def split: option.splits)
  note c = prepareCommitM_counted [OF p]
  show "counted commitCounter settledOutcomes ms' = counted commitCounter settledOutcomes ms + (if err = None then 1 else 0)"
    using assms p by (cases q) (auto simp: commitM_def c dest!: submitCommitM_counted dest: prepareCommitM_counted)
  have "counted commitCounter {outcomeMissed} ms' = counted commitCounter {outcomeMissed} ms1"
    using assms p
    by (cases q) (auto simp: commitM_def submitCommitM_def handleCommitErrorM_def Let_def outcomeSuccess_def
        outcomeAlreadyCommitted_def outcomeConflict_def outcomeReverted_def outcomeMissed_def
        split: option.splits sum.splits prod.splits if_splits)
  with c show "counted commitCounter {outcomeMissed} ms' = counted commitCounter {outcomeMissed} ms" by simp
qed

lemma handleCheckpointM_counted:
  assumes "handleCheckpointM fuel o1 cp nextTarget ms x = Some (t, tried, ms', x')"
  shows "handleCheckpoint fuel o1 cp nextTarget x = Some (t, tried, x')"
    "counted commitCounter settledOutcomes ms' = counted commitCounter settledOutcomes ms + (if tried = None then 0 else 1)"
    "counted commitCounter {outcomeMissed} ms' = counted commitCounter {outcomeMissed} ms +
       (if CP_Epoch cp \<noteq> 0 \<and> nextTarget < CP_Epoch cp - 1 then 1 else 0)"
    "gauged nextTargetGauge ms = Some (sint nextTarget) \<Longrightarrow> gauged nextTargetGauge ms' = Some (sint t)"
proof -
  consider (wait) "CP_Epoch cp = 0 \<or> CP_Epoch cp - 1 < nextTarget" "t = nextTarget" "tried = None" "ms' = ms" "x' = x"
    | (miss) "CP_Epoch cp \<noteq> 0" "nextTarget < CP_Epoch cp - 1" "NextTarget (or_schedule o1) (CP_Epoch cp - 1) = Some t"
        "tried = None" "ms' = recordNextTarget t (recordCommit outcomeMissed ms)" "x' = x"
    | (due) err ms1 where "CP_Epoch cp \<noteq> 0" "CP_Epoch cp - 1 = nextTarget" "tried = Some nextTarget"
        "commitM fuel o1 cp nextTarget ms x = Some (err, ms1, x')" "NextTarget (or_schedule o1) (CP_Epoch cp - 1) = Some t"
        "ms' = recordNextTarget t (if err = None then ms1 else recordCommit outcomeError ms1)"
    using assms by (auto simp: handleCheckpointM_def Let_def split: if_splits option.splits)
  note three = this
  have miss: "outcomeMissed \<noteq> outcomeError" by (simp add: outcomeMissed_def outcomeError_def)
  show "handleCheckpoint fuel o1 cp nextTarget x = Some (t, tried, x')"
    using three by cases (auto simp: handleCheckpoint_def Let_def dest: commitM_Some)
  show "counted commitCounter settledOutcomes ms' = counted commitCounter settledOutcomes ms + (if tried = None then 0 else 1)"
    using three by cases (auto dest: commitM_counted(1))
  show "counted commitCounter {outcomeMissed} ms' = counted commitCounter {outcomeMissed} ms +
       (if CP_Epoch cp \<noteq> 0 \<and> nextTarget < CP_Epoch cp - 1 then 1 else 0)"
    using three by cases (use miss in \<open>auto dest: commitM_counted(2)\<close>)
  show "gauged nextTargetGauge ms' = Some (sint t)" if "gauged nextTargetGauge ms = Some (sint nextTarget)"
    using three that by cases auto
qed

lemma runLoopM_counted:
  "runLoopM fuel o1 cps nextTarget ms x = Some (ts, ms', x') \<Longrightarrow>
   runLoop fuel o1 cps nextTarget x = Some (ts, x') \<and>
   counted commitCounter settledOutcomes ms' = counted commitCounter settledOutcomes ms + int (length ts)"
proof (induction cps arbitrary: nextTarget ms x ts)
  case (Cons cp cps)
  obtain t tried ms1 x1 ts1 where h: "handleCheckpointM fuel o1 cp nextTarget ms x = Some (t, tried, ms1, x1)"
    and l: "runLoopM fuel o1 cps t ms1 x1 = Some (ts1, ms', x')"
    and ts: "ts = (case tried of None \<Rightarrow> ts1 | Some d \<Rightarrow> (cp, d) # ts1)"
    using Cons.prems by (auto split: option.splits)
  from handleCheckpointM_counted(1,2) [OF h] Cons.IH [OF l] ts show ?case by (cases tried) auto
qed simp

lemma submitCommitM_settles:
  assumes "submitCommitM fuel o1 cp target root ms (s, bs, w) = Some (err, ms', s', bs', w')"
  obtains (confirmed) h outcome where "err = None" "ms' = recordCommit outcome ms"
      "outcome \<in> {outcomeSuccess, outcomeAlreadyCommitted}" "s' = snd (UpdateCommitStatus target CommitStatusConfirmed h s)"
    | (lost) h outcome where "err = None" "ms' = recordCommit outcome ms"
      "outcome \<in> {outcomeConflict, outcomeReverted}" "s' = snd (UpdateCommitStatus target CommitStatusFailed h s)"
    | (failed) h where "err \<noteq> None" "ms' = ms" "s' = snd (UpdateCommitStatus target CommitStatusFailed h s)"
proof -
  have *: "s2 = snd (UpdateCommitStatus target st h s)" if "UpdateCommitStatus target st h s = (a, s2)" for a s2 st h
    using that by simp
  from assms show thesis
    by (auto simp: submitCommitM_def handleCommitErrorM_def Let_def dest!: *
        split: option.splits sum.splits prod.splits if_splits intro: that)
qed

section \<open>Properties\<close>

text \<open>C31: the outcome of every submission is counted once, and truthfully. Recording does not change what
  \<open>SendTransaction\<close> does. A submission that ends because the context is done adds nothing to
  \<open>ssv.oracle.tx\<close>, although transactions may have been sent; every other one adds one:
  a success exactly if no error is returned, a cancellation exactly if the fee cap or the attempts were used
  up, and a revert if there is a receipt and an error.\<close>

theorem tx_outcome_counted:
  assumes "SendTransactionM fuel m opts ms w = Some ((rcpt, err), ms', w')"
  shows "SendTransaction fuel m opts w = Some ((rcpt, err), w') \<and>
    (if err = Some CtxErr then ms' = ms
     else \<exists>outcome. ms' = ms @ [Add txCounter outcome 1] \<and>
       outcome \<in> {txOutcomeSuccess, txOutcomeReverted, txOutcomeCancelled, txOutcomeError} \<and>
       (outcome = txOutcomeSuccess \<longleftrightarrow> err = None) \<and>
       (outcome = txOutcomeCancelled \<longleftrightarrow> err = Some errMaxGasReached \<or> err = Some errMaxAttemptsExhausted) \<and>
       (outcome = txOutcomeError \<longrightarrow> rcpt = None))"
proof -
  have "metered (SendTransaction fuel m opts w) ms (Some ((rcpt, err), ms', w'))"
    using metered_SendTransaction [of fuel m opts w ms] assms by simp
  then have "SendTransaction fuel m opts w = Some ((rcpt, err), w')" "txRecorded (rcpt, err) ms ms'"
    by (simp_all add: metered_def)
  then show ?thesis
    by (auto simp: txRecorded_def txOutcomes_def recordTx_def txOutcomeSuccess_def txOutcomeReverted_def
        txOutcomeCancelled_def txOutcomeError_def errMaxGasReached_def errMaxAttemptsExhausted_def
        split: option.splits if_splits)
qed

lemma sampleSendM:
  "\<exists>r txs. SendTransactionM (Suc 0) (sampleManager 1) sampleOpts [] (0, []) =
     Some ((Some r, None), [Add txCounter txOutcomeSuccess 1], 1, txs)"
  by (simp add: SendTransactionM_def estimateGas_def sampleManager_def sampleOpts_def retS_def bindS_def wrapS_def
      failS_def suggestGasFees_def samplePolicy_def minTipCap_def gweiWei_def MaxFeePerGasWei_def capFees_def
      buildAndSignTx_def sendWaitM_def waitForReceipt_def minedAt_def handleReceipt_def recordTxReceipt_def recordTx_def)

theorem tx_outcome_counted_witness:
  "\<exists>r outcome w'. SendTransactionM (Suc 0) (sampleManager 1) sampleOpts [] (0, []) =
      Some ((Some r, None), [Add txCounter outcome 1], w') \<and> outcome = txOutcomeSuccess \<and>
      SendTransaction (Suc 0) (sampleManager 1) sampleOpts (0, []) = Some ((Some r, None), w')"
proof -
  obtain r txs where s: "SendTransactionM (Suc 0) (sampleManager 1) sampleOpts [] (0, []) =
      Some ((Some r, None), [Add txCounter txOutcomeSuccess 1], 1, txs)"
    using sampleSendM by blast
  from tx_outcome_counted [OF s] s show ?thesis by auto
qed

text \<open>The oracle's counters follow its main loop. Recording does not change what a checkpoint
  does; the gauge of the next target holds the target in force; a checkpoint for which \<open>commit\<close> ran counts
  exactly one of success, already committed, conflict, reverted and error, every other checkpoint none of them;
  and one missed target is counted exactly when the checkpoint is past the target.\<close>

theorem checkpoint_outcome_counted:
  assumes "handleCheckpointM fuel o1 cp nextTarget ms x = Some (t, tried, ms', x')"
    "gauged nextTargetGauge ms = Some (sint nextTarget)"
  shows "handleCheckpoint fuel o1 cp nextTarget x = Some (t, tried, x') \<and>
    gauged nextTargetGauge ms' = Some (sint t) \<and>
    counted commitCounter settledOutcomes ms' =
      counted commitCounter settledOutcomes ms + (if tried = None then 0 else 1) \<and>
    counted commitCounter {outcomeMissed} ms' = counted commitCounter {outcomeMissed} ms +
      (if CP_Epoch cp \<noteq> 0 \<and> nextTarget < CP_Epoch cp - 1 then 1 else 0)"
  using handleCheckpointM_counted [OF assms(1)] assms(2) by simp

lemma sampleCheckpointM:
  "\<exists>ms' x'. handleCheckpointM (Suc 0) sampleOracle \<lparr>CP_Epoch = 131, CP_BlockNum = 5, CP_BlockRoot = [7]\<rparr> 130
     [Record nextTargetGauge 130] (toyStore\<lparr>faults := [Some CtxErr]\<rparr>, NewAdaptiveBatchSize 2 2, 0) =
     Some (140, Some 130, ms', x')"
proof -
  let ?cp = "\<lparr>CP_Epoch = 131, CP_BlockNum = 5, CP_BlockRoot = [7]\<rparr>"
  let ?x = "(toyStore\<lparr>faults := [Some CtxErr]\<rparr>, NewAdaptiveBatchSize 2 2, 0)"
  obtain err x1 where "commit (Suc 0) sampleOracle ?cp 130 ?x = Some (err, x1)" using sampleOracle_fails by blast
  then obtain ms1 where "commitM (Suc 0) sampleOracle ?cp 130 [Record nextTargetGauge 130] ?x = Some (err, ms1, x1)"
    using forget_commitM [of "Suc 0" sampleOracle ?cp 130 "[Record nextTargetGauge 130]" ?x]
    by (auto simp: forget_def)
  then show ?thesis by (cases x1) (simp add: handleCheckpointM_def sampleOracle_facts sampleOracle_next)
qed

theorem checkpoint_outcome_counted_witness:
  "\<exists>ms' x'. handleCheckpointM (Suc 0) sampleOracle \<lparr>CP_Epoch = 131, CP_BlockNum = 5, CP_BlockRoot = [7]\<rparr> 130
     [Record nextTargetGauge 130] (toyStore\<lparr>faults := [Some CtxErr]\<rparr>, NewAdaptiveBatchSize 2 2, 0) =
     Some (140, Some 130, ms', x') \<and> gauged nextTargetGauge ms' = Some 140 \<and>
     counted commitCounter settledOutcomes ms' = 1 \<and> counted commitCounter {outcomeMissed} ms' = 0"
proof -
  obtain ms' x' where h: "handleCheckpointM (Suc 0) sampleOracle \<lparr>CP_Epoch = 131, CP_BlockNum = 5, CP_BlockRoot = [7]\<rparr> 130
     [Record nextTargetGauge 130] (toyStore\<lparr>faults := [Some CtxErr]\<rparr>, NewAdaptiveBatchSize 2 2, 0) =
     Some (140, Some 130, ms', x')" using sampleCheckpointM by blast
  from checkpoint_outcome_counted [OF h] h show ?thesis by (cases x') simp
qed

text \<open>What the second half of \<open>commit\<close> counts agrees with what it stores. With a working
  storage, the row of the target is confirmed exactly if success or already committed is counted, and an outcome
  is counted exactly if no error is returned.\<close>

theorem submit_outcome_truthful:
  assumes "commitOf s target = Some (pendingRow target root block bals)" "faults s = []"
    "submitCommitM fuel o1 cp target root ms (s, bs, w) = Some (err, ms', s', bs', w')"
  shows "submitCommit fuel o1 cp target root (s, bs, w) = Some (err, s', bs', w') \<and>
    (\<exists>st h. commitOf s' target = Some ((pendingRow target root block bals)\<lparr>status := st, tx_hash := h\<rparr>) \<and>
       (if err \<noteq> None then ms' = ms \<and> st = CommitStatusFailed
        else \<exists>outcome. ms' = ms @ [Add commitCounter outcome 1] \<and>
          (st = CommitStatusConfirmed \<and> outcome \<in> {outcomeSuccess, outcomeAlreadyCommitted} \<or>
           st = CommitStatusFailed \<and> outcome \<in> {outcomeConflict, outcomeReverted})))"
proof -
  have row: "commitOf (snd (UpdateCommitStatus target st h s)) target =
      Some ((pendingRow target root block bals)\<lparr>status := st, tx_hash := h\<rparr>)" for st h
    using UpdateCommitStatus_settles [OF assms(1) _ assms(2)]
    by (simp add: pendingRow_def split: option.splits)
  have "submitCommit fuel o1 cp target root (s, bs, w) = Some (err, s', bs', w')"
    using submitCommitM_forget [of fuel o1 cp target root ms "(s, bs, w)"] assms(3) by simp
  moreover from assms(3) have "\<exists>st h. commitOf s' target = Some ((pendingRow target root block bals)\<lparr>status := st, tx_hash := h\<rparr>) \<and>
       (if err \<noteq> None then ms' = ms \<and> st = CommitStatusFailed
        else \<exists>outcome. ms' = ms @ [Add commitCounter outcome 1] \<and>
          (st = CommitStatusConfirmed \<and> outcome \<in> {outcomeSuccess, outcomeAlreadyCommitted} \<or>
           st = CommitStatusFailed \<and> outcome \<in> {outcomeConflict, outcomeReverted}))"
    by (cases rule: submitCommitM_settles) (use row in \<open>auto simp: recordCommit_def\<close>)
  ultimately show ?thesis by blast
qed

theorem submit_outcome_truthful_witness:
  "\<exists>s' bs' w' outcome h. submitCommitM (Suc (Suc 0)) sampleOracle sampleCheckpoint 150 [3] []
     (snd (InsertPendingCommit 150 [3] 5 [] toyStore), NewAdaptiveBatchSize 2 2, 0) =
       Some (None, [Add commitCounter outcome 1], s', bs', w') \<and> outcome = outcomeSuccess \<and>
     commitOf s' 150 = Some ((pendingRow 150 [3] 5 [])\<lparr>status := CommitStatusConfirmed, tx_hash := h\<rparr>)"
proof -
  let ?s = "snd (InsertPendingCommit 150 [3] 5 [] toyStore)"
  have c: "commitOf ?s 150 = Some (pendingRow 150 [3] 5 [])" "faults ?s = []"
    by (simp_all add: InsertPendingCommit_row)
       (simp_all add: InsertPendingCommit_def toyStore_def stmt_def insertCommitTbl_def emptyTables_def
         commitOf_def wrapS_def)
  have k: "GetCommittedRoot (or_contract sampleOracle) (CP_BlockNum sampleCheckpoint) 0 = (Inr zeroRoot, 0)"
    by (simp add: GetCommittedRoot_def abiResult_def opS_simps sampleOracle_def sampleContract_def)
  obtain rcpt w' where r: "CommitRoot (Suc (Suc 0)) (or_contract sampleOracle) [3] (CP_BlockNum sampleCheckpoint) 0 =
      Some ((Some rcpt, None), w')" using sampleCommitRoot by blast
  obtain u s' where u: "UpdateCommitStatus 150 CommitStatusConfirmed (Some (Receipt_TxHash rcpt)) ?s = (u, s')"
    by fastforce
  have s: "submitCommitM (Suc (Suc 0)) sampleOracle sampleCheckpoint 150 [3] [] (?s, NewAdaptiveBatchSize 2 2, 0) =
      Some (None, [Add commitCounter outcomeSuccess 1], s', NewAdaptiveBatchSize 2 2, w')"
    using k r u by (simp add: submitCommitM_def recordCommit_def)
  have "outcomeSuccess \<notin> {outcomeConflict, outcomeReverted}"
    by (simp add: outcomeSuccess_def outcomeConflict_def outcomeReverted_def)
  with submit_outcome_truthful [OF c s] s show ?thesis by auto
qed

text \<open>The updater's counter adds up to the clusters accounted for.\<close>

lemma cluster_updates_counted:
  "processCommitM fuel u cm ms x = Some (Inr stats, ms', x') \<Longrightarrow>
   processCommit fuel u cm x = Some (Inr stats, x') \<and>
   counted updaterClustersCounter {clusterOutcomeUpdated, clusterOutcomeSkipped, clusterOutcomeFailed} ms' =
     counted updaterClustersCounter {clusterOutcomeUpdated, clusterOutcomeSkipped, clusterOutcomeFailed} ms +
     int (statTotal stats)"
  by (auto simp: processCommitM_def recordClusterUpdates_def statTotal_def processCommit_def noStats_def
      split: option.splits sum.splits if_splits)

lemma totalEffBalance_exact:
  assumes "length bals < 2 ^ 31"
  shows "sint (totalEffBalance bals) = (\<Sum>b\<leftarrow>bals. uint (CB_EffectiveBalance b))"
proof -
  have step: "unat (foldl (\<lambda>t bal. t + ucast (CB_EffectiveBalance bal)) t0 bs) =
      unat t0 + (\<Sum>b\<leftarrow>bs. unat (CB_EffectiveBalance b))"
    if "unat t0 + (\<Sum>b\<leftarrow>bs. unat (CB_EffectiveBalance b)) < 2 ^ 63" for t0 :: u64 and bs
    using that
  proof (induction bs arbitrary: t0)
    case (Cons b bs)
    then have "unat (t0 + ucast (CB_EffectiveBalance b)) = unat t0 + unat (CB_EffectiveBalance b)"
      by (subst unat_add_lem [THEN iffD1]) (simp_all add: unsigned_ucast_eq take_bit_nat_eq_self)
    with Cons show ?case by (simp add: add.assoc)
  qed simp
  have "(\<Sum>b\<leftarrow>bals. unat (CB_EffectiveBalance b)) \<le> (\<Sum>b\<leftarrow>bals. 2 ^ 32)"
    by (rule sum_list_mono) (simp add: less_imp_le [OF unsigned_less, of "CB_EffectiveBalance _", simplified])
  also have "\<dots> < 2 ^ 63" using assms by (simp add: sum_list_triv)
  finally have lt: "(\<Sum>b\<leftarrow>bals. unat (CB_EffectiveBalance b)) < 2 ^ 63" .
  with step [of 0 bals] have "unat (totalEffBalance bals) = (\<Sum>b\<leftarrow>bals. unat (CB_EffectiveBalance b))"
    by (simp add: totalEffBalance_def)
  with lt have "uint (totalEffBalance bals) = int (\<Sum>b\<leftarrow>bals. unat (CB_EffectiveBalance b))"
    "uint (totalEffBalance bals) < 2 ^ 63"
    by (simp_all add: uint_nat)
  then have "sint (totalEffBalance bals) = int (\<Sum>b\<leftarrow>bals. unat (CB_EffectiveBalance b))"
    by (simp add: sint_uint signed_take_bit_int_eq_self)
  moreover have "int (\<Sum>b\<leftarrow>bs. unat (CB_EffectiveBalance b)) = (\<Sum>b\<leftarrow>bs. uint (CB_EffectiveBalance b))" for bs
    by (induction bs) simp_all
  ultimately show ?thesis by simp
qed

text \<open>The syncer's gauge holds the block that the database is at.\<close>

lemma synced_block_gauged:
  assumes "SyncToBlockM fuel sy target ms (s, bs, w) = Some (Inr u, ms', s', bs', w')" "honestNode sy chain"
    "batch_ok bs" "unat target + unat (maxSize bs) < 2 ^ 64"
  shows "gauged syncerLastBlock ms' = Some (sint (last_synced_block (tbl s')))"
proof -
  have r: "SyncToBlock fuel sy target (s, bs, w) = Some (Inr (), s', bs', w')"
    using assms(1) by (auto simp: SyncToBlockM_def Let_def split: option.splits sum.splits)
  have "gauged syncerLastBlock ms' = Some (sint (if target \<le> last_synced_block (tbl s) then last_synced_block (tbl s) else target))"
    using assms(1) by (auto simp: SyncToBlockM_def Let_def split: option.splits sum.splits)
  moreover have "last_synced_block (tbl s') = last_synced_block (tbl s)" if "target \<le> last_synced_block (tbl s)"
  proof -
    obtain b s1 where "GetLastSyncedBlock s = (Inr b, s1)"
      using r by (cases "GetLastSyncedBlock s") (auto simp: SyncToBlock_def wrapS_def split: sum.splits)
    moreover from this have "b = last_synced_block (tbl s)" "tbl s1 = tbl s"
      using query_Inr [of last_synced_block s b s1] by (simp_all add: GetLastSyncedBlock_def)
    ultimately show ?thesis using r that by (auto simp: SyncToBlock_def wrapS_def)
  qed
  moreover have "last_synced_block (tbl s') = target" if "\<not> target \<le> last_synced_block (tbl s)"
    using SyncToBlock_exact [OF r _ assms(2-4)] that by (simp add: not_le)
  ultimately show ?thesis by simp
qed

end
