(* ===== verification/Command.thy ===== *)
theory Command
  imports Launch
begin

text \<open>
  The process: \<^verbatim>\<open>cmd/oracle/main.go\<close>, the commands of \<^verbatim>\<open>root.go\<close> and \<^verbatim>\<open>version.go\<close>, and how
  \<^verbatim>\<open>logger/logger.go\<close> configures the global logger. Parsing the arguments is done by cobra: what it makes of them
  is a parameter, and so are the configurations, the levels and the building of a logger of zap. The usage text
  that cobra prints after an error is not part of the model.
\<close>

section \<open>The logger\<close>

text \<open>The fields of \<open>zap.Config\<close> that \<open>Init\<close> sets; \<open>'v\<close> are the levels, \<open>'e\<close> the
  encoders.\<close>

record ('v, 'e) zapConfig =
  zc_Level :: 'v
  zc_Sampling :: "(nat \<times> nat) option"
  zc_EncodeLevel :: 'e
  zc_EncodeTime :: 'e
  zc_DisableStacktrace :: bool
  zc_OutputPaths :: "string list"
  zc_ErrorOutputPaths :: "string list"

text \<open>What zap provides: the two default configurations, its encoders, the parsing of a level and
  \<open>Build\<close>.\<close>

record ('v, 'e, 'l) zapLib =
  NewDevelopmentConfig :: "('v, 'e) zapConfig"
  NewProductionConfig :: "('v, 'e) zapConfig"
  CapitalColorLevelEncoder :: 'e
  TimeEncoderOfLayout :: "string \<Rightarrow> 'e"
  ISO8601TimeEncoder :: 'e
  UnmarshalText :: "string \<Rightarrow> goerror + 'v"
  buildLogger :: "('v, 'e) zapConfig \<Rightarrow> goerror + 'l"

definition modeConfig :: "('v, 'e, 'l) zapLib \<Rightarrow> bool \<Rightarrow> ('v, 'e) zapConfig" where
  "modeConfig z dev =
     (if dev
      then (NewDevelopmentConfig z)\<lparr>zc_EncodeLevel := CapitalColorLevelEncoder z,
             zc_EncodeTime := TimeEncoderOfLayout z ''15:04:05'', zc_DisableStacktrace := True\<rparr>
      else (NewProductionConfig z)\<lparr>zc_Sampling := None, zc_EncodeTime := ISO8601TimeEncoder z\<rparr>)"

definition withLevel :: "('v, 'e, 'l) zapLib \<Rightarrow> string \<Rightarrow> ('v, 'e) zapConfig \<Rightarrow> ('v, 'e) zapConfig" where
  "withLevel z level cfg =
     (if level \<noteq> [] then
        (case UnmarshalText z (toLower level) of
           Inr lvl \<Rightarrow> cfg\<lparr>zc_Level := lvl\<rparr>
         | Inl _ \<Rightarrow> cfg)
      else cfg)"

text \<open>\<open>Init\<close>: the old logger (if any) is flushed and replaced; \<open>Inl\<close> is the panic. The number of
  flushes is kept beside the logger.\<close>

type_synonym 'l logState = "'l option \<times> nat"

definition Sync :: "'l logState \<Rightarrow> 'l logState" where
  "Sync st = (case st of (None, n) \<Rightarrow> (None, n) | (Some l, n) \<Rightarrow> (Some l, Suc n))"

definition Init :: "('v, 'e, 'l) zapLib \<Rightarrow> string \<Rightarrow> string \<Rightarrow> 'l logState \<Rightarrow> string + 'l logState" where
  "Init z devEnv level st =
     (let st1 = Sync st;
          cfg = (withLevel z level (modeConfig z (devEnv = ''true'')))
            \<lparr>zc_OutputPaths := [''stderr''], zc_ErrorOutputPaths := [''stderr'']\<rparr>
      in case buildLogger z cfg of
           Inl err \<Rightarrow> Inl (''failed to build logger: '' @ errText err)
         | Inr l \<Rightarrow> Inr (Some l, snd st1))"

section \<open>The commands\<close>

record buildInfo =
  Version :: string
  GitCommit :: string
  BuildTime :: string

definition newline :: string where
  "newline = [char_of (10 :: nat)]"

definition versionText :: "buildInfo \<Rightarrow> string" where
  "versionText b =
     ''SSV Oracle Client'' @ newline @ ''Version:    '' @ Version b @ newline @
     ''Git Commit: '' @ GitCommit b @ newline @ ''Built:      '' @ BuildTime b @ newline"

text \<open>What cobra makes of the arguments: one of the two commands that \<open>init\<close> adds, \<open>Help\<close> (its own
  commands and flags, that end without an error), or an error of the arguments.\<close>

datatype ('w, 'c) invocation = RunCmd "('w, 'c) command" | VersionCmd | Help | BadArgs goerror

record 'w terminal =
  tm_process :: "'w process"
  tm_stdout :: string
  tm_stderr :: string
  tm_flushes :: nat
  tm_exit :: "nat option"

definition Execute ::
    "('w, 'c) scheduler \<Rightarrow> buildInfo \<Rightarrow> ('w, 'c) invocation \<Rightarrow> ('w terminal, unit) op" where
  "Execute serve b req t =
     (case req of
        RunCmd cmd \<Rightarrow> (case runCommand cmd serve (tm_process t) of (r, p) \<Rightarrow> (r, t\<lparr>tm_process := p\<rparr>))
      | VersionCmd \<Rightarrow> (Inr (), t\<lparr>tm_stdout := tm_stdout t @ versionText b\<rparr>)
      | Help \<Rightarrow> (Inr (), t)
      | BadArgs e \<Rightarrow> (Inl e, t))"

text \<open>An unrecovered panic ends the process with status 2, without the deferred flush; the runtime's
  report of it on the standard error is not part of the model.\<close>

definition mainProgram :: "('w, 'c) scheduler \<Rightarrow> buildInfo \<Rightarrow> ('w, 'c) invocation \<Rightarrow> 'w terminal \<Rightarrow> 'w terminal" where
  "mainProgram serve b req t =
     (case Execute serve b req t of
        (r, t1) \<Rightarrow>
          if pr_crashed (tm_process t1) then t1\<lparr>tm_exit := Some 2\<rparr>
          else (case r of
              Inl err \<Rightarrow> t1\<lparr>tm_stderr := tm_stderr t1 @ errText err @ newline, tm_flushes := Suc (tm_flushes t1), tm_exit := Some 1\<rparr>
            | Inr _ \<Rightarrow> t1\<lparr>tm_flushes := Suc (tm_flushes t1), tm_exit := Some 0\<rparr>))"

section \<open>Lemmas\<close>

text \<open>A level that is empty or unknown leaves the default of the mode, and both streams go to
  the standard error, whatever the defaults are; outside development no entry is sampled away.\<close>

lemma Init_config:
  assumes "Init z devEnv level st = Inr st'"
  obtains cfg l where "buildLogger z cfg = Inr l" "st' = (Some l, snd (Sync st))"
    "zc_OutputPaths cfg = [''stderr'']" "zc_ErrorOutputPaths cfg = [''stderr'']"
    "zc_Level cfg = (case UnmarshalText z (toLower level) of
       Inr lvl \<Rightarrow> if level = [] then zc_Level (modeConfig z (devEnv = ''true'')) else lvl
     | Inl _ \<Rightarrow> zc_Level (modeConfig z (devEnv = ''true'')))"
    "devEnv \<noteq> ''true'' \<Longrightarrow> zc_Sampling cfg = None"
proof -
  let ?cfg = "(withLevel z level (modeConfig z (devEnv = ''true'')))
      \<lparr>zc_OutputPaths := [''stderr''], zc_ErrorOutputPaths := [''stderr'']\<rparr>"
  obtain l where "buildLogger z ?cfg = Inr l" "st' = (Some l, snd (Sync st))"
    using assms by (auto simp: Init_def Let_def split: sum.splits)
  then show thesis
    by (rule that) (auto simp: withLevel_def modeConfig_def split: sum.splits)
qed

lemma mainProgram_process: "tm_process (mainProgram serve b (RunCmd cmd) t) = snd (runCommand cmd serve (tm_process t))"
  by (cases "runCommand cmd serve (tm_process t)"; cases "fst (runCommand cmd serve (tm_process t))")
     (simp_all add: mainProgram_def Execute_def)

section \<open>Property\<close>

text \<open>The exit status tells how the run ended: 2 exactly if a goroutine panicked, and else 0 exactly if the command
  returned no error, or 1 with the text of the error as the last line of the standard
  error. Unless it panicked the logs are flushed once and the key is erased. With status 0 and services that open and
  close nothing themselves, everything that the run opened has been released before the process ends.\<close>

theorem exit_status_truthful:
  assumes "hostOK (cmd_host cmd) opened" "keyErased (tm_process t)" "\<not> pr_crashed (tm_process t)"
    "runCommand cmd serve (tm_process t) = (r, p)" "t' = mainProgram serve b (RunCmd cmd) t"
  shows "(tm_exit t' = Some 2 \<longleftrightarrow> pr_crashed p) \<and> (tm_exit t' = Some 0 \<longleftrightarrow> \<not> pr_crashed p \<and> r = Inr ()) \<and>
    (\<not> pr_crashed p \<longrightarrow>
      (case r of Inl err \<Rightarrow> tm_exit t' = Some 1 \<and> tm_stderr t' = tm_stderr t @ errText err @ newline
       | Inr _ \<Rightarrow> tm_stderr t' = tm_stderr t) \<and>
      tm_flushes t' = Suc (tm_flushes t) \<and> keyErased (tm_process t')) \<and>
    (tm_exit t' = Some 0 \<longrightarrow> (\<forall>la q ends q'. serve la q = (ends, q') \<longrightarrow> opened (pr_world q') = opened (pr_world q)) \<longrightarrow>
       opened (pr_world (tm_process t')) = opened (pr_world (tm_process t)))"
proof -
  have p: "tm_process t' = p" using assms(4,5) by (simp add: mainProgram_process)
  have k: "pr_crashed p \<or> keyErased p"
    by (rule invS_E [OF runCommand_erases disjI2 [OF assms(2)] assms(4)])
  have x: "(tm_exit t' = Some 2 \<longleftrightarrow> pr_crashed p) \<and> (tm_exit t' = Some 0 \<longleftrightarrow> \<not> pr_crashed p \<and> r = Inr ())"
    using assms(4,5) by (cases r) (auto simp: mainProgram_def Execute_def)
  moreover have "settled opened serve (tm_process t) r p"
    using runCommand_balanced [OF assms(1)] assms(3,4) unfolding balanced_def by blast
  then have "opened (pr_world p) = opened (pr_world (tm_process t))" if "\<not> pr_crashed p" "r = Inr ()"
    "\<forall>la q ends q'. serve la q = (ends, q') \<longrightarrow> opened (pr_world q') = opened (pr_world q)"
    using that unfolding settled_def leaks_def by auto
  moreover have "(case r of Inl err \<Rightarrow> tm_exit t' = Some 1 \<and> tm_stderr t' = tm_stderr t @ errText err @ newline
       | Inr _ \<Rightarrow> tm_stderr t' = tm_stderr t) \<and> tm_flushes t' = Suc (tm_flushes t)" if "\<not> pr_crashed p"
    using assms(4,5) that by (cases r) (simp_all add: mainProgram_def Execute_def)
  ultimately show ?thesis unfolding p using k by blast
qed

definition sampleTerminal :: "(nat \<times> nat list) terminal" where
  "sampleTerminal = \<lparr>tm_process = sampleProcess0, tm_stdout = [], tm_stderr = [], tm_flushes = 0, tm_exit = None\<rparr>"

definition sampleBuild :: buildInfo where
  "sampleBuild = \<lparr>Version = ''dev'', GitCommit = ''unknown'', BuildTime = ''unknown''\<rparr>"

theorem exit_status_truthful_witness:
  "tm_exit (mainProgram sampleServe sampleBuild (RunCmd (sampleCommand True)) sampleTerminal) = Some 0 \<and>
   openedIn (pr_world (tm_process (mainProgram sampleServe sampleBuild (RunCmd (sampleCommand True)) sampleTerminal))) = {} \<and>
   (\<exists>e. tm_stderr (mainProgram sampleServe sampleBuild (RunCmd (sampleCommand False)) sampleTerminal) = errText e @ newline) \<and>
   tm_exit (mainProgram samplePanic sampleBuild (RunCmd (sampleCommand True)) sampleTerminal) = Some 2"
proof -
  have k: "keyErased (tm_process sampleTerminal)" "\<not> pr_crashed (tm_process sampleTerminal)"
    by (simp_all add: keyErased_def sampleTerminal_def sampleProcess0_def)
  have t: "tm_process sampleTerminal = sampleProcess0" "tm_stderr sampleTerminal = []" by (simp_all add: sampleTerminal_def)
  have z: "openedIn (pr_world sampleProcess0) = {}" by (simp add: sampleProcess0_def openedIn_def)
  have same: "\<forall>la q ends q'. sampleServe la q = (ends, q') \<longrightarrow> openedIn (pr_world q') = openedIn (pr_world q)"
    by (simp add: sampleServe_def)
  note main = exit_status_truthful [OF sampleHost_ok k _ refl, unfolded t]
  obtain p1 where p1: "runCommand (sampleCommand True) sampleServe sampleProcess0 = (Inr (), p1)" "\<not> pr_crashed p1"
    using sample_clean by blast
  obtain e p2 where p2: "runCommand (sampleCommand False) sampleServe sampleProcess0 = (Inl e, p2)" "\<not> pr_crashed p2"
    using sample_leak by blast
  obtain p3 where p3: "runCommand (sampleCommand True) samplePanic sampleProcess0 = (Inr (), p3)" "pr_crashed p3"
    using sample_panic by blast
  from main [OF p1(1)] p1(2) main [OF p2(1)] p2(2) main [OF p3(1)] p3(2) z same show ?thesis by auto
qed

end
