(* ===== verification/Spec2Isabelle.thy ===== *)
theory Spec2Isabelle
  imports Merkle Schedule Storage Retry Execution Syncer TxManager Beacon Contract Oracle Updater
    Api Config Wallet Connect System Subscription Launch Codec CommitText Fetch Metrics Command
begin

text \<open>
  Verification of the SSV oracle.

  \<^bold>\<open>The program.\<close> The oracle follows the SSV Network contract on the execution chain and
  the validators' effective balances on the beacon chain. At scheduled epochs it commits the
  root of a Merkle tree over the balances of all clusters to the contract; the updater
  listens for committed roots and uses proofs from the same tree to update each cluster's
  balance on the contract; an HTTP API serves commits and proofs. Everything is kept in one
  SQLite database. The parts work together as follows.

  \<^item> \<^verbatim>\<open>cmd/oracle/commands\<close> loads the configuration, checks the chain and starts the rest.
  \<^item> \<^verbatim>\<open>eth/syncer\<close> fetches contract logs through \<^verbatim>\<open>eth/execution\<close> and applies them to
    \<^verbatim>\<open>storage\<close>, one transaction per batch; for the updater it builds the state at the
    chain head in memory.
  \<^item> \<^verbatim>\<open>oracle\<close> waits for finalized checkpoints of \<^verbatim>\<open>eth/beacon\<close>, syncs, reads the balances,
    builds the tree of \<^verbatim>\<open>merkle\<close>, stores the commit and submits the root through
    \<^verbatim>\<open>contract\<close>, which sends transactions with \<^verbatim>\<open>txmanager\<close> and \<^verbatim>\<open>wallet\<close>.
  \<^item> \<^verbatim>\<open>updater\<close> reads the stored commit for a root event, rebuilds the tree and sends one
    update per cluster. \<^verbatim>\<open>api\<close> rebuilds it to answer proof requests.

  \<^bold>\<open>The theories.\<close> Definitions keep the names of the Go functions; a field carries a prefix
  where two structs share its name.

  \<^item> \<open>Base\<close>: Go's integers, byte slices and errors (\<open>goerror\<close>, with the text that the program
    inspects), the type \<open>op\<close> of an operation that reads and writes a state and may fail,
    \<open>invS\<close> with the collection \<open>inv_rules\<close> for invariants of such operations, and shared lemmas.
  \<^item> \<open>Merkle\<close> (\<^verbatim>\<open>merkle/tree.go\<close>, \<^verbatim>\<open>merkle/encoding.go\<close>): leaves, layers, \<open>NewTree\<close>,
    \<open>GetProof\<close>. Proofs are complete and, for a hash without collisions on the strings
    involved, sound; the root depends on the entries alone. The locale \<open>committed_tree\<close> is
    what the oracle, the updater and the API rely on.
  \<^item> \<open>Schedule\<close> (\<^verbatim>\<open>oracle/phase.go\<close>): commit phases on 64-bit epochs; \<open>NextTarget\<close> is the
    least target after an epoch (locale \<open>target_clock\<close>), where the targets are defined by the phase in force and its
    grid, not by the code's scan.
  \<^item> \<open>Storage\<close> (\<^verbatim>\<open>storage/storage.go\<close>, \<^verbatim>\<open>storage/schema.sql\<close>): the tables as a record, each
    query as an operation on them. A tape \<open>faults\<close> decides which statements fail, so every
    error path is covered; a failed transaction changes nothing. The schema's invariant
    \<open>db_wf\<close> is kept by every sequence of calls, a settled commit row never changes (locales
    \<open>commit_log\<close> and \<open>cluster_table\<close>).
  \<^item> \<open>Codec\<close> (\<^verbatim>\<open>storage/storage.go\<close>): the JSON and decimal texts of the columns of \<open>clusters\<close>, and that a
    row is read back from them as it was written.
  \<^item> \<open>CommitText\<close> (\<^verbatim>\<open>storage/storage.go\<close>): the JSON text of \<open>cluster_balances\<close>, with the identifiers in base
    64; what \<open>InsertPendingCommit\<close> writes the queries for commits read back as it was.
  \<^item> \<open>Retry\<close> (\<^verbatim>\<open>eth/retry.go\<close>): \<open>WithRetry\<close> with its back-off and the number of calls.
  \<^item> \<open>Execution\<close> (\<^verbatim>\<open>eth/execution\<close>): adaptive batch size (locale \<open>batch_sizer\<close>), error
    categories, grouping and timestamps, and the loop \<open>FetchLogs\<close>, which delivers the logs of
    a range exactly once and in order and ends under stated conditions on the node.
  \<^item> \<open>Syncer\<close> (\<^verbatim>\<open>eth/syncer\<close>): parsing, handlers, the batch transaction, \<open>SyncToBlock\<close>, the
    concurrent fetcher and consumer as the step relation \<open>pipeStep\<close>, and the head overlay. The
    specification is \<open>replay\<close>, the fold of the chain's logs over an abstract network state;
    the database and the overlay both refine it (locale \<open>log_replayer\<close>, interpreted for each),
    hence agree, and every interleaving of the pipeline has the result of the sequential loop.
  \<^item> \<open>TxManager\<close> (\<^verbatim>\<open>txmanager\<close>): policy, fees, the wait for receipts, cancelling and the loop of
    \<open>SendTransaction\<close>: every transaction that reaches the node respects the policy's cap,
    what is returned as success is a mined, successful receipt, and the call returns on a chain whose blocks
    are slower than the polls.
  \<^item> \<open>Beacon\<close>, \<open>Contract\<close> (\<^verbatim>\<open>eth/beacon\<close>, \<^verbatim>\<open>contract\<close>): the queries of the two clients.
  \<^item> \<open>Fetch\<close> (\<^verbatim>\<open>eth/beacon/client.go\<close>): the goroutines of \<open>GetValidatorBalances\<close> as the step relation
    \<open>fetchStep\<close>, over all interleavings with retries and cancellation. Every run ends, with at most ten requests at a
    time, and without an error it has the result of the sequential loop of \<open>Beacon\<close>.
  \<^item> \<open>Subscription\<close> (\<^verbatim>\<open>eth/beacon/client.go\<close>): the channel of finalized checkpoints between the
    event handler, the oracle and the shutdown, as the step relation \<open>subStep\<close>; what the oracle receives, and
    that a send can panic, at shutdown only.
  \<^item> \<open>Connect\<close> (\<^verbatim>\<open>contract/client.go\<close>, \<^verbatim>\<open>contract/events.go\<close>, \<^verbatim>\<open>txmanager/manager.go\<close>): the
    connections that the contract client opens and closes, and its subscription; which of
    them are released on every path.
  \<^item> \<open>Oracle\<close> (\<^verbatim>\<open>oracle/oracle.go\<close>): aggregation, \<open>commit\<close> (its first half \<open>prepareCommit\<close>, its
    second \<open>submitCommit\<close>) and the main loop. The stored balances are exactly those of the
    chain's clusters and the beacon state; the loop commits at targets of the schedule only,
    in ascending order, and at every target that a checkpoint reaches on time.
  \<^item> \<open>Updater\<close> (\<^verbatim>\<open>updater/updater.go\<close>): both passes over the clusters and the event loop.
    Updates carry a valid proof for the right owner and operators whichever of the two
    sources (locale \<open>cluster_source\<close>, interpreted for the database and for the overlay) the
    row came from; blocks are processed in ascending order, at most once.
  \<^item> \<open>Api\<close> (\<^verbatim>\<open>api\<close>): both handlers as functions from request and storage to response, and the
    routes of the server with their methods, content types and panic recovery.
  \<^item> \<open>Wallet\<close> (\<^verbatim>\<open>wallet\<close>), \<open>Config\<close> (\<^verbatim>\<open>cmd/oracle/commands\<close>): signers, configuration and the
    checks at start-up.
  \<^item> \<open>System\<close> (\<^verbatim>\<open>cmd/oracle/commands/run.go\<close>): the services over one database as the step
    relation \<open>serviceStep\<close>; \<open>running\<close> are the states it reaches from a new database. A step is one
    message handled by one service, a change outside, or a restart. Handlers are atomic steps: the
    updater and the API write nothing (proved first) and the oracle is the one writer after the
    initial sync. The invariant holds in every running state: every stored commit is at a target and carries the
    root of its own balances; hence no API request meets a server error while the database works. A
    stored commit survives every run without \<open>--fresh\<close>. A start that fails is no step: the batches that its initial sync
    may already have stored are dropped, and the API serves only once the services have started.
  \<^item> \<open>Launch\<close> (\<^verbatim>\<open>cmd/oracle/commands/run.go\<close> and the constructors of \<^verbatim>\<open>storage\<close>, \<^verbatim>\<open>eth/execution\<close> and
    \<^verbatim>\<open>eth/beacon\<close>): \<open>run\<close> from the configuration to the exit. \<open>deferring\<close> is an acquisition with its deferred
    release. Whatever fails, what \<open>run\<close> opened is released and nothing else, but for two errors that are named and for a
    panic of a service's goroutine (\<open>Panicked\<close>), after which no deferred call runs. Nothing is assumed of the services.
    They are started on a validated configuration and a database of the node's chain only.
  \<^item> \<open>Metrics\<close> (the \<^verbatim>\<open>observability.go\<close> files): the recording functions, and the operations of \<open>TxManager\<close>,
    \<open>Oracle\<close>, \<open>Updater\<close> and \<open>Syncer\<close> that call them, once more with the list of measurements (suffix \<open>M\<close>);
    forgetting the list gives back the operation, and the counters and gauges agree with results, stored commits
    and targets.
  \<^item> \<open>Command\<close> (\<^verbatim>\<open>cmd/oracle/main.go\<close>, \<^verbatim>\<open>root.go\<close>, \<^verbatim>\<open>version.go\<close>, \<^verbatim>\<open>logger/logger.go\<close>): \<open>main\<close> and its exit status
    (2 after a panic),
    the commands, and the configuration of the logger.
  \<^item> This theory: the property that spans oracle, storage, Merkle tree and updater.

  \<^bold>\<open>Conventions.\<close> The outside (node, beacon node, signer, clock, MEV endpoints) is a state of an
  arbitrary type \<open>'w\<close> with the calls as fields of a client record; what a theorem assumes of
  them, such as \<open>honestNode\<close> or \<open>answersFrom\<close>, is a named premise, and every
  property with premises has a witness on a concrete world. Keccak-256, the ABI codec and the
  encoding of leaves are parameters with the laws \<open>keccak_ok\<close> and \<open>pack_ok\<close>. The iteration
  order of a Go map is an arbitrary permutation. A panic is \<open>None\<close>.

  \<^bold>\<open>Loops and fuel.\<close> Loops over data are structural recursion. The loops that ask the outside
  until it agrees (\<open>FetchLogs\<close>, \<open>SendTransaction\<close>, and what calls them) take fuel, and \<open>None\<close>
  is a call that has not returned. That \<open>FetchLogs\<close> returns is proved with a bound on the fuel;
  \<open>waitForReceipt\<close> and \<open>SendTransaction\<close> return within a number of polls that follows from the slot time, the
  lag of the node and the time between polls; the other results hold for every fuel.

  \<^bold>\<open>Not modelled.\<close> Log lines: the functions of \<^verbatim>\<open>logger\<close> other than \<open>Init\<close> and \<open>Sync\<close> forward one call to zap,
  and no state depends on them. The transport of the SSE and WebSocket subscriptions and of HTTP, which belongs to
  libraries: their deliveries are lists or steps. The aggregation and export of metrics (OpenTelemetry), the parsing
  of arguments (cobra), the text of YAML and of the API's JSON responses, the SQL driver, the content of the UI page and the progress
  bar of the syncer.
\<close>

section \<open>What the components do together\<close>

text \<open>C1: what the oracle commits, the updater and the API can prove. After \<open>commit\<close> for a target
  without a row, the stored commit, if there is one, is self-consistent: whatever order the
  maps of the updater are visited in, the tree it rebuilds from the stored balances has the
  stored root, every cluster of the stored balances has a proof of
  its balance that checks against it, and \<open>processCommit\<close> never gives up with a root mismatch.\<close>

theorem committed_root_provable:
  assumes "pack_ok (or_pack o1)" "\<And>m. mset (or_mapOrder o1 m) = mset m" "\<And>m. mset (up_mapOrder u m) = mset m"
    "keccakOf (up_syncer u) = keccakOf (or_syncer o1)" "up_pack u = or_pack o1"
    "commitOf s target = None" "commit fuel o1 cp target (s, bs, w) = Some (err, s', bs', w')"
    "commitOf s' target = Some row" "cm = scanCommit row"
  shows "(\<exists>t. buildTree (keccakOf (up_syncer u)) (up_pack u) (up_mapOrder u) (Commit_ClusterBalances cm) = Some t \<and>
      Tree_Root t = Commit_MerkleRoot cm \<and>
      (\<forall>b \<in> set (Commit_ClusterBalances cm). \<exists>b' \<in> set (Commit_ClusterBalances cm). \<exists>p h.
         copyTo 32 (CB_ClusterID b') = copyTo 32 (CB_ClusterID b) \<and>
         GetProof t (copyTo 32 (CB_ClusterID b)) = Some (Inr p) \<and>
         HashLeaf (keccakOf (up_syncer u)) (up_pack u) (copyTo 32 (CB_ClusterID b)) (CB_EffectiveBalance b') = Some h \<and>
         verifyProof (keccakOf (up_syncer u)) h p = Commit_MerkleRoot cm)) \<and>
    (\<forall>f x e x'. processCommit f u cm x \<noteq> Some (Inl e, x'))"
proof -
  let ?kc = "keccakOf (or_syncer o1)" and ?m = "balanceMapOf (Commit_ClusterBalances cm)"
  obtain t where t: "NewTree ?kc (or_pack o1) (or_mapOrder o1 ?m) = Some t" "Tree_Root t = Commit_MerkleRoot cm"
    using commit_row [OF assms(7,6,8)] assms(9) by (auto simp: buildTree_def)
  have g: "pack_ok (or_pack o1) \<and> wfClusters (or_mapOrder o1 ?m)" "pack_ok (or_pack o1) \<and> wfClusters (up_mapOrder u ?m)"
    using assms(1-3) balanceMapOf_wf wfClusters_perm by metis+
  obtain t' where t': "NewTree ?kc (or_pack o1) (up_mapOrder u ?m) = Some t'" using mt.build_total [OF g(2)] by blast
  have r: "Tree_Root t' = Commit_MerkleRoot cm"
    using mt.root_perm [OF g(1) _ t(1) t'] assms(2,3) t(2) by simp
  have b: "buildTree (keccakOf (up_syncer u)) (up_pack u) (up_mapOrder u) (Commit_ClusterBalances cm) = Some t'"
    using t' assms(4,5) by (simp add: buildTree_def)
  have "\<exists>b' \<in> set (Commit_ClusterBalances cm). \<exists>p h. copyTo 32 (CB_ClusterID b') = copyTo 32 (CB_ClusterID c) \<and>
      GetProof t' (copyTo 32 (CB_ClusterID c)) = Some (Inr p) \<and>
      HashLeaf ?kc (or_pack o1) (copyTo 32 (CB_ClusterID c)) (CB_EffectiveBalance b') = Some h \<and>
      verifyProof ?kc h p = Tree_Root t'"
    if "c \<in> set (Commit_ClusterBalances cm)" for c
  proof -
    have same: "set (up_mapOrder u ?m) = set ?m" using assms(3) mset_eq_setD by blast
    have "copyTo 32 (CB_ClusterID c) \<in> fst ` set (up_mapOrder u ?m)"
      using that by (simp add: same balanceMapOf_keys)
    then obtain eb where eb: "map_of (up_mapOrder u ?m) (copyTo 32 (CB_ClusterID c)) = Some eb"
      by (metis map_of_eq_None_iff not_None_eq)
    with same balanceMapOf_mem mt.prove_entry [OF g(2) t' eb] show ?thesis by (metis map_of_SomeD)
  qed
  moreover have "processCommit f u cm x \<noteq> Some (Inl e, x')" for f x e x'
    by (auto simp: processCommit_def b r split: option.splits prod.splits)
  ultimately show ?thesis using b r assms(4,5) by auto
qed

theorem committed_root_provable_witness:
  "\<exists>err s' bs' w' row t. commit (Suc (Suc 0)) sampleOracle sampleCheckpoint 150
       (toyStore, NewAdaptiveBatchSize 2 2, 0) = Some (err, s', bs', w') \<and> commitOf s' 150 = Some row \<and>
     buildTree toyHash samplePack rev (Commit_ClusterBalances (scanCommit row)) = Some t \<and>
     Tree_Root t = merkle_root row"
proof -
  let ?u = "sampleUpdater\<lparr>up_mapOrder := rev\<rparr>"
  obtain root s1 bs1 w1 where p: "prepareCommit (Suc (Suc 0)) sampleOracle sampleCheckpoint 150
      (toyStore, NewAdaptiveBatchSize 2 2, 0) = Some (Inr root, s1, bs1, w1)" using samplePrepare by blast
  obtain err s' bs' w' where q: "submitCommit (Suc (Suc 0)) sampleOracle sampleCheckpoint 150 root (s1, bs1, w1) =
      Some (err, s', bs', w')" using sampleSubmit by blast
  have c: "commit (Suc (Suc 0)) sampleOracle sampleCheckpoint 150 (toyStore, NewAdaptiveBatchSize 2 2, 0) =
      Some (err, s', bs', w')" using p q by (simp add: commit_def)
  have n: "commitOf toyStore 150 = None" by (simp add: commitOf_def toyStore_def emptyTables_def)
  have "commitOf s' 150 \<noteq> None" using prepared_row [OF p n] submitCommit_row [OF q]
    by (auto simp: UpdateCommitStatus_row)
  then obtain row where row: "commitOf s' 150 = Some row" by blast
  have f: "pack_ok (or_pack sampleOracle)" "or_mapOrder sampleOracle m = m" "up_mapOrder ?u = rev"
    "keccakOf (up_syncer ?u) = keccakOf (or_syncer sampleOracle)" "up_pack ?u = or_pack sampleOracle"
    "keccakOf (up_syncer ?u) = toyHash" "up_pack ?u = samplePack" for m
    by (simp_all add: sampleOracle_def sampleUpdater_def samplePack_ok toySyncer_def)
  obtain t where "buildTree toyHash samplePack rev (Commit_ClusterBalances (scanCommit row)) = Some t"
      "Tree_Root t = Commit_MerkleRoot (scanCommit row)"
    using committed_root_provable [OF f(1) _ _ f(4,5) n c row refl] f(2,3,6,7) by auto
  with c row show ?thesis by (auto simp: scanCommit_def)
qed

end
